(* ===== verification/Prelude.thy ===== *)
theory Prelude
  imports Main "HOL-Library.Multiset" "HOL-Library.Word" "HOL-Library.AList" "HOL-Library.List_Lexorder" "HOL-Library.Sublist"
begin

text \<open>
  The vocabulary every component of the model shares: the panics of the Rust code as values,
  computations that may panic, the standard library's hash maps, hash sets and channels, and
  the contracts (locales) under which the components reason about them.

  \<^item> \<open>panic\<close> lists the reasons for which the code can panic; \<open>panic + 'a\<close> is the
    result of a pure fallible computation.
  \<^item> \<open>('s, 'a) act\<close> is a computation over a mutable state \<open>'s\<close>. The state is returned in
    both outcomes, because what was sent on a channel before a panic stays sent.
  \<^item> A \<open>HashMap\<close> is an association list with distinct keys. Its iteration order is
    unspecified in Rust; every definition that iterates takes a ranking of the keys and visits
    them by rank, and the theorems hold for every ranking.
  \<^item> A \<open>Sender\<close>/\<open>Receiver\<close> pair of \<open>std::sync::mpsc\<close> is the queue of the messages sent and
    not yet received, with a flag that says whether the receiver still exists.
\<close>

named_theorems act_simps \<open>unfolding of the computations that may panic\<close>
named_theorems hash_simps \<open>hash maps and hash sets\<close>

section \<open>Bytes and panics\<close>

type_synonym u8 = "8 word"
type_synonym u16 = "16 word"
type_synonym u32 = "32 word"

lemma unat_u8_less [simp]: "unat (b :: u8) < 256"
  using unsigned_less [where ?'a = nat, of b] by simp

lemma unat_u16_less [simp]: "unat (b :: u16) < 65536"
  using unsigned_less [where ?'a = nat, of b] by simp

datatype panic =
    SliceOutOfRange
  | IndexOutOfBounds
  | KeyMissing
  | UnwrapNone
  | UnwrapErr
  | ArithOverflow
  | StackOverflow

definition res_bind :: "panic + 'a \<Rightarrow> ('a \<Rightarrow> panic + 'b) \<Rightarrow> panic + 'b" where
  "res_bind r f = (case r of Inl p \<Rightarrow> Inl p | Inr a \<Rightarrow> f a)"

lemma res_bind_simps [simp]:
  "res_bind (Inl p) f = Inl p"
  "res_bind (Inr a) f = f a"
  by (simp_all add: res_bind_def)

lemma res_bind_eq_Inr [simp]: "res_bind r f = Inr b \<longleftrightarrow> (\<exists>a. r = Inr a \<and> f a = Inr b)"
  by (cases r) simp_all

section \<open>Computations over a state that may panic\<close>

type_synonym ('s, 'a) act = "'s \<Rightarrow> (panic + 'a) \<times> 's"

definition act_ret :: "'a \<Rightarrow> ('s, 'a) act" where
  "act_ret a = (\<lambda>s. (Inr a, s))"

definition act_panic :: "panic \<Rightarrow> ('s, 'a) act" where
  "act_panic p = (\<lambda>s. (Inl p, s))"

definition act_bind :: "('s, 'a) act \<Rightarrow> ('a \<Rightarrow> ('s, 'b) act) \<Rightarrow> ('s, 'b) act" where
  "act_bind m f = (\<lambda>s. case m s of (Inl p, t) \<Rightarrow> (Inl p, t) | (Inr a, t) \<Rightarrow> f a t)"

definition act_then :: "('s, 'a) act \<Rightarrow> ('s, 'b) act \<Rightarrow> ('s, 'b) act" where
  "act_then m k = act_bind m (\<lambda>_. k)"

definition act_get :: "('s \<Rightarrow> 'a) \<Rightarrow> ('s, 'a) act" where
  "act_get f = (\<lambda>s. (Inr (f s), s))"

definition act_modify :: "('s \<Rightarrow> 's) \<Rightarrow> ('s, unit) act" where
  "act_modify f = (\<lambda>s. (Inr (), f s))"

definition act_lift :: "panic + 'a \<Rightarrow> ('s, 'a) act" where
  "act_lift r = (\<lambda>s. (r, s))"

text \<open>\<open>Option::unwrap\<close>.\<close>

definition act_unwrap :: "'a option \<Rightarrow> ('s, 'a) act" where
  "act_unwrap x = (case x of None \<Rightarrow> act_panic UnwrapNone | Some a \<Rightarrow> act_ret a)"

text \<open>\<open>iter().for_each\<close>: a panic in the closure ends the loop.\<close>

fun act_each :: "'a list \<Rightarrow> ('a \<Rightarrow> ('s, unit) act) \<Rightarrow> ('s, unit) act" where
  "act_each [] f = act_ret ()"
| "act_each (x # xs) f = act_then (f x) (act_each xs f)"

text \<open>A method call on a field of the state.\<close>

definition act_zoom :: "('s \<Rightarrow> 't) \<Rightarrow> ('t \<Rightarrow> 's \<Rightarrow> 's) \<Rightarrow> ('t, 'a) act \<Rightarrow> ('s, 'a) act" where
  "act_zoom get put m = (\<lambda>s. case m (get s) of (r, t) \<Rightarrow> (r, put t s))"

lemma act_apply [act_simps]:
  "act_ret a s = (Inr a, s)"
  "act_panic p s = (Inl p, s)"
  "act_get f s = (Inr (f s), s)"
  "act_modify g s = (Inr (), g s)"
  "act_lift r s = (r, s)"
  by (simp_all add: act_ret_def act_panic_def act_get_def act_modify_def act_lift_def)

lemma act_unwrap_simps [simp, act_simps]:
  "act_unwrap None = act_panic UnwrapNone"
  "act_unwrap (Some a) = act_ret a"
  by (simp_all add: act_unwrap_def)

lemma act_bind_apply [act_simps]:
  "act_bind m f s = (case m s of (Inl p, t) \<Rightarrow> (Inl p, t) | (Inr a, t) \<Rightarrow> f a t)"
  by (simp add: act_bind_def)

lemma act_then_apply [act_simps]:
  "act_then m k s = (case m s of (Inl p, t) \<Rightarrow> (Inl p, t) | (Inr a, t) \<Rightarrow> k t)"
  by (simp add: act_then_def act_bind_def)

lemma act_bind_Inr: "m s = (Inr a, t) \<Longrightarrow> act_bind m f s = f a t"
  by (simp add: act_bind_def)

lemma act_bind_Inl: "m s = (Inl p, t) \<Longrightarrow> act_bind m f s = (Inl p, t)"
  by (simp add: act_bind_def)

lemma act_then_Inr: "m s = (Inr a, t) \<Longrightarrow> act_then m k s = k t"
  by (simp add: act_then_apply)

lemma act_then_Inl: "m s = (Inl p, t) \<Longrightarrow> act_then m k s = (Inl p, t)"
  by (simp add: act_then_apply)

lemma act_bind_simps [simp]:
  "act_bind (act_ret a) f = f a"
  "act_bind (act_panic p) f = act_panic p"
  "act_then (act_ret a) k = k"
  "act_then (act_panic p) k = act_panic p"
  by (simp_all add: act_bind_def act_then_def act_ret_def act_panic_def act_get_def act_modify_def)

lemma act_zoom_apply [act_simps]:
  "act_zoom get put m s = (fst (m (get s)), put (snd (m (get s))) s)"
  by (simp add: act_zoom_def split: prod.splits)

lemma act_each_append:
  "act_each (xs @ ys) f = act_then (act_each xs f) (act_each ys f)"
proof (induction xs)
  case Nil
  then show ?case by simp
next
  case (Cons x xs)
  then show ?case
    by (auto simp: act_then_apply fun_eq_iff split: prod.splits sum.splits)
qed

lemma act_each_map: "act_each (map g xs) f = act_each xs (\<lambda>x. f (g x))"
  by (induction xs) simp_all

lemma act_each_concat: "act_each (concat xss) f = act_each xss (\<lambda>xs. act_each xs f)"
  by (induction xss) (simp_all add: act_each_append)

lemma act_each_cong:
  "(\<And>x. x \<in> set xs \<Longrightarrow> f x = g x) \<Longrightarrow> act_each xs f = act_each xs g"
  by (induction xs) simp_all

text \<open>A loop whose body never panics and acts as a pure state update is a fold.\<close>

lemma act_each_pure:
  "(\<And>x s. x \<in> set xs \<Longrightarrow> f x s = (Inr (), g x s)) \<Longrightarrow> act_each xs f s = (Inr (), fold g xs s)"
  by (induction xs arbitrary: s) (simp_all add: act_then_apply act_apply)

lemma act_each_inv:
  assumes "I s"
    and "\<And>x s. x \<in> set xs \<Longrightarrow> I s \<Longrightarrow> \<exists>t. f x s = (Inr (), t) \<and> I t"
  shows "\<exists>t. act_each xs f s = (Inr (), t) \<and> I t"
  using assms
proof (induction xs arbitrary: s)
  case Nil
  then show ?case by (simp add: act_apply)
next
  case (Cons x xs)
  obtain t where t: "f x s = (Inr (), t)" "I t"
    using Cons.prems by fastforce
  have "\<exists>u. act_each xs f t = (Inr (), u) \<and> I u"
    using t(2) by (rule Cons.IH) (auto intro: Cons.prems(2))
  with t(1) show ?case by (simp add: act_then_apply)
qed

section \<open>Framed computations\<close>

text \<open>
  \<open>framed R m\<close>: whatever \<open>m\<close> does, panics included, the states before and after it are related
  by \<open>R\<close>. For a reflexive and transitive \<open>R\<close> (an invariant is kept, a field is not written, a
  queue only grows) the property composes along the structure of the code.
\<close>

definition framed :: "('s \<Rightarrow> 's \<Rightarrow> bool) \<Rightarrow> ('s, 'a) act \<Rightarrow> bool" where
  "framed R m \<longleftrightarrow> (\<forall>s. R s (snd (m s)))"

lemma framedI: "(\<And>s. R s (snd (m s))) \<Longrightarrow> framed R m"
  by (simp add: framed_def)

lemma framedD: "framed R m \<Longrightarrow> m s = (r, t) \<Longrightarrow> R s t"
  by (metis framed_def snd_conv)

locale frame =
  fixes R :: "'s \<Rightarrow> 's \<Rightarrow> bool"
  assumes frame_refl: "R s s"
    and frame_trans: "R s t \<Longrightarrow> R t u \<Longrightarrow> R s u"
begin

lemma framed_ret: "framed R (act_ret a)"
  by (simp add: framed_def frame_refl act_simps)

lemma framed_panic: "framed R (act_panic p)"
  by (simp add: framed_def frame_refl act_simps)

lemma framed_get: "framed R (act_get f)"
  by (simp add: framed_def frame_refl act_simps)

lemma framed_lift: "framed R (act_lift r)"
  by (simp add: framed_def frame_refl act_simps)

lemma framed_unwrap: "framed R (act_unwrap x)"
  by (cases x) (simp_all add: framed_def frame_refl act_simps)

lemma framed_modify: "(\<And>s. R s (f s)) \<Longrightarrow> framed R (act_modify f)"
  by (simp add: framed_def act_simps)

lemma framed_bind:
  assumes "framed R m" and "\<And>a. framed R (f a)"
  shows "framed R (act_bind m f)"
proof (rule framedI)
  fix s
  obtain r t where m: "m s = (r, t)" by fastforce
  have "R s t" by (rule framedD [OF assms(1) m])
  moreover have "R t (snd (f a t))" for a
    using assms(2) by (simp add: framed_def)
  ultimately show "R s (snd (act_bind m f s))"
    using m by (cases r) (auto simp: act_bind_def intro: frame_trans)
qed

lemma framed_then: "framed R m \<Longrightarrow> framed R k \<Longrightarrow> framed R (act_then m k)"
  unfolding act_then_def by (rule framed_bind)

lemma framed_each: "(\<And>x. x \<in> set xs \<Longrightarrow> framed R (f x)) \<Longrightarrow> framed R (act_each xs f)"
  by (induction xs) (auto intro: framed_ret framed_then)

text \<open>Taking a value out of a part of the state that is written back: \<open>try_recv\<close> of a channel.\<close>

lemma framed_take:
  assumes "\<And>s. R s (put (snd (g s)) s)" and "\<And>x. framed R (k x)"
  shows "framed R (act_bind (act_get g) (\<lambda>(x, c). act_then (act_modify (put c)) (k x)))"
proof (rule framedI)
  fix s
  obtain x c where g: "g s = (x, c)" by fastforce
  have "R s (put c s)" using assms(1) [of s] g by simp
  moreover have "R (put c s) (snd (k x (put c s)))" using assms(2) [of x] by (simp add: framed_def)
  ultimately show "R s (snd (act_bind (act_get g) (\<lambda>(x, c). act_then (act_modify (put c)) (k x)) s))"
    by (simp add: g act_simps frame_trans)
qed

lemmas framed_rules =
  framed_ret framed_panic framed_get framed_lift framed_unwrap framed_bind framed_then framed_each

end

section \<open>Computations that ignore a part of the state\<close>

text \<open>\<open>commutes f m\<close>: changing the state by \<open>f\<close> before \<open>m\<close> has the same effect as after it.\<close>

definition commutes :: "('s \<Rightarrow> 's) \<Rightarrow> ('s, 'a) act \<Rightarrow> bool" where
  "commutes f m \<longleftrightarrow> (\<forall>s. m (f s) = (fst (m s), f (snd (m s))))"

lemma commutes_ret: "commutes f (act_ret a)"
  by (simp add: commutes_def act_apply)

lemma commutes_panic: "commutes f (act_panic p)"
  by (simp add: commutes_def act_apply)

lemma commutes_lift: "commutes f (act_lift r)"
  by (simp add: commutes_def act_apply)

lemma commutes_unwrap: "commutes f (act_unwrap x)"
  by (cases x) (simp_all add: commutes_ret commutes_panic)

lemma commutes_get: "(\<And>s. g (f s) = g s) \<Longrightarrow> commutes f (act_get g)"
  by (simp add: commutes_def act_apply)

lemma commutes_modify: "(\<And>s. h (f s) = f (h s)) \<Longrightarrow> commutes f (act_modify h)"
  by (simp add: commutes_def act_apply)

lemma commutes_bind:
  assumes "commutes f m" and "\<And>a. commutes f (k a)"
  shows "commutes f (act_bind m k)"
  unfolding commutes_def
proof
  fix s
  have "m (f s) = (fst (m s), f (snd (m s)))" using assms(1) by (simp add: commutes_def)
  moreover have "k a (f (snd (m s))) = (fst (k a (snd (m s))), f (snd (k a (snd (m s)))))" for a
    using assms(2) by (simp add: commutes_def)
  ultimately show "act_bind m k (f s) = (fst (act_bind m k s), f (snd (act_bind m k s)))"
    by (cases "m s") (auto simp: act_bind_def split: sum.split)
qed

lemma commutes_then: "commutes f m \<Longrightarrow> commutes f k \<Longrightarrow> commutes f (act_then m k)"
  unfolding act_then_def by (rule commutes_bind)

lemma commutes_each: "(\<And>x. commutes f (g x)) \<Longrightarrow> commutes f (act_each xs g)"
  by (induction xs) (auto intro: commutes_ret commutes_then)

lemmas commutes_rules =
  commutes_ret commutes_panic commutes_lift commutes_unwrap commutes_bind commutes_then commutes_each

section \<open>Computations that cannot panic\<close>

text \<open>
  \<open>safe I m Q\<close>: started in a state with the invariant \<open>I\<close>, \<open>m\<close> does not panic, keeps
  the invariant and returns a value with \<open>Q\<close>. There is one rule per construct of the code.
\<close>

definition safe :: "('s \<Rightarrow> bool) \<Rightarrow> ('s, 'a) act \<Rightarrow> ('a \<Rightarrow> bool) \<Rightarrow> bool" where
  "safe I m Q \<longleftrightarrow> (\<forall>s. I s \<longrightarrow> (\<exists>a s'. m s = (Inr a, s') \<and> I s' \<and> Q a))"

abbreviation returns :: "'a \<Rightarrow> bool" where
  "returns \<equiv> \<lambda>_. True"

lemma safeI: "(\<And>s. I s \<Longrightarrow> \<exists>a s'. m s = (Inr a, s') \<and> I s' \<and> Q a) \<Longrightarrow> safe I m Q"
  by (simp add: safe_def)

lemma safeE: "safe I m Q \<Longrightarrow> I s \<Longrightarrow> (\<And>a s'. m s = (Inr a, s') \<Longrightarrow> I s' \<Longrightarrow> Q a \<Longrightarrow> R) \<Longrightarrow> R"
  unfolding safe_def by blast

lemma safe_weaken: "safe I m R \<Longrightarrow> (\<And>a. R a \<Longrightarrow> Q a) \<Longrightarrow> safe I m Q"
  unfolding safe_def by blast

lemma safe_ret: "Q a \<Longrightarrow> safe I (act_ret a) Q"
  by (simp add: safe_def act_apply)

lemma safe_lift: "Q a \<Longrightarrow> safe I (act_lift (Inr a)) Q"
  by (simp add: safe_def act_apply)

lemma safe_get: "(\<And>s. I s \<Longrightarrow> Q (g s)) \<Longrightarrow> safe I (act_get g) Q"
  by (simp add: safe_def act_apply)

lemma safe_modify: "(\<And>s. I s \<Longrightarrow> I (f s)) \<Longrightarrow> safe I (act_modify f) returns"
  by (simp add: safe_def act_apply)

lemma safe_bind: "safe I m R \<Longrightarrow> (\<And>a. R a \<Longrightarrow> safe I (k a) Q) \<Longrightarrow> safe I (act_bind m k) Q"
  unfolding safe_def by (fastforce simp: act_bind_apply)

lemma safe_then: "safe I m R \<Longrightarrow> safe I k Q \<Longrightarrow> safe I (act_then m k) Q"
  unfolding act_then_def by (rule safe_bind)

lemma safe_each: "(\<And>x. x \<in> set xs \<Longrightarrow> safe I (f x) returns) \<Longrightarrow> safe I (act_each xs f) returns"
  by (induction xs) (auto intro: safe_ret safe_then)

lemma safe_if: "(b \<Longrightarrow> safe I m Q) \<Longrightarrow> (\<not> b \<Longrightarrow> safe I k Q) \<Longrightarrow> safe I (if b then m else k) Q"
  by simp

text \<open>Taking a value out of a channel.\<close>

lemma safe_take:
  assumes "\<And>s x c. I s \<Longrightarrow> g s = (x, c) \<Longrightarrow> I (put c s) \<and> R x" and "\<And>x. R x \<Longrightarrow> safe I (k x) Q"
  shows "safe I (act_bind (act_get g) (\<lambda>(x, c). act_then (act_modify (put c)) (k x))) Q"
proof (rule safeI)
  fix s assume s: "I s"
  obtain x c where g: "g s = (x, c)" by fastforce
  with s assms(1) have "I (put c s)" "R x" by blast+
  with assms(2) obtain a s' where "k x (put c s) = (Inr a, s')" "I s'" "Q a" by (meson safeE)
  with g show "\<exists>a s'. act_bind (act_get g) (\<lambda>(x, c). act_then (act_modify (put c)) (k x)) s = (Inr a, s') \<and> I s' \<and> Q a"
    by (simp add: act_simps)
qed

text \<open>A call on a component keeps the invariant of the whole when the component's is a part of it.\<close>

lemma safe_zoom:
  assumes "safe J m Q" and "\<And>s. I s \<Longrightarrow> J (get s)" and "\<And>s t. I s \<Longrightarrow> J t \<Longrightarrow> I (put t s)"
  shows "safe I (act_zoom get put m) Q"
proof (rule safeI)
  fix s assume s: "I s"
  then obtain a t where "m (get s) = (Inr a, t)" "J t" "Q a"
    by (rule safeE [OF assms(1) assms(2)])
  with s assms(3) show "\<exists>a s'. act_zoom get put m s = (Inr a, s') \<and> I s' \<and> Q a"
    by (simp add: act_zoom_apply)
qed

lemmas safe_rules = safe_bind safe_then safe_each safe_if

section \<open>Hash maps\<close>

type_synonym ('k, 'v) hmap = "('k \<times> 'v) list"

definition hm_wf :: "('k, 'v) hmap \<Rightarrow> bool" where
  "hm_wf m \<longleftrightarrow> distinct (map fst m)"

definition hm_get :: "('k, 'v) hmap \<Rightarrow> 'k \<Rightarrow> 'v option" where
  "hm_get m k = map_of m k"

definition hm_insert :: "'k \<Rightarrow> 'v \<Rightarrow> ('k, 'v) hmap \<Rightarrow> ('k, 'v) hmap" where
  "hm_insert k v m = AList.update k v m"

definition hm_remove :: "'k \<Rightarrow> ('k, 'v) hmap \<Rightarrow> ('k, 'v) hmap" where
  "hm_remove k m = AList.delete k m"

definition hm_contains :: "('k, 'v) hmap \<Rightarrow> 'k \<Rightarrow> bool" where
  "hm_contains m k \<longleftrightarrow> hm_get m k \<noteq> None"

text \<open>\<open>entry(k).or_insert(v)\<close>.\<close>

definition hm_or_insert :: "'k \<Rightarrow> 'v \<Rightarrow> ('k, 'v) hmap \<Rightarrow> ('k, 'v) hmap" where
  "hm_or_insert k v m = (case hm_get m k of None \<Rightarrow> hm_insert k v m | Some _ \<Rightarrow> m)"

definition hm_retain :: "('k \<Rightarrow> 'v \<Rightarrow> bool) \<Rightarrow> ('k, 'v) hmap \<Rightarrow> ('k, 'v) hmap" where
  "hm_retain P m = filter (\<lambda>(k, v). P k v) m"

text \<open>Iteration visits the entries by the rank of their keys.\<close>

definition hm_iter :: "('k \<Rightarrow> nat) \<Rightarrow> ('k, 'v) hmap \<Rightarrow> ('k \<times> 'v) list" where
  "hm_iter rank m = sort_key (\<lambda>(k, v). rank k) m"

text \<open>The contract of a hash map that its clients rely on.\<close>

locale hash_map =
  fixes wf :: "'m \<Rightarrow> bool"
    and get :: "'m \<Rightarrow> 'k \<Rightarrow> 'v option"
    and ins :: "'k \<Rightarrow> 'v \<Rightarrow> 'm \<Rightarrow> 'm"
    and rem :: "'k \<Rightarrow> 'm \<Rightarrow> 'm"
    and retain :: "('k \<Rightarrow> 'v \<Rightarrow> bool) \<Rightarrow> 'm \<Rightarrow> 'm"
    and entries :: "'m \<Rightarrow> ('k \<times> 'v) list"
  assumes get_ins: "get (ins k v m) = (get m)(k \<mapsto> v)"
    and get_rem: "get (rem k m) = (get m)(k := None)"
    and wf_ins: "wf m \<Longrightarrow> wf (ins k v m)"
    and wf_rem: "wf m \<Longrightarrow> wf (rem k m)"
    and wf_retain: "wf m \<Longrightarrow> wf (retain P m)"
    and entries_get: "wf m \<Longrightarrow> (k, v) \<in> set (entries m) \<longleftrightarrow> get m k = Some v"
    and entries_retain: "set (entries (retain P m)) = {(k, v) \<in> set (entries m). P k v}"
    and entries_distinct: "wf m \<Longrightarrow> distinct (map fst (entries m))"
begin

lemma get_retain_Some:
  "wf m \<Longrightarrow> get (retain P m) k = Some v \<longleftrightarrow> get m k = Some v \<and> P k v"
  using entries_get [OF wf_retain, of m k v P] entries_get [of m k v]
  by (simp add: entries_retain)

lemma get_retain:
  assumes "wf m"
  shows "get (retain P m) k =
    (case get m k of None \<Rightarrow> None | Some v \<Rightarrow> if P k v then Some v else None)"
proof (cases "get (retain P m) k")
  case None
  then have "\<not> (get m k = Some v \<and> P k v)" for v
    using get_retain_Some [OF assms, of P k v] by simp
  with None show ?thesis by (simp split: option.split)
next
  case (Some v)
  then show ?thesis
    using get_retain_Some [OF assms, of P k v] by simp
qed

lemma dom_get_entries: "wf m \<Longrightarrow> dom (get m) = fst ` set (entries m)"
  by (force simp: entries_get [symmetric] dom_def image_iff)

lemma finite_dom: "wf m \<Longrightarrow> finite (dom (get m))"
  by (simp add: dom_get_entries)

lemma length_entries: "wf m \<Longrightarrow> length (entries m) = card (dom (get m))"
  using distinct_card [OF entries_distinct] by (simp add: dom_get_entries)

lemma length_ins:
  "wf m \<Longrightarrow> length (entries (ins k v m)) = (if get m k = None then Suc (length (entries m)) else length (entries m))"
  by (auto simp: length_entries wf_ins get_ins finite_dom insert_absorb domIff)

text \<open>Two maps with the same entries are visited alike, whatever the order.\<close>

lemma entries_eqI:
  "wf m \<Longrightarrow> wf n \<Longrightarrow> get m = get n \<Longrightarrow> set (entries m) = set (entries n)"
  using entries_get by fastforce

end

lemma hm_get_insert: "hm_get (hm_insert k v m) = (hm_get m)(k \<mapsto> v)"
  by (simp add: hm_get_def hm_insert_def update_conv' fun_eq_iff)

lemma hm_get_remove: "hm_get (hm_remove k m) = (hm_get m)(k := None)"
  by (simp add: hm_get_def hm_remove_def delete_conv' fun_eq_iff)

lemma mset_map_fst_sort_key: "mset (map f (sort_key g m)) = mset (map f m)"
  by (metis mset_map mset_sort)

lemma distinct_map_sort_key [simp]: "distinct (map f (sort_key g m)) = distinct (map f m)"
  by (metis mset_map_fst_sort_key mset_eq_imp_distinct_iff)

lemma set_hm_iter [simp]: "set (hm_iter rank m) = set m"
  by (simp add: hm_iter_def)

lemma hm_wf_insert [simp]: "hm_wf m \<Longrightarrow> hm_wf (hm_insert k v m)"
  by (simp add: hm_wf_def hm_insert_def distinct_update)

lemma distinct_map_fst_hm_iter: "hm_wf m \<Longrightarrow> distinct (map fst (hm_iter rank m))"
  unfolding hm_wf_def hm_iter_def by simp

lemma hm_wf_Nil [simp, hash_simps]: "hm_wf []"
  by (simp add: hm_wf_def)

lemma hm_get_Nil [simp, hash_simps]: "hm_get [] k = None"
  by (simp add: hm_get_def)

lemma hm_wf_retain: "hm_wf m \<Longrightarrow> hm_wf (hm_retain P m)"
  unfolding hm_wf_def hm_retain_def by (induction m) (force split: prod.splits)+

lemma hm_entries: "hm_wf m \<Longrightarrow> (k, v) \<in> set (hm_iter rank m) \<longleftrightarrow> hm_get m k = Some v"
  by (simp add: hm_wf_def hm_get_def)

interpretation hm: hash_map hm_wf hm_get hm_insert hm_remove hm_retain "hm_iter rank"
  for rank :: "'k \<Rightarrow> nat"
proof unfold_locales
  show "hm_wf (hm_remove k m)" if "hm_wf m" for k :: 'k and m :: "('k, 'v) hmap"
    using that by (simp add: hm_wf_def hm_remove_def distinct_delete)
  show "set (hm_iter rank (hm_retain P m)) = {(k, v) \<in> set (hm_iter rank m). P k v}"
    for P and m :: "('k, 'v) hmap"
    by (auto simp: hm_retain_def)
  show "(k, v) \<in> set (hm_iter rank m) \<longleftrightarrow> hm_get m k = Some v" if "hm_wf m"
    for k and v :: 'v and m :: "('k, 'v) hmap"
    using that by (rule hm_entries)
qed (simp_all add: hm_get_insert hm_get_remove hm_wf_retain distinct_map_fst_hm_iter)

lemma length_hm_iter [simp]: "length (hm_iter rank m) = length m"
  by (simp add: hm_iter_def)

lemma hm_length_insert:
  "hm_wf m \<Longrightarrow> length (hm_insert k v m) = (if hm_get m k = None then Suc (length m) else length m)"
  using hm.length_ins [of m "\<lambda>_. 0" k v] by simp

lemma hm_length: "hm_wf m \<Longrightarrow> length m = card (dom (hm_get m))"
  using hm.length_entries [of m "\<lambda>_. 0"] by simp

lemma hm_get_or_insert [hash_simps]:
  "hm_get (hm_or_insert k v m) = (hm_get m)(k \<mapsto> (case hm_get m k of None \<Rightarrow> v | Some w \<Rightarrow> w))"
  by (auto simp: hm_or_insert_def hm_get_insert split: option.splits)

lemma hm_wf_or_insert [simp]: "hm_wf m \<Longrightarrow> hm_wf (hm_or_insert k v m)"
  by (simp add: hm_or_insert_def split: option.splits)

lemma hm_length_or_insert:
  "hm_wf m \<Longrightarrow> length (hm_or_insert k v m) = (if hm_get m k = None then Suc (length m) else length m)"
  by (simp add: hm_or_insert_def hm_length_insert split: option.splits)

text \<open>Summing over the entries of a map picks the one entry of a key.\<close>

lemma hm_sum_key:
  "hm_wf m \<Longrightarrow> sum_list (map (\<lambda>(k, v). if k = i then f v else 0) m) =
     (case hm_get m i of None \<Rightarrow> (0 :: nat) | Some v \<Rightarrow> f v)"
proof (induction m)
  case (Cons e m)
  show ?case
  proof (cases "fst e = i")
    case True
    with Cons.prems have "map_of m i = None"
      by (auto simp: hm_wf_def map_of_eq_None_iff)
    with True Cons show ?thesis by (auto simp: hm_wf_def hm_get_def split: prod.splits)
  next
    case False
    with Cons show ?thesis by (auto simp: hm_wf_def hm_get_def split: prod.splits)
  qed
qed simp

lemma sum_list_hm_iter:
  "sum_list (map f (hm_iter rank m)) = (sum_list (map f m) :: nat)"
proof -
  have "mset (map f (hm_iter rank m)) = mset (map f m)"
    by (simp add: hm_iter_def mset_map_fst_sort_key)
  then show ?thesis by (metis sum_mset_sum_list)
qed

lemmas hm_simps [hash_simps] =
  hm_get_insert hm_get_remove hm_wf_insert hm_wf_retain hm_wf_or_insert hm.get_retain

section \<open>Hash sets\<close>

type_synonym 'a hset = "'a list"

definition hs_insert :: "'a \<Rightarrow> 'a hset \<Rightarrow> 'a hset" where
  "hs_insert x s = (if x \<in> set s then s else s @ [x])"

definition hs_eq :: "'a hset \<Rightarrow> 'a hset \<Rightarrow> bool" where
  "hs_eq s t \<longleftrightarrow> set s = set t"

definition hs_difference :: "'a hset \<Rightarrow> 'a hset \<Rightarrow> 'a hset" where
  "hs_difference s t = filter (\<lambda>x. x \<notin> set t) s"

definition hs_iter :: "('a \<Rightarrow> nat) \<Rightarrow> 'a hset \<Rightarrow> 'a list" where
  "hs_iter rank s = sort_key rank s"

lemma set_hs_insert [simp, hash_simps]: "set (hs_insert x s) = insert x (set s)"
  by (auto simp: hs_insert_def)

lemma distinct_hs_insert [simp, hash_simps]: "distinct s \<Longrightarrow> distinct (hs_insert x s)"
  by (simp add: hs_insert_def)

lemma set_hs_difference [simp, hash_simps]: "set (hs_difference s t) = set s - set t"
  by (auto simp: hs_difference_def)

lemma distinct_hs_difference [simp, hash_simps]: "distinct s \<Longrightarrow> distinct (hs_difference s t)"
  by (simp add: hs_difference_def)

lemma hs_iter_simps [simp, hash_simps]:
  "set (hs_iter rank s) = set s"
  "distinct (hs_iter rank s) = distinct s"
  "length (hs_iter rank s) = length s"
  by (simp_all add: hs_iter_def)

lemma hs_insert_id [simp]: "x \<in> set s \<Longrightarrow> hs_insert x s = s"
  by (simp add: hs_insert_def)

section \<open>Channels\<close>

record 'a chan =
  ch_queue :: "'a list"
  ch_open :: bool

text \<open>\<open>Sender::send\<close>: the callers only log a failure, so the error is not returned.\<close>

definition chan_send :: "'a \<Rightarrow> 'a chan \<Rightarrow> 'a chan" where
  "chan_send x c = (if ch_open c then c\<lparr>ch_queue := ch_queue c @ [x]\<rparr> else c)"

definition chan_try_recv :: "'a chan \<Rightarrow> 'a option \<times> 'a chan" where
  "chan_try_recv c = (case ch_queue c of [] \<Rightarrow> (None, c) | x # xs \<Rightarrow> (Some x, c\<lparr>ch_queue := xs\<rparr>))"

definition chan_new :: "'a chan" where
  "chan_new = \<lparr>ch_queue = [], ch_open = True\<rparr>"

lemma chan_send_queue [simp]:
  "ch_queue (chan_send x c) = (if ch_open c then ch_queue c @ [x] else ch_queue c)"
  "ch_open (chan_send x c) = ch_open c"
  by (simp_all add: chan_send_def)

lemma chan_try_recv_open [simp]: "ch_open (snd (chan_try_recv c)) = ch_open c"
  by (simp add: chan_try_recv_def split: list.split)

lemma chan_send_prefix: "prefix (ch_queue c) (ch_queue (chan_send x c))"
  by (simp add: chan_send_def)

lemma chan_new_simps [simp]: "ch_queue chan_new = []" "ch_open chan_new"
  by (simp_all add: chan_new_def)

lemma fold_chan_send_queue:
  "ch_queue (fold chan_send xs c) = (if ch_open c then ch_queue c @ xs else ch_queue c)"
  "ch_open (fold chan_send xs c) = ch_open c"
  by (induction xs arbitrary: c) auto

section \<open>Invariants of a system that reacts to events\<close>

text \<open>
  A component is driven by a sequence of calls. What every call keeps holds after any sequence.
\<close>

locale step_system =
  fixes step :: "'e \<Rightarrow> 's \<Rightarrow> 's"
    and inv :: "'s \<Rightarrow> bool"
  assumes inv_step: "inv s \<Longrightarrow> inv (step e s)"
begin

lemma inv_run: "inv s \<Longrightarrow> inv (fold step es s)"
  by (induction es arbitrary: s) (simp_all add: inv_step)

lemma inv_prefix: "inv s \<Longrightarrow> inv (fold step (take n es) s)"
  by (rule inv_run)

end

section \<open>Lists\<close>

lemma Inl_case_simps [simp]:
  "(case r of Inl p \<Rightarrow> False | Inr x \<Rightarrow> True) \<longleftrightarrow> \<not> isl r"
  by (cases r) simp_all

text \<open>Cutting a list into consecutive blocks of \<open>w\<close> elements, the last one taking the rest.\<close>

fun blocks :: "nat \<Rightarrow> nat \<Rightarrow> 'a list \<Rightarrow> 'a list list" where
  "blocks w 0 xs = []"
| "blocks w (Suc 0) xs = [xs]"
| "blocks w (Suc (Suc n)) xs = take w xs # blocks w (Suc n) (drop w xs)"

lemma length_blocks [simp]: "length (blocks w n xs) = n"
  by (induction w n xs rule: blocks.induct) simp_all

lemma concat_blocks: "0 < n \<Longrightarrow> concat (blocks w n xs) = xs"
  by (induction w n xs rule: blocks.induct) simp_all

lemma blocks_bound:
  "c \<in> set (blocks w n xs) \<Longrightarrow> length xs \<le> w * n + r \<Longrightarrow> length c \<le> w + r"
proof (induction w n xs rule: blocks.induct)
  case (3 w n xs)
  then show ?case by auto
qed auto

end
