(* ===== verification/Std_Net.thy ===== *)
theory Std_Net
  imports Prelude
begin

text \<open>
  The part of \<open>std::net\<close> and \<open>std::str\<close> the program uses: IPv4 socket addresses, their
  textual form, the parser of that form, and \<open>str::split\<close>. The library builds its own socket
  addresses from an \<open>Ipv4Addr\<close>; IPv6 socket addresses are not modelled. A Rust string is its
  sequence of UTF-8 bytes, one \<open>char\<close> each.

  The result the components use is that parsing the text of an address gives the address back,
  and that splitting the text at the colon gives the host and the port.
\<close>

section \<open>Decimal numbers\<close>

definition digit_char :: "nat \<Rightarrow> char" where
  "digit_char d = char_of (48 + d)"

definition char_digit :: "char \<Rightarrow> nat option" where
  "char_digit c = (let n = of_char c in if 48 \<le> n \<and> n \<le> 57 then Some (n - 48) else None)"

fun show_nat :: "nat \<Rightarrow> string" where
  "show_nat n = (if n < 10 then [digit_char n] else show_nat (n div 10) @ [digit_char (n mod 10)])"

declare show_nat.simps [simp del]

fun read_digits :: "nat \<Rightarrow> string \<Rightarrow> nat option" where
  "read_digits acc [] = Some acc"
| "read_digits acc (c # cs) =
     (case char_digit c of None \<Rightarrow> None | Some d \<Rightarrow> read_digits (10 * acc + d) cs)"

definition read_nat :: "string \<Rightarrow> nat option" where
  "read_nat s = (if s = [] then None else read_digits 0 s)"

lemma char_digit_char [simp]: "d < 10 \<Longrightarrow> char_digit (digit_char d) = Some d"
  by (simp add: char_digit_def digit_char_def Let_def of_char_of)

lemma read_digits_append:
  "read_digits acc (s @ t) = (case read_digits acc s of None \<Rightarrow> None | Some a \<Rightarrow> read_digits a t)"
  by (induction acc s rule: read_digits.induct) (auto split: option.splits)

lemma read_digits_show_nat: "read_digits 0 (show_nat n) = Some n"
proof (induction n rule: show_nat.induct)
  case (1 n)
  show ?case
  proof (cases "n < 10")
    case True
    then show ?thesis by (simp add: show_nat.simps [of n])
  next
    case False
    with 1 show ?thesis by (simp add: show_nat.simps [of n] read_digits_append)
  qed
qed

lemma show_nat_not_Nil [simp]: "show_nat n \<noteq> []"
  by (subst show_nat.simps) simp

lemma read_nat_show_nat [simp]: "read_nat (show_nat n) = Some n"
  by (simp add: read_nat_def read_digits_show_nat)

definition is_digit :: "char \<Rightarrow> bool" where
  "is_digit c \<longleftrightarrow> char_digit c \<noteq> None"

lemma show_nat_digits: "c \<in> set (show_nat n) \<Longrightarrow> is_digit c"
proof (induction n rule: show_nat.induct)
  case (1 n)
  then show ?case
    by (subst (asm) show_nat.simps) (auto simp: is_digit_def split: if_splits)
qed

lemma not_is_digit [simp]: "\<not> is_digit CHR '':''" "\<not> is_digit CHR ''.''"
  by (simp_all add: is_digit_def char_digit_def)

lemma digit_char_0: "digit_char 0 = CHR ''0''"
proof -
  have "48 + 0 = (of_char CHR ''0'' :: nat)" by simp
  then show ?thesis by (simp only: digit_char_def char_of_char)
qed

lemma digit_char_eq_0: "d < 10 \<Longrightarrow> digit_char d = CHR ''0'' \<longleftrightarrow> d = 0"
proof
  assume d: "d < 10" and "digit_char d = CHR ''0''"
  then have "char_digit CHR ''0'' = Some d" by (metis char_digit_char)
  then show "d = 0" by (simp add: char_digit_def)
qed (simp add: digit_char_0)

lemma hd_show_nat: "hd (show_nat n) = CHR ''0'' \<longleftrightarrow> n = 0"
proof (induction n rule: show_nat.induct)
  case (1 n)
  then show ?case
    by (subst show_nat.simps) (auto simp: digit_char_eq_0)
qed

lemma length_show_nat: "n < 10 ^ k \<Longrightarrow> 0 < k \<Longrightarrow> length (show_nat n) \<le> k"
proof (induction n arbitrary: k rule: show_nat.induct)
  case (1 n k)
  show ?case
  proof (cases "n < 10")
    case True
    with "1.prems" show ?thesis by (simp add: show_nat.simps [of n])
  next
    case False
    with "1.prems" have "k \<noteq> 1" by auto
    with "1.prems" obtain j where j: "k = Suc j" "0 < j"
      by (cases k) auto
    with "1.prems" have "n div 10 < 10 ^ j" by (simp add: div_less_iff_less_mult mult.commute)
    with 1 False j show ?thesis by (simp add: show_nat.simps [of n])
  qed
qed

section \<open>Splitting at a character\<close>

fun split_on :: "'a \<Rightarrow> 'a list \<Rightarrow> 'a list list" where
  "split_on c [] = [[]]"
| "split_on c (x # xs) =
     (if x = c then [] # split_on c xs
      else case split_on c xs of [] \<Rightarrow> [[x]] | y # ys \<Rightarrow> (x # y) # ys)"

lemma split_on_not_Nil [simp]: "split_on c xs \<noteq> []"
  by (induction c xs rule: split_on.induct) (auto split: list.splits)

lemma split_on_id [simp]: "c \<notin> set xs \<Longrightarrow> split_on c xs = [xs]"
  by (induction c xs rule: split_on.induct) auto

lemma split_on_append [simp]:
  "c \<notin> set xs \<Longrightarrow> split_on c (xs @ c # ys) = xs # split_on c ys"
  by (induction xs) auto

section \<open>Socket addresses\<close>

datatype ipv4 = Ipv4 u8 u8 u8 u8

datatype socket_addr = SocketAddrV4 (addr_ip: ipv4) (addr_port: u16)

fun show_ip :: "ipv4 \<Rightarrow> string" where
  "show_ip (Ipv4 a b c d) =
     show_nat (unat a) @ ''.'' @ show_nat (unat b) @ ''.'' @ show_nat (unat c) @ ''.'' @ show_nat (unat d)"

text \<open>\<open>SocketAddr::to_string\<close>, and \<open>format!("{:?}:{:?}", ip, port)\<close>.\<close>

definition format_addr :: "ipv4 \<Rightarrow> nat \<Rightarrow> string" where
  "format_addr ip port = show_ip ip @ '':'' @ show_nat port"

definition addr_to_string :: "socket_addr \<Rightarrow> string" where
  "addr_to_string a = format_addr (addr_ip a) (unat (addr_port a))"

text \<open>
  \<open>str::parse::<SocketAddr>\<close> on the IPv4 grammar: an octet has one to three digits and no
  leading zero, the port any number of digits whose value fits in 16 bits.
\<close>

definition parse_octet :: "string \<Rightarrow> u8 option" where
  "parse_octet s =
     (if 3 < length s \<or> 1 < length s \<and> hd s = CHR ''0'' then None
      else case read_nat s of None \<Rightarrow> None
           | Some n \<Rightarrow> if n < 256 then Some (word_of_nat n) else None)"

definition parse_ip :: "string \<Rightarrow> ipv4 option" where
  "parse_ip s =
     (case map parse_octet (split_on CHR ''.'' s) of
        [Some a, Some b, Some c, Some d] \<Rightarrow> Some (Ipv4 a b c d)
      | _ \<Rightarrow> None)"

definition parse_port :: "string \<Rightarrow> u16 option" where
  "parse_port s =
     (case read_nat s of None \<Rightarrow> None
      | Some n \<Rightarrow> if n < 65536 then Some (word_of_nat n) else None)"

definition parse_addr :: "string \<Rightarrow> socket_addr option" where
  "parse_addr s =
     (case split_on CHR '':'' s of
        [h, p] \<Rightarrow> (case (parse_ip h, parse_port p) of
                     (Some ip, Some port) \<Rightarrow> Some (SocketAddrV4 ip port)
                   | _ \<Rightarrow> None)
      | _ \<Rightarrow> None)"

text \<open>No socket address, of whatever family, is written without a colon.\<close>

lemma parse_addr_no_colon: "CHR '':'' \<notin> set s \<Longrightarrow> parse_addr s = None"
  by (simp add: parse_addr_def)

lemma show_nat_no_sep [simp]:
  "CHR '':'' \<notin> set (show_nat n)" "CHR ''.'' \<notin> set (show_nat n)"
  using show_nat_digits not_is_digit by blast+

lemma show_ip_no_colon [simp]: "CHR '':'' \<notin> set (show_ip ip)"
  by (cases ip) simp

lemma split_addr_to_string [simp]:
  "split_on CHR '':'' (addr_to_string a) = [show_ip (addr_ip a), show_nat (unat (addr_port a))]"
  by (simp add: addr_to_string_def format_addr_def)

lemma parse_octet_show [simp]: "parse_octet (show_nat (unat (b :: u8))) = Some b"
proof -
  have "unat b < 10 ^ 3" by (rule order_less_trans [OF unat_u8_less]) simp
  then have "length (show_nat (unat b)) \<le> 3" by (rule length_show_nat) simp
  moreover have "\<not> (1 < length (show_nat (unat b)) \<and> hd (show_nat (unat b)) = CHR ''0'')"
    by (cases "unat b = 0") (simp_all add: hd_show_nat show_nat.simps [of 0])
  ultimately show ?thesis by (simp add: parse_octet_def)
qed

lemma parse_ip_show [simp]: "parse_ip (show_ip ip) = Some ip"
  by (cases ip) (simp add: parse_ip_def)

lemma parse_port_show: "n < 65536 \<Longrightarrow> parse_port (show_nat n) = Some (word_of_nat n)"
  by (simp add: parse_port_def)

lemma parse_format_addr:
  "parse_addr (format_addr ip port) =
     (if port < 65536 then Some (SocketAddrV4 ip (word_of_nat port)) else None)"
  by (simp add: parse_addr_def format_addr_def parse_port_def)

lemma parse_addr_to_string [simp]: "parse_addr (addr_to_string a) = Some a"
proof -
  have "unat (addr_port a) < 65536" by simp
  then show ?thesis by (simp add: addr_to_string_def parse_format_addr)
qed

lemma show_ip_inj [simp]: "show_ip a = show_ip b \<longleftrightarrow> a = b"
  by (metis option.inject parse_ip_show)

section \<open>Strings and bytes\<close>

definition byte_of_char :: "char \<Rightarrow> u8" where
  "byte_of_char c = word_of_nat (of_char c)"

definition char_of_byte :: "u8 \<Rightarrow> char" where
  "char_of_byte b = char_of (unat b)"

text \<open>\<open>String::as_bytes\<close>, and \<open>String::from_utf8_lossy\<close> on the byte sequences the program parses.\<close>

definition str_bytes :: "string \<Rightarrow> u8 list" where
  "str_bytes s = map byte_of_char s"

definition bytes_str :: "u8 list \<Rightarrow> string" where
  "bytes_str b = map char_of_byte b"

lemma char_of_byte_of_char [simp]: "char_of_byte (byte_of_char c) = c"
proof -
  have "of_char c < (256 :: nat)" by simp
  then have "unat (word_of_nat (of_char c) :: u8) = of_char c"
    by (simp add: unat_of_nat take_bit_nat_eq_self)
  then show ?thesis by (simp add: char_of_byte_def byte_of_char_def)
qed

lemma byte_of_char_of_byte [simp]: "byte_of_char (char_of_byte b) = b"
proof -
  have "unat b < 256" by simp
  then show ?thesis by (simp add: char_of_byte_def byte_of_char_def of_char_of)
qed

lemma bytes_str_bytes [simp]: "bytes_str (str_bytes s) = s"
  by (simp add: bytes_str_def str_bytes_def comp_def)

lemma str_bytes_str [simp]: "str_bytes (bytes_str b) = b"
  by (simp add: bytes_str_def str_bytes_def comp_def)

end
