(* ===== verification/Wire.thy ===== *)
theory Wire
  imports Std_Net
begin

text \<open>
  Byte representations (\<open>src/utils/utils.rs\<close>). \<open>ByteRep\<close> is implemented for a type by the
  macro \<open>impl_ByteRep\<close> from its derived \<open>Serialize\<close> and \<open>Deserialize\<close> through \<open>serde_json\<close>.
  \<open>serde_json\<close> and \<open>hex\<close> are libraries outside the repository: the record \<open>serde\<close> holds the two
  functions of \<open>serde_json\<close> at one type, and the components take them as parameters. The
  locale \<open>codec\<close> states what the program relies on: what was encoded decodes to itself.
\<close>

record 'a serde =
  sd_to_string :: "'a \<Rightarrow> string option"
  sd_from_slice :: "u8 list \<Rightarrow> 'a option"

definition as_bytes :: "'a serde \<Rightarrow> 'a \<Rightarrow> u8 list option" where
  "as_bytes S x =
     (case sd_to_string S x of Some s \<Rightarrow> Some (str_bytes s) | None \<Rightarrow> None)"

definition from_bytes :: "'a serde \<Rightarrow> u8 list \<Rightarrow> 'a option" where
  "from_bytes S v = (case sd_from_slice S v of Some a \<Rightarrow> Some a | None \<Rightarrow> None)"

section \<open>The contract of an encoding\<close>

locale codec =
  fixes enc :: "'a \<Rightarrow> 'b option"
    and dec :: "'b \<Rightarrow> 'a option"
  assumes round_trip: "\<exists>b. enc x = Some b \<and> dec b = Some x"
begin

lemma enc_Some: "enc x = Some (the (enc x))"
  using round_trip [of x] by auto

lemma enc_not_None [simp]: "enc x \<noteq> None"
  using round_trip [of x] by auto

lemma dec_the_enc [simp]: "dec (the (enc x)) = Some x"
  using round_trip [of x] by auto

lemma dec_enc: "enc x = Some b \<Longrightarrow> dec b = Some x"
  using round_trip [of x] by auto

lemma enc_inj: "enc x = enc y \<Longrightarrow> x = y"
  using round_trip [of x] round_trip [of y] by auto

lemma unwrap_enc: "act_unwrap (enc x) = act_ret (the (enc x))"
  using round_trip [of x] by auto

lemma map_the_enc: "map (\<lambda>x. dec (the (enc x))) xs = map Some xs"
  by simp

end

text \<open>The textual form of a socket address, as acknowledgements carry it, is such an encoding.\<close>

interpretation addr: codec
  "\<lambda>a. Some (str_bytes (addr_to_string a))" "\<lambda>b. parse_addr (bytes_str b)"
  by unfold_locales simp

text \<open>
  \<open>serde_ok S\<close>: \<open>serde_json\<close> prints every value of the type and reads its own output back.
\<close>

definition serde_ok :: "'a serde \<Rightarrow> bool" where
  "serde_ok S \<longleftrightarrow> (\<forall>x. \<exists>s. sd_to_string S x = Some s \<and> sd_from_slice S (str_bytes s) = Some x)"

lemma serde_codec: "serde_ok S \<Longrightarrow> codec (as_bytes S) (from_bytes S)"
  unfolding serde_ok_def codec_def as_bytes_def from_bytes_def by (fastforce split: option.splits)

text \<open>\<open>hex_ok enc dec\<close>: \<open>hex::decode\<close> inverts \<open>hex::encode\<close>.\<close>

definition hex_ok :: "(u8 list \<Rightarrow> string) \<Rightarrow> (string \<Rightarrow> u8 list option) \<Rightarrow> bool" where
  "hex_ok enc dec \<longleftrightarrow> (\<forall>b. dec (enc b) = Some b)"

lemma hex_codec: "hex_ok enc dec \<Longrightarrow> codec (\<lambda>b. Some (enc b)) dec"
  by unfold_locales (simp add: hex_ok_def)

end
