(* ===== verification/Keys.thy ===== *)
theory Keys
  imports Wire
begin

text \<open>
  256-bit keys (\<open>src/node/peer_key.rs\<close>, the \<open>MessageKey\<close> of \<open>src/protocol/protocol.rs\<close>).
  The type \<open>arr32\<close> is \<open>[u8; 32]\<close>. The derived \<open>Ord\<close> of an array is the lexicographic order of
  its bytes, which is the class order here.

  Proved: the exclusive or is a group operation and the distance it defines is a metric in
  which every key is at one distance only from a given key; the derived order is the order of
  the 256-bit numbers; \<open>leading_zeros\<close> counts the zero bits at the front and \<open>rand_in_range\<close>
  produces exactly the requested count; \<open>get_prefix\<close> is a bounded slice of \<open>get_binary\<close>.
\<close>

unbundle bit_operations_syntax

section \<open>Arrays of 32 bytes\<close>

typedef arr32 = "{xs :: u8 list. length xs = 32}"
  morphisms arr_list Arr32
  by (rule exI [of _ "replicate 32 0"]) simp

setup_lifting type_definition_arr32

lemma length_arr_list [simp]: "length (arr_list a) = 32"
  using arr_list by blast

text \<open>The array whose elements are the first 32 of a list, zeros where it is shorter.\<close>

lift_definition arr_of :: "u8 list \<Rightarrow> arr32" is "\<lambda>xs :: u8 list. take 32 (xs @ replicate 32 0)"
  by simp

lemma arr_list_arr_of: "length xs = 32 \<Longrightarrow> arr_list (arr_of xs) = xs"
  by (simp add: arr_of.rep_eq)

lemma arr_of_arr_list [simp]: "arr_of (arr_list a) = a"
  by (simp add: arr_list_inject [symmetric] arr_of.rep_eq)

lemma arr_eqI: "arr_list a = arr_list b \<Longrightarrow> a = b"
  by (simp add: arr_list_inject)

instantiation arr32 :: equal
begin

definition equal_arr32 :: "arr32 \<Rightarrow> arr32 \<Rightarrow> bool" where
  "equal_arr32 a b \<longleftrightarrow> arr_list a = arr_list b"

instance
  by standard (simp add: equal_arr32_def arr_list_inject)

end

instantiation arr32 :: linorder
begin

definition less_eq_arr32 :: "arr32 \<Rightarrow> arr32 \<Rightarrow> bool" where
  "a \<le> b \<longleftrightarrow> arr_list a \<le> arr_list b"

definition less_arr32 :: "arr32 \<Rightarrow> arr32 \<Rightarrow> bool" where
  "a < b \<longleftrightarrow> arr_list a < arr_list b"

instance
  by standard (auto simp: less_eq_arr32_def less_arr32_def arr_list_inject order.strict_iff_order)

end

type_synonym inner_key = arr32

datatype key = Key (key_arr: inner_key)

datatype message_key = MessageKey (inner: inner_key)

definition key_new :: "inner_key \<Rightarrow> key" where
  "key_new v = Key v"

definition get_key :: "key \<Rightarrow> inner_key" where
  "get_key k = key_arr k"

definition from_inner :: "inner_key \<Rightarrow> message_key" where
  "from_inner v = MessageKey v"

text \<open>\<open>Key::from_slice\<close>: \<open>serde_json::from_slice(v).unwrap()\<close>.\<close>

definition key_from_slice :: "key serde \<Rightarrow> u8 list \<Rightarrow> panic + key" where
  "key_from_slice S v = (case sd_from_slice S v of Some k \<Rightarrow> Inr k | None \<Rightarrow> Inl UnwrapErr)"

instantiation key :: linorder
begin

definition less_eq_key :: "key \<Rightarrow> key \<Rightarrow> bool" where
  "a \<le> b \<longleftrightarrow> key_arr a \<le> key_arr b"

definition less_key :: "key \<Rightarrow> key \<Rightarrow> bool" where
  "a < b \<longleftrightarrow> key_arr a < key_arr b"

instance
  by standard (auto simp: less_eq_key_def less_key_def key.expand order.strict_iff_order)

end

abbreviation key_bytes :: "key \<Rightarrow> u8 list" where
  "key_bytes k \<equiv> arr_list (key_arr k)"

section \<open>Distance\<close>

text \<open>\<open>Distance::xor\<close>: byte by byte.\<close>

lift_definition arr_xor :: "arr32 \<Rightarrow> arr32 \<Rightarrow> arr32" is "\<lambda>a b. map (\<lambda>i. a ! i XOR b ! i) [0..<32]"
  by simp

definition key_xor :: "key \<Rightarrow> key \<Rightarrow> key" where
  "key_xor a b = Key (arr_xor (key_arr a) (key_arr b))"

lemma key_bytes_xor: "key_bytes (key_xor a b) = map2 (XOR) (key_bytes a) (key_bytes b)"
  by (rule nth_equalityI) (simp_all add: key_xor_def arr_xor.rep_eq)

definition zero_key :: key where
  "zero_key = Key (arr_of [])"

lemma key_bytes_zero [simp]: "key_bytes zero_key = replicate 32 0"
  by (simp add: zero_key_def arr_of.rep_eq)

lemma key_eqI: "key_bytes a = key_bytes b \<Longrightarrow> a = b"
  by (simp add: arr_list_inject key.expand)

text \<open>What the distance owes to exclusive or alone.\<close>

locale xor_group =
  fixes xor :: "'a \<Rightarrow> 'a \<Rightarrow> 'a" and zero :: 'a
  assumes xor_assoc: "xor (xor a b) c = xor a (xor b c)"
    and xor_commute: "xor a b = xor b a"
    and xor_self: "xor a a = zero"
    and xor_zero: "xor a zero = a"
begin

lemma xor_cancel: "xor a (xor a b) = b"
  by (metis xor_assoc xor_commute xor_self xor_zero)

lemma xor_left_inj: "xor a b = xor a c \<longleftrightarrow> b = c"
  by (metis xor_cancel)

lemma xor_eq_zero: "xor a b = zero \<longleftrightarrow> a = b"
  by (metis xor_left_inj xor_self)

text \<open>For a given key and a given distance there is one key at that distance.\<close>

lemma unidirectional: "\<exists>!b. xor a b = d"
  by (metis xor_cancel)

lemma xor_chain: "xor (xor a b) (xor b c) = xor a c"
  by (metis xor_assoc xor_cancel)

end

interpretation kx: xor_group key_xor zero_key
proof unfold_locales
  show "key_xor (key_xor a b) c = key_xor a (key_xor b c)" for a b c
    by (rule key_eqI) (rule nth_equalityI, simp_all add: key_bytes_xor xor.assoc)
  show "key_xor a b = key_xor b a" for a b
    by (rule key_eqI) (rule nth_equalityI, simp_all add: key_bytes_xor xor.commute)
  show "key_xor a a = zero_key" for a
    by (rule key_eqI) (rule nth_equalityI, simp_all add: key_bytes_xor)
  show "key_xor a zero_key = a" for a
    by (rule key_eqI) (rule nth_equalityI, simp_all add: key_bytes_xor)
qed

section \<open>The number a key stands for\<close>

fun be_val :: "u8 list \<Rightarrow> nat" where
  "be_val [] = 0"
| "be_val (x # xs) = unat x * 256 ^ length xs + be_val xs"

definition key_val :: "key \<Rightarrow> nat" where
  "key_val k = be_val (key_bytes k)"

lemma be_val_less: "be_val xs < 256 ^ length xs"
proof (induction xs)
  case (Cons x xs)
  have "be_val (x # xs) < Suc (unat x) * 256 ^ length xs" using Cons by simp
  also have "\<dots> \<le> 256 * 256 ^ length xs"
    by (rule mult_right_mono) (use unat_u8_less [of x] in linarith, simp)
  finally show ?case by simp
qed simp

lemma key_val_less: "key_val k < 2 ^ 256"
  using be_val_less [of "key_bytes k"] by (simp add: key_val_def)

lemma be_val_Cons_less:
  assumes "unat x < unat y" and "length xs = n"
  shows "unat x * 256 ^ n + be_val xs < unat y * 256 ^ n + be_val ys"
proof -
  have "be_val xs < 256 ^ n" using be_val_less [of xs] assms(2) by simp
  moreover have "Suc (unat x) * 256 ^ n \<le> unat y * 256 ^ n"
    by (rule mult_right_mono) (use assms in simp_all)
  ultimately show ?thesis by simp
qed

lemma be_val_less_iff: "length xs = length ys \<Longrightarrow> xs < ys \<longleftrightarrow> be_val xs < be_val ys"
proof (induction xs ys rule: list_induct2)
  case (Cons x xs y ys)
  consider "unat x < unat y" | "x = y" | "unat y < unat x"
    by (metis nat_neq_iff unsigned_word_eqI)
  then show ?case
  proof cases
    case 1
    with be_val_Cons_less [OF 1, of xs "length ys" ys] Cons show ?thesis
      by (simp add: word_less_nat_alt)
  next
    case 2
    with Cons show ?thesis by simp
  next
    case 3
    with be_val_Cons_less [OF 3, of ys "length ys" xs] Cons show ?thesis
      by (auto simp: word_less_nat_alt)
  qed
qed simp

lemma key_less_iff: "a < b \<longleftrightarrow> key_val a < key_val b"
  by (simp add: less_key_def less_arr32_def key_val_def be_val_less_iff)

lemma key_le_iff: "a \<le> b \<longleftrightarrow> key_val a \<le> key_val b"
  using key_less_iff [of b a] by (simp add: linorder_not_less [symmetric])

text \<open>The distance satisfies the triangle inequality.\<close>

lemma nat_xor_le_add: "(a :: nat) XOR b \<le> a + b"
proof (induction a arbitrary: b rule: less_induct)
  case (less a)
  show ?case
  proof (cases "a = 0")
    case False
    then have "(a div 2) XOR (b div 2) \<le> a div 2 + b div 2"
      by (intro less) simp
    then have "a XOR b \<le> of_bool (odd a \<noteq> odd b) + 2 * (a div 2 + b div 2)"
      by (subst xor_rec) simp
    also have "\<dots> \<le> a + b" by (cases "odd a"; cases "odd b") (auto elim!: oddE evenE)
    finally show ?thesis .
  qed simp
qed

lemma byte_triangle: "unat (x XOR z :: u8) \<le> unat (x XOR y) + unat (y XOR z)"
proof -
  have "x XOR z = (x XOR y) XOR (y XOR z)"
    by (rule bit_word_eqI) (auto simp: bit_simps)
  then have "unat (x XOR z) = unat (x XOR y) XOR unat (y XOR z)"
    by (simp only: unsigned_xor_eq)
  then show ?thesis by (simp only: nat_xor_le_add)
qed

lemma be_val_triangle:
  "length xs = length ys \<Longrightarrow> length ys = length zs \<Longrightarrow>
     be_val (map2 (XOR) xs zs) \<le> be_val (map2 (XOR) xs ys) + be_val (map2 (XOR) ys zs)"
proof (induction xs ys zs rule: list_induct3)
  case (Cons x xs y ys z zs)
  have "unat (x XOR z) * 256 ^ length zs \<le>
      (unat (x XOR y) + unat (y XOR z)) * 256 ^ length zs"
    by (rule mult_right_mono [OF byte_triangle]) simp
  with Cons show ?case by (simp add: algebra_simps)
qed simp

section \<open>Leading zeros and ones\<close>

text \<open>\<open>u8::leading_zeros\<close>, \<open>u8::leading_ones\<close>: the run at the top of bits 7 down to 0.\<close>

abbreviation bits_down :: "nat list" where
  "bits_down \<equiv> [7, 6, 5, 4, 3, 2, 1, 0]"

definition u8_leading_zeros :: "u8 \<Rightarrow> nat" where
  "u8_leading_zeros b = length (takeWhile (\<lambda>i. \<not> bit b i) bits_down)"

definition u8_leading_ones :: "u8 \<Rightarrow> nat" where
  "u8_leading_ones b = length (takeWhile (\<lambda>i. bit b i) bits_down)"

fun leading_zeros_loop :: "nat \<Rightarrow> u8 list \<Rightarrow> nat" where
  "leading_zeros_loop n [] = n"
| "leading_zeros_loop n (b # bs) =
     (if b = 0 then leading_zeros_loop (n + 8) bs else n + u8_leading_zeros b)"

definition leading_zeros :: "key \<Rightarrow> nat" where
  "leading_zeros k = leading_zeros_loop 0 (key_bytes k)"

fun leading_ones_loop :: "nat \<Rightarrow> u8 list \<Rightarrow> nat" where
  "leading_ones_loop n [] = 0"
| "leading_ones_loop n (b # bs) =
     (if b \<noteq> 0
      then if u8_leading_ones b = 8 then leading_ones_loop (n + 8) bs else n + u8_leading_ones b
      else leading_ones_loop n bs)"

definition leading_ones :: "key \<Rightarrow> nat" where
  "leading_ones k = leading_ones_loop 0 (key_bytes k)"

definition byte_bits :: "u8 \<Rightarrow> bool list" where
  "byte_bits b = map (bit b) bits_down"

lemma u8_bit_cases: "bit (b :: u8) i \<Longrightarrow> i \<in> set bits_down"
  using bit_imp_le_length [of b i] by auto

lemma u8_eq_0_iff: "(b :: u8) = 0 \<longleftrightarrow> (\<forall>i \<in> set bits_down. \<not> bit b i)"
proof
  assume "\<forall>i \<in> set bits_down. \<not> bit b i"
  then have "\<not> bit b n" for n using u8_bit_cases [of b n] by blast
  then show "b = 0" by (simp add: bit_eq_iff)
qed simp

lemma byte_bits_zeros: "takeWhile Not (byte_bits b @ r) =
    (if b = 0 then replicate 8 False @ takeWhile Not r else takeWhile Not (byte_bits b))"
  by (auto simp: byte_bits_def u8_eq_0_iff numeral_eq_Suc)

lemma leading_zeros_loop_bits:
  "leading_zeros_loop n bs = n + length (takeWhile Not (concat (map byte_bits bs)))"
proof (induction n bs rule: leading_zeros_loop.induct)
  case (2 n b bs)
  have "u8_leading_zeros b = length (takeWhile Not (byte_bits b))"
    by (simp add: u8_leading_zeros_def byte_bits_def takeWhile_map comp_def)
  with 2 show ?case by (simp add: byte_bits_zeros)
qed simp

lemma leading_zeros_loop_skip:
  "b \<noteq> 0 \<Longrightarrow> leading_zeros_loop n (replicate q 0 @ b # bs) = n + 8 * q + u8_leading_zeros b"
  by (induction q arbitrary: n) auto

section \<open>Random keys\<close>

text \<open>
  Element assignment \<open>a[i] = v\<close> panics out of bounds. A random key draws 32 bytes; \<open>rnd t\<close> is
  the \<open>t\<close>-th byte of the random source (the \<open>rand\<close> crate, outside the repository).
\<close>

lift_definition arr_update :: "nat \<Rightarrow> u8 \<Rightarrow> arr32 \<Rightarrow> arr32" is "\<lambda>i v (a :: u8 list). a[i := v]"
  by simp

definition arr_set :: "nat \<Rightarrow> u8 \<Rightarrow> arr32 \<Rightarrow> panic + arr32" where
  "arr_set i v a = (if i < 32 then Inr (arr_update i v a) else Inl IndexOutOfBounds)"

definition arr_get :: "arr32 \<Rightarrow> nat \<Rightarrow> panic + u8" where
  "arr_get a i = (if i < 32 then Inr (arr_list a ! i) else Inl IndexOutOfBounds)"

definition rand_arr :: "(nat \<Rightarrow> u8) \<Rightarrow> nat \<Rightarrow> arr32" where
  "rand_arr rnd t = arr_of (map rnd [t..<t + 32])"

definition key_rand :: "(nat \<Rightarrow> u8) \<Rightarrow> nat \<Rightarrow> key" where
  "key_rand rnd t = Key (rand_arr rnd t)"

definition message_key_rand :: "(nat \<Rightarrow> u8) \<Rightarrow> nat \<Rightarrow> message_key" where
  "message_key_rand rnd t = MessageKey (rand_arr rnd t)"

fun zero_bytes :: "nat list \<Rightarrow> arr32 \<Rightarrow> panic + arr32" where
  "zero_bytes [] a = Inr a"
| "zero_bytes (i # ks) a = res_bind (arr_set i 0 a) (zero_bytes ks)"

definition range_arr :: "nat \<Rightarrow> arr32 \<Rightarrow> panic + arr32" where
  "range_arr idx a =
     (let bytes = idx div 8; bit = idx mod 8 in
      res_bind (zero_bytes [0..<bytes] a) (\<lambda>a.
      res_bind (arr_get a bytes) (\<lambda>b.
      res_bind (arr_set bytes (b AND drop_bit bit 0xFF) a) (\<lambda>a.
      res_bind (arr_get a bytes) (\<lambda>b.
      arr_set bytes (b OR push_bit (8 - bit - 1) 1) a)))))"

definition key_rand_in_range :: "(nat \<Rightarrow> u8) \<Rightarrow> nat \<Rightarrow> nat \<Rightarrow> panic + key" where
  "key_rand_in_range rnd t idx = res_bind (range_arr idx (rand_arr rnd t)) (\<lambda>a. Inr (Key a))"

definition message_key_rand_in_range :: "(nat \<Rightarrow> u8) \<Rightarrow> nat \<Rightarrow> nat \<Rightarrow> panic + message_key" where
  "message_key_rand_in_range rnd t idx =
     res_bind (range_arr idx (rand_arr rnd t)) (\<lambda>a. Inr (MessageKey a))"

lemma zero_bytes_append: "zero_bytes (ks @ js) a = res_bind (zero_bytes ks a) (zero_bytes js)"
  by (induction ks arbitrary: a) (auto simp: res_bind_def split: sum.splits)

lemma zero_bytes_ok:
  "q \<le> 32 \<Longrightarrow> \<exists>a'. zero_bytes [0..<q] a = Inr a' \<and> arr_list a' = replicate q 0 @ drop q (arr_list a)"
proof (induction q arbitrary: a)
  case (Suc q)
  from Suc obtain a' where "zero_bytes [0..<q] a = Inr a'"
    and "arr_list a' = replicate q 0 @ drop q (arr_list a)" by auto
  with Suc.prems show ?case
    by (simp add: zero_bytes_append arr_set_def arr_update.rep_eq list_update_append Cons_nth_drop_Suc [symmetric]
        replicate_append_same [symmetric])
qed simp

lemma zero_bytes_panic: "32 < q \<Longrightarrow> zero_bytes [0..<q] a = Inl IndexOutOfBounds"
proof -
  assume q: "32 < q"
  have "[0..<q] = [0..<32] @ 32 # [33..<q]"
    using q upt_add_eq_append [of 0 32 "q - 32"] by (simp add: upt_rec [of 32 q])
  moreover obtain a' where "zero_bytes [0..<32] a = Inr a'" using zero_bytes_ok [of 32 a] by auto
  ultimately show ?thesis by (simp only: zero_bytes_append) (simp add: arr_set_def)
qed

lemma range_byte_zeros:
  "n < 8 \<Longrightarrow> u8_leading_zeros (b AND drop_bit n 0xFF OR push_bit (8 - n - 1) 1) = n"
proof -
  assume "n < 8"
  then consider "n = 0" | "n = 1" | "n = 2" | "n = 3" | "n = 4" | "n = 5" | "n = 6" | "n = 7"
    by linarith
  then show ?thesis
    by cases (simp_all add: u8_leading_zeros_def bit_or_iff bit_and_iff)
qed

lemma range_arr_ok:
  assumes "idx < 256"
  shows "\<exists>a'. range_arr idx a = Inr a' \<and> leading_zeros (Key a') = idx"
proof -
  let ?q = "idx div 8" and ?n = "idx mod 8"
  define b where "b = arr_list a ! ?q"
  define c where "c = b AND drop_bit ?n 0xFF OR push_bit (8 - ?n - 1) 1"
  have q: "?q < 32" using assms by simp
  obtain z where z: "zero_bytes [0..<?q] a = Inr z"
    and zl: "arr_list z = replicate ?q 0 @ drop ?q (arr_list a)"
    using zero_bytes_ok [of ?q a] q by auto
  have zq: "arr_list z ! ?q = b" using q by (simp add: zl nth_append b_def)
  let ?r = "arr_update ?q c (arr_update ?q (b AND drop_bit ?n 0xFF) z)"
  have r: "range_arr idx a = Inr ?r"
    using q by (simp add: range_arr_def Let_def z arr_get_def arr_set_def zq arr_update.rep_eq c_def)
  have bytes: "arr_list ?r = replicate ?q 0 @ c # drop (Suc ?q) (arr_list a)"
    using q by (simp add: arr_update.rep_eq zl list_update_append Cons_nth_drop_Suc [symmetric])
  have lz: "u8_leading_zeros c = ?n" unfolding c_def by (rule range_byte_zeros) simp
  then have "c \<noteq> 0" by (auto simp: u8_leading_zeros_def)
  then have "leading_zeros (Key ?r) = 8 * ?q + ?n"
    by (simp add: leading_zeros_def bytes leading_zeros_loop_skip lz)
  with r show ?thesis by auto
qed

lemma range_arr_panic:
  assumes "256 \<le> idx"
  shows "range_arr idx a = Inl IndexOutOfBounds"
proof (cases "32 < idx div 8")
  case True
  then show ?thesis by (simp add: range_arr_def Let_def zero_bytes_panic)
next
  case False
  with assms have "idx div 8 = 32" by auto
  with zero_bytes_ok [of 32 a] show ?thesis by (auto simp: range_arr_def Let_def arr_get_def)
qed

section \<open>Binary representation and prefixes\<close>

text \<open>\<open>format!("{:b}", byte)\<close>: the binary digits without leading zeros.\<close>

definition bin_char :: "bool \<Rightarrow> char" where
  "bin_char b = (if b then CHR ''1'' else CHR ''0'')"

definition fmt_byte :: "u8 \<Rightarrow> string" where
  "fmt_byte b = (if b = 0 then ''0''
                 else map (\<lambda>i. bin_char (bit b i)) (dropWhile (\<lambda>i. \<not> bit b i) bits_down))"

text \<open>\<open>impl Binary for Key\<close>: the bytes one after the other.\<close>

definition get_binary :: "key \<Rightarrow> string" where
  "get_binary k = concat (map fmt_byte (arr_list (get_key k)))"

text \<open>The slice \<open>&binary[0..=size]\<close> panics when it ends beyond the string.\<close>

definition slice_incl :: "'a list \<Rightarrow> nat \<Rightarrow> panic + 'a list" where
  "slice_incl xs n = (if n < length xs then Inr (take (Suc n) xs) else Inl SliceOutOfRange)"

definition get_prefix :: "key \<Rightarrow> nat \<Rightarrow> panic + string" where
  "get_prefix k sz =
     (let binary = get_binary k in
      if sz > 0 then slice_incl binary sz
      else case binary of [] \<Rightarrow> Inl UnwrapNone | c # _ \<Rightarrow> Inr [c])"

lemma dropWhile_bits_down:
  "b \<noteq> (0 :: u8) \<Longrightarrow> \<exists>r. dropWhile (\<lambda>i. \<not> bit b i) bits_down = r \<and> r \<noteq> [] \<and> bit b (hd r) \<and> length r \<le> 8"
  unfolding u8_eq_0_iff by simp blast

lemma fmt_byte_length: "1 \<le> length (fmt_byte b)" "length (fmt_byte b) \<le> 8"
  using dropWhile_bits_down [of b] by (auto simp: fmt_byte_def Suc_le_eq)

lemma fmt_byte_hd: "hd (fmt_byte b) = bin_char (b \<noteq> 0)"
  using dropWhile_bits_down [of b] by (auto simp: fmt_byte_def bin_char_def hd_map)

lemma concat_fmt_length:
  "length bs \<le> length (concat (map fmt_byte bs))" "length (concat (map fmt_byte bs)) \<le> 8 * length bs"
proof (induction bs)
  case (Cons b bs)
  { case 1 with Cons fmt_byte_length [of b] show ?case by simp }
  { case 2 with Cons fmt_byte_length [of b] show ?case by simp }
qed simp_all

lemma get_binary_length: "32 \<le> length (get_binary k)" "length (get_binary k) \<le> 256"
  using concat_fmt_length [of "key_bytes k"] by (simp_all add: get_binary_def get_key_def)

lemma get_binary_not_Nil [simp]: "get_binary k \<noteq> []"
  using get_binary_length [of k] by auto

text \<open>Both branches of \<open>get_prefix\<close> are the same slice.\<close>

lemma get_prefix_eq: "get_prefix k n = slice_incl (get_binary k) n"
  by (cases "get_binary k") (auto simp: get_prefix_def slice_incl_def Let_def)

lemma get_prefix_Inr:
  "get_prefix k n = Inr s \<longleftrightarrow> n < length (get_binary k) \<and> s = take (Suc n) (get_binary k)"
  by (auto simp: get_prefix_eq slice_incl_def)

lemma get_prefix_Inl:
  "get_prefix k n = Inl p \<longleftrightarrow> length (get_binary k) \<le> n \<and> p = SliceOutOfRange"
  by (auto simp: get_prefix_eq slice_incl_def)

lemma get_binary_hd: "hd (get_binary k) = bin_char (key_bytes k ! 0 \<noteq> 0)"
proof -
  obtain b bs where "key_bytes k = b # bs" by (cases "key_bytes k") (simp_all flip: length_0_conv)
  moreover have "fmt_byte b \<noteq> []" using fmt_byte_length [of b] by auto
  ultimately show ?thesis by (simp add: get_binary_def get_key_def fmt_byte_hd)
qed

section \<open>Leading zeros and magnitude\<close>

lemma u8_bits_sum:
  "unat (b :: u8) = 128 * of_bool (bit b 7) + 64 * of_bool (bit b 6) + 32 * of_bool (bit b 5) +
     16 * of_bool (bit b 4) + 8 * of_bool (bit b 3) + 4 * of_bool (bit b 2) +
     2 * of_bool (bit b 1) + of_bool (bit b 0)"
proof -
  have "unat b = take_bit 8 (unat b)" by (simp add: take_bit_nat_eq_self)
  also have "\<dots> = (\<Sum>i = 0..<8. push_bit i (of_bool (bit (unat b) i)))"
    by (rule take_bit_sum)
  also have "{0..<8} = {0, 1, 2, 3, 4, 5, 6, 7 :: nat}" by auto
  finally show ?thesis by (simp add: push_bit_eq_mult bit_unsigned_iff)
qed

lemma u8_leading_zeros_bounds:
  assumes "b \<noteq> 0"
  shows "u8_leading_zeros b < 8" "2 ^ (7 - u8_leading_zeros b) \<le> unat b"
    "unat b < 2 ^ (8 - u8_leading_zeros b)"
proof -
  have "u8_leading_zeros b < 8 \<and> 2 ^ (7 - u8_leading_zeros b) \<le> unat b \<and>
      unat b < 2 ^ (8 - u8_leading_zeros b)"
    using assms unfolding u8_eq_0_iff u8_bits_sum [of b] u8_leading_zeros_def
    by (cases "bit b 7"; cases "bit b 6"; cases "bit b 5"; cases "bit b 4";
        cases "bit b 3"; cases "bit b 2"; cases "bit b 1"; cases "bit b 0"; simp)
  then show "u8_leading_zeros b < 8" "2 ^ (7 - u8_leading_zeros b) \<le> unat b"
    "unat b < 2 ^ (8 - u8_leading_zeros b)" by auto
qed

text \<open>The count of leading zeros is 256 less the bit length of the number.\<close>

lemma leading_zeros_loop_shift: "leading_zeros_loop (n + m) bs = n + leading_zeros_loop m bs"
  by (induction m bs rule: leading_zeros_loop.induct) (simp_all add: add.assoc)

lemma leading_zeros_loop_le: "leading_zeros_loop 0 bs \<le> 8 * length bs"
proof (induction bs)
  case (Cons b bs)
  then show ?case
    using leading_zeros_loop_shift [of 8 0 bs] u8_leading_zeros_bounds(1) [of b]
    by (cases "b = 0") simp_all
qed simp

lemma be_val_upper: "be_val bs < 2 ^ (8 * length bs - leading_zeros_loop 0 bs)"
proof (induction bs)
  case (Cons b bs)
  show ?case
  proof (cases "b = 0")
    case True
    with Cons show ?thesis using leading_zeros_loop_shift [of 8 0 bs] by simp
  next
    case False
    let ?z = "u8_leading_zeros b"
    have "be_val (b # bs) < Suc (unat b) * 256 ^ length bs"
      using be_val_less [of bs] by simp
    also have "\<dots> \<le> 2 ^ (8 - ?z) * 256 ^ length bs"
      by (rule mult_right_mono) (use u8_leading_zeros_bounds(3) [OF False] in \<open>simp_all add: Suc_le_eq\<close>)
    also have "\<dots> = 2 ^ (8 - ?z + 8 * length bs)"
      by (simp add: power_add power_mult)
    finally show ?thesis using u8_leading_zeros_bounds(1) [OF False] False by simp
  qed
qed simp

lemma be_val_lower:
  "leading_zeros_loop 0 bs < 8 * length bs \<Longrightarrow> 2 ^ (8 * length bs - 1 - leading_zeros_loop 0 bs) \<le> be_val bs"
proof (induction bs)
  case (Cons b bs)
  show ?case
  proof (cases "b = 0")
    case True
    with Cons show ?thesis using leading_zeros_loop_shift [of 8 0 bs] by simp
  next
    case False
    let ?z = "u8_leading_zeros b"
    have z: "?z < 8" "2 ^ (7 - ?z) \<le> unat b" using u8_leading_zeros_bounds [OF False] by auto
    have "8 * length (b # bs) - 1 - leading_zeros_loop 0 (b # bs) = (7 - ?z) + 8 * length bs"
      using z(1) False by simp
    then have "(2 :: nat) ^ (8 * length (b # bs) - 1 - leading_zeros_loop 0 (b # bs)) =
        2 ^ (7 - ?z) * 256 ^ length bs"
      by (simp only: power_add power_mult) simp
    also have "\<dots> \<le> unat b * 256 ^ length bs" by (rule mult_right_mono [OF z(2)]) simp
    finally show ?thesis by simp
  qed
qed simp

lemma leading_zeros_loop_zeros [simp]: "leading_zeros_loop n (replicate m 0) = n + 8 * m"
  by (induction m arbitrary: n) simp_all

lemma key_val_inj: "key_val a = key_val b \<longleftrightarrow> a = b"
  using key_less_iff [of a b] key_less_iff [of b a] by auto

section \<open>Properties\<close>

text \<open>
  The exclusive-or distance, read as a 256-bit number, is a metric: it is zero
  exactly between equal keys, symmetric and satisfies the triangle inequality; and for every
  key and every distance there is exactly one key at that distance.
\<close>

theorem xor_metric:
  "(key_val (key_xor a b) = 0 \<longleftrightarrow> a = b) \<and>
   key_val (key_xor a b) = key_val (key_xor b a) \<and>
   key_val (key_xor a c) \<le> key_val (key_xor a b) + key_val (key_xor b c) \<and>
   (\<exists>!k. key_xor a k = d)"
proof (intro conjI)
  have "key_val zero_key = 0"
    using be_val_upper [of "replicate 32 0"] by (simp add: key_val_def leading_zeros_loop_zeros)
  then show "key_val (key_xor a b) = 0 \<longleftrightarrow> a = b"
    by (metis key_val_inj kx.xor_eq_zero)
  show "key_val (key_xor a b) = key_val (key_xor b a)" by (simp add: kx.xor_commute)
  show "key_val (key_xor a c) \<le> key_val (key_xor a b) + key_val (key_xor b c)"
    by (simp add: key_val_def key_bytes_xor be_val_triangle)
qed (rule kx.unidirectional)

text \<open>
  \<open>leading_zeros\<close> counts the zero bits in front of the first one
  bit, reading the bytes in order and each byte from its top bit; so a key lies below
  \<open>2 ^ (256 - leading_zeros)\<close> and, unless it is zero, at or above half of that.
\<close>

theorem leading_zeros_magnitude:
  "leading_zeros k = length (takeWhile Not (concat (map byte_bits (arr_list (get_key k))))) \<and>
   key_val k < 2 ^ (256 - leading_zeros k) \<and>
   (if leading_zeros k = 256 then k = zero_key else 2 ^ (255 - leading_zeros k) \<le> key_val k)"
proof (intro conjI)
  show "leading_zeros k = length (takeWhile Not (concat (map byte_bits (arr_list (get_key k)))))"
    by (simp add: leading_zeros_def get_key_def leading_zeros_loop_bits)
  show lt: "key_val k < 2 ^ (256 - leading_zeros k)"
    using be_val_upper [of "key_bytes k"] by (simp add: key_val_def leading_zeros_def)
  have z: "key_val zero_key = 0"
    using be_val_upper [of "replicate 32 0"] by (simp add: key_val_def leading_zeros_loop_zeros)
  show "if leading_zeros k = 256 then k = zero_key else 2 ^ (255 - leading_zeros k) \<le> key_val k"
    using lt z key_val_inj [of k zero_key] leading_zeros_loop_le [of "key_bytes k"]
      be_val_lower [of "key_bytes k"]
    by (auto simp: key_val_def leading_zeros_def)
qed

text \<open>
  The derived order of keys, the one peers are sorted by, is the order of
  the 256-bit big-endian numbers.
\<close>

theorem key_order_numeric:
  "(a < b \<longleftrightarrow> key_val a < key_val b) \<and> (a \<le> b \<longleftrightarrow> key_val a \<le> key_val b) \<and>
   (a = b \<longleftrightarrow> key_val a = key_val b) \<and> key_val a < 2 ^ 256"
  using key_less_iff [of a b] key_le_iff [of a b] key_val_inj [of a b] key_val_less [of a] by simp

text \<open>
  For an index below 256, \<open>rand_in_range\<close> returns a key with exactly
  that many leading zero bits, whatever the random bytes; for a larger index it panics with an
  index out of bounds.
\<close>

theorem rand_in_range_spec:
  "case key_rand_in_range rnd t idx of
     Inr k \<Rightarrow> idx < 256 \<and> leading_zeros k = idx
   | Inl p \<Rightarrow> 256 \<le> idx \<and> p = IndexOutOfBounds"
proof (cases "idx < 256")
  case True
  with range_arr_ok [OF True, of "rand_arr rnd t"] show ?thesis
    by (auto simp: key_rand_in_range_def)
next
  case False
  with range_arr_panic [of idx "rand_arr rnd t"] show ?thesis
    by (simp add: key_rand_in_range_def)
qed

text \<open>
  \<open>get_prefix\<close> returns the first \<open>n + 1\<close> characters of the binary string
  when it is that long and otherwise panics; the string has between 32 and 256 characters, and
  its first one is \<open>'1'\<close> exactly when the first byte of the key is not zero (not when the top
  bit is set: the bytes are printed without padding).
\<close>

theorem get_prefix_spec:
  "get_prefix k n =
     (if n < length (get_binary k) then Inr (take (Suc n) (get_binary k)) else Inl SliceOutOfRange) \<and>
   32 \<le> length (get_binary k) \<and> length (get_binary k) \<le> 256 \<and>
   get_prefix k 0 = Inr [if arr_list (get_key k) ! 0 = 0 then CHR ''0'' else CHR ''1'']"
proof -
  have "get_prefix k 0 = Inr [hd (get_binary k)]"
    by (cases "get_binary k") (auto simp: get_prefix_def dest: arg_cong [of _ "[]"])
  then show ?thesis
    using get_binary_length [of k] get_binary_hd [of k]
    by (auto simp: get_prefix_eq slice_incl_def bin_char_def get_key_def)
qed

text \<open>
  Because each byte is printed without leading zeros, different
  keys share one binary string, so a prefix of it does not identify a range of distances.
\<close>

theorem get_binary_not_injective:
  "key_new (arr_of [1, 2]) \<noteq> key_new (arr_of [3]) \<and>
   get_binary (key_new (arr_of [1, 2])) = get_binary (key_new (arr_of [3]))"
proof
  have "arr_list (arr_of [1, 2]) \<noteq> arr_list (arr_of [3])"
    by (simp add: arr_of.rep_eq)
  then show "key_new (arr_of [1, 2]) \<noteq> key_new (arr_of [3])"
    by (auto simp: key_new_def)
  show "get_binary (key_new (arr_of [1, 2])) = get_binary (key_new (arr_of [3]))"
    by (simp add: get_binary_def key_new_def get_key_def arr_of.rep_eq fmt_byte_def bin_char_def
        flip: replicate_Suc)
qed

end
