(* ===== verification/Peers.thy ===== *)
theory Peers
  imports Keys
begin

text \<open>
  Peers: \<open>src/node/peer_id.rs\<close>, \<open>src/node/peer_info.rs\<close> and the traits \<open>Routable\<close> and
  \<open>Distance\<close> they implement. The hash of the \<open>sha256\<close> crate is a parameter.

  Proved: when a \<open>PeerInfo\<close> can be built, and that the order of distance pairs agrees with
  their equality when the distances are taken from one key.
\<close>

section \<open>Peer identifiers\<close>

datatype peer_id = PeerId (peer_id_str: string)

definition peer_id_get_id :: "peer_id \<Rightarrow> string" where
  "peer_id_get_id p = peer_id_str p"

definition peer_id_eq :: "peer_id \<Rightarrow> peer_id \<Rightarrow> bool" where
  "peer_id_eq a b \<longleftrightarrow> peer_id_get_id a = peer_id_get_id b"

definition peer_id_from_key :: "(u8 list \<Rightarrow> string) \<Rightarrow> key \<Rightarrow> peer_id" where
  "peer_id_from_key digest_bytes k = PeerId (digest_bytes (arr_list (get_key k)))"

definition peer_id_rand :: "(u8 list \<Rightarrow> string) \<Rightarrow> (nat \<Rightarrow> u8) \<Rightarrow> nat \<Rightarrow> peer_id" where
  "peer_id_rand digest_bytes rnd t = peer_id_from_key digest_bytes (key_rand rnd t)"

definition peer_id_rand_in_range ::
    "(u8 list \<Rightarrow> string) \<Rightarrow> (nat \<Rightarrow> u8) \<Rightarrow> nat \<Rightarrow> nat \<Rightarrow> panic + peer_id" where
  "peer_id_rand_in_range digest_bytes rnd t idx =
     res_bind (key_rand_in_range rnd t idx) (\<lambda>k. Inr (peer_id_from_key digest_bytes k))"

text \<open>\<open>PeerId::from_str\<close>: \<open>serde_json::from_str(&value).unwrap()\<close>.\<close>

definition peer_id_from_str :: "peer_id serde \<Rightarrow> string \<Rightarrow> panic + peer_id" where
  "peer_id_from_str S value =
     (case sd_from_slice S (str_bytes value) of Some p \<Rightarrow> Inr p | None \<Rightarrow> Inl UnwrapErr)"

lemma peer_id_eq_iff [simp]: "peer_id_eq a b \<longleftrightarrow> a = b"
  by (auto simp: peer_id_eq_def peer_id_get_id_def intro: peer_id.expand)

section \<open>Peer information\<close>

record peer_info =
  pi_id :: peer_id
  pi_key :: key
  pi_ip :: ipv4
  pi_port :: u32
  pi_address :: socket_addr

text \<open>
  \<open>PeerInfo::new\<close> builds the socket address from the text of the address and the 32-bit port;
  \<open>expect\<close> panics when that text is not a socket address.
\<close>

definition peer_info_new :: "peer_id \<Rightarrow> key \<Rightarrow> ipv4 \<Rightarrow> u32 \<Rightarrow> panic + peer_info" where
  "peer_info_new pid k ip port =
     (case parse_addr (format_addr ip (unat port)) of
        None \<Rightarrow> Inl UnwrapErr
      | Some address \<Rightarrow>
          Inr \<lparr>pi_id = pid, pi_key = k, pi_ip = ip, pi_port = port, pi_address = address\<rparr>)"

definition routable_get_id :: "peer_info \<Rightarrow> peer_id" where
  "routable_get_id p = pi_id p"

definition peer_get_key :: "peer_info \<Rightarrow> key" where
  "peer_get_key p = pi_key p"

definition get_address :: "peer_info \<Rightarrow> socket_addr" where
  "get_address p = pi_address p"

definition peer_xor :: "peer_info \<Rightarrow> key \<Rightarrow> key" where
  "peer_xor p other = key_xor (pi_key p) other"

definition peer_leading_zeros :: "peer_info \<Rightarrow> nat" where
  "peer_leading_zeros p = leading_zeros (pi_key p)"

section \<open>Comparisons\<close>

datatype ordering = Less | Equal | Greater

definition cmp :: "'a :: linorder \<Rightarrow> 'a \<Rightarrow> ordering" where
  "cmp a b = (if a < b then Less else if a = b then Equal else Greater)"

definition peer_eq :: "peer_info \<Rightarrow> peer_info \<Rightarrow> bool" where
  "peer_eq a b \<longleftrightarrow> get_key (pi_key a) = get_key (pi_key b)"

text \<open>\<open>PartialOrd\<close> compares in reverse: the greater peer has the smaller key.\<close>

definition peer_partial_cmp :: "peer_info \<Rightarrow> peer_info \<Rightarrow> ordering option" where
  "peer_partial_cmp a b = Some (cmp (get_key (pi_key b)) (get_key (pi_key a)))"

datatype distance_pair = PeerInfoDistancePair (dp_peer: peer_info) (dp_key: key)

definition pair_eq :: "distance_pair \<Rightarrow> distance_pair \<Rightarrow> bool" where
  "pair_eq a b \<longleftrightarrow> peer_eq (dp_peer a) (dp_peer b)"

definition pair_partial_cmp :: "distance_pair \<Rightarrow> distance_pair \<Rightarrow> ordering option" where
  "pair_partial_cmp a b = Some (cmp (dp_key b) (dp_key a))"

definition pair_cmp :: "distance_pair \<Rightarrow> distance_pair \<Rightarrow> ordering" where
  "pair_cmp a b = cmp (dp_key b) (dp_key a)"

lemma cmp_simps [simp]:
  "cmp a b = Less \<longleftrightarrow> a < b"
  "cmp a b = Equal \<longleftrightarrow> a = b"
  "cmp a b = Greater \<longleftrightarrow> b < a"
  by (auto simp: cmp_def)

lemma peer_eq_key: "peer_eq a b \<longleftrightarrow> pi_key a = pi_key b"
  by (auto simp: peer_eq_def get_key_def intro: key.expand)

lemma peer_eq_equiv: "equivp peer_eq"
  by (auto simp: peer_eq_def intro!: equivpI reflpI sympI transpI)

section \<open>Properties\<close>

text \<open>
  \<open>PeerInfo::new\<close> succeeds exactly for ports that fit in 16 bits, with
  the given fields and the socket address of that host and port; larger values of its 32-bit
  port make it panic.
\<close>

theorem peer_info_new_spec:
  "peer_info_new pid k ip port =
     (if unat port < 65536
      then Inr \<lparr>pi_id = pid, pi_key = k, pi_ip = ip, pi_port = port,
                pi_address = SocketAddrV4 ip (word_of_nat (unat port))\<rparr>
      else Inl UnwrapErr)"
  by (simp add: peer_info_new_def parse_format_addr)

text \<open>
  For pairs of a peer with its distance from one key, comparing as
  \<open>Equal\<close> and being equal are the same, the order is total, and the greater pair is the peer
  nearer to that key (the pairs are meant for a heap that pops the nearest peer first).
\<close>

theorem distance_pair_order:
  "let a = PeerInfoDistancePair p (peer_xor p t); b = PeerInfoDistancePair q (peer_xor q t) in
   (pair_cmp a b = Equal \<longleftrightarrow> pair_eq a b) \<and>
   pair_partial_cmp a b = Some (pair_cmp a b) \<and>
   (pair_cmp a b = Greater \<longleftrightarrow> key_val (key_xor (pi_key p) t) < key_val (key_xor (pi_key q) t)) \<and>
   (pair_cmp a b = Less \<longleftrightarrow> pair_cmp b a = Greater)"
  using kx.xor_left_inj [of t "pi_key p" "pi_key q"]
  by (auto simp: Let_def pair_cmp_def pair_partial_cmp_def pair_eq_def peer_eq_key peer_xor_def
      key_less_iff kx.xor_commute [of t])

end
