(* ===== verification/Protocol.thy ===== *)
theory Protocol
  imports Peers
begin

text \<open>
  Messages and packets: \<open>src/protocol/protocol.rs\<close>, the remote procedure calls of
  \<open>src/discovery/protocol.rs\<close> and the gossip message of \<open>src/gossip/protocol.rs\<close>; and the
  environment of the program, the functions of the libraries outside the repository.

  Proved: \<open>packetize\<close> never panics, numbers its packets from 1 to their number, cuts the message
  into consecutive blocks whose concatenation is the message, and bounds their size.
\<close>

section \<open>Data\<close>

type_synonym bytes = "u8 list"

record packet =
  pkt_id :: inner_key
  pkt_n :: nat
  pkt_total_n :: nat
  pkt_bytes :: string
  pkt_ret :: u8

record ack_message =
  ack_packet_id :: inner_key
  ack_packet_number :: nat
  ack_src :: bytes

datatype header = Request | Response | Gossip | Ack

record message =
  head :: header
  msg :: bytes

datatype kad_message = KadRequest bytes | KadResponse bytes | Kill

datatype rpc =
    Ping
  | NewPeer bytes
  | Store inner_key bytes
  | FindNode bytes
  | FindValue bytes
  | Nodes "bytes list"
  | Value bytes
  | Saved inner_key
  | Pong bytes

record req =
  req_id :: inner_key
  req_sender :: bytes
  req_payload :: bytes

record resp =
  resp_request :: bytes
  resp_receiver :: bytes
  resp_payload :: bytes

record gossip_message =
  gm_id :: inner_key
  gm_data :: bytes
  gm_sender :: socket_addr

section \<open>The environment\<close>

text \<open>
  Functions of code that is not in the repository, and readings of the outside world:
  \<^item> the \<open>serde_json\<close> functions of every type with a byte representation;
  \<^item> \<open>hex::encode\<close>, \<open>hex::decode\<close> (None is Err);
  \<^item> the random source: \<open>e_rand t\<close> is the \<open>t\<close>-th random byte, \<open>e_gen_range t n\<close> the value of
    \<open>gen_range(0..n)\<close> at the \<open>t\<close>-th draw; \<open>e_now t\<close> is the clock at its \<open>t\<close>-th reading;
  \<^item> the iteration order of the hash tables, as a rank of their keys.
\<close>

record env =
  e_packet :: "packet serde"
  e_ack :: "ack_message serde"
  e_message :: "message serde"
  e_kad :: "kad_message serde"
  e_req :: "req serde"
  e_resp :: "resp serde"
  e_rpc :: "rpc serde"
  e_peer :: "peer_info serde"
  e_gossip :: "gossip_message serde"
  e_hex_encode :: "bytes \<Rightarrow> string"
  e_hex_decode :: "string \<Rightarrow> bytes option"
  e_rand :: "nat \<Rightarrow> u8"
  e_gen_range :: "nat \<Rightarrow> nat \<Rightarrow> nat"
  e_now :: "nat \<Rightarrow> nat"
  e_ord_key :: "inner_key \<Rightarrow> nat"
  e_ord_n :: "nat \<Rightarrow> nat"
  e_ord_addr :: "socket_addr \<Rightarrow> nat"
  e_ord_prefix :: "string \<Rightarrow> nat"

text \<open>What the program relies on: the byte representations and the hexadecimal text round-trip.\<close>

locale wire =
  fixes E :: env
  assumes packet_ok: "serde_ok (e_packet E)"
    and ack_ok: "serde_ok (e_ack E)"
    and message_ok: "serde_ok (e_message E)"
    and kad_ok: "serde_ok (e_kad E)"
    and req_ok: "serde_ok (e_req E)"
    and resp_ok: "serde_ok (e_resp E)"
    and rpc_ok: "serde_ok (e_rpc E)"
    and peer_ok: "serde_ok (e_peer E)"
    and gossip_ok: "serde_ok (e_gossip E)"
    and hexa_ok: "hex_ok (e_hex_encode E) (e_hex_decode E)"

sublocale wire \<subseteq> packet: codec "as_bytes (e_packet E)" "from_bytes (e_packet E)"
  by (rule serde_codec [OF packet_ok])

sublocale wire \<subseteq> ack: codec "as_bytes (e_ack E)" "from_bytes (e_ack E)"
  by (rule serde_codec [OF ack_ok])

sublocale wire \<subseteq> message: codec "as_bytes (e_message E)" "from_bytes (e_message E)"
  by (rule serde_codec [OF message_ok])

sublocale wire \<subseteq> kad: codec "as_bytes (e_kad E)" "from_bytes (e_kad E)"
  by (rule serde_codec [OF kad_ok])

sublocale wire \<subseteq> req: codec "as_bytes (e_req E)" "from_bytes (e_req E)"
  by (rule serde_codec [OF req_ok])

sublocale wire \<subseteq> resp: codec "as_bytes (e_resp E)" "from_bytes (e_resp E)"
  by (rule serde_codec [OF resp_ok])

sublocale wire \<subseteq> rpc: codec "as_bytes (e_rpc E)" "from_bytes (e_rpc E)"
  by (rule serde_codec [OF rpc_ok])

sublocale wire \<subseteq> peer: codec "as_bytes (e_peer E)" "from_bytes (e_peer E)"
  by (rule serde_codec [OF peer_ok])

sublocale wire \<subseteq> gossip: codec "as_bytes (e_gossip E)" "from_bytes (e_gossip E)"
  by (rule serde_codec [OF gossip_ok])

sublocale wire \<subseteq> hexa: codec "\<lambda>b. Some (e_hex_encode E b)" "e_hex_decode E"
  by (rule hex_codec [OF hexa_ok])

section \<open>Components of requests and responses\<close>

definition req_to_components :: "env \<Rightarrow> req \<Rightarrow> message_key \<times> peer_info option \<times> rpc option" where
  "req_to_components E r =
     (from_inner (req_id r), from_bytes (e_peer E) (req_sender r), from_bytes (e_rpc E) (req_payload r))"

definition resp_to_components :: "env \<Rightarrow> resp \<Rightarrow> req option \<times> peer_info option \<times> rpc option" where
  "resp_to_components E r =
     (from_bytes (e_req E) (resp_request r), from_bytes (e_peer E) (resp_receiver r),
      from_bytes (e_rpc E) (resp_payload r))"

section \<open>Packets of a message\<close>

text \<open>The slices \<open>bytes[start..end]\<close> and \<open>bytes[start..]\<close> panic out of range.\<close>

definition slice :: "'a list \<Rightarrow> nat \<Rightarrow> nat \<Rightarrow> panic + 'a list" where
  "slice xs i j = (if i \<le> j \<and> j \<le> length xs then Inr (take (j - i) (drop i xs)) else Inl SliceOutOfRange)"

definition slice_from :: "'a list \<Rightarrow> nat \<Rightarrow> panic + 'a list" where
  "slice_from xs i = (if i \<le> length xs then Inr (drop i xs) else Inl SliceOutOfRange)"

fun packetize_loop :: "bytes \<Rightarrow> nat \<Rightarrow> nat list \<Rightarrow> nat \<Rightarrow> nat \<Rightarrow> bytes list \<Rightarrow> panic + bytes list" where
  "packetize_loop b n_packets [] start end packets = Inr packets"
| "packetize_loop b n_packets (n # ns) start end packets =
     (if n = n_packets - 1
      then res_bind (slice_from b start) (\<lambda>c.
           packetize_loop b n_packets ns start end (packets @ [c]))
      else res_bind (slice b start end) (\<lambda>c.
           packetize_loop b n_packets ns end (end + 1024) (packets @ [c])))"

definition packetize :: "env \<Rightarrow> bytes \<Rightarrow> inner_key \<Rightarrow> u8 \<Rightarrow> panic + packet list" where
  "packetize E b i r =
     (if length b < 1024
      then Inr [\<lparr>pkt_id = i, pkt_n = 1, pkt_total_n = 1, pkt_bytes = e_hex_encode E b, pkt_ret = r\<rparr>]
      else
        let n_packets = length b div 1024;
            n_packets = (if n_packets mod 1024 \<noteq> 0 then n_packets + 1 else n_packets)
        in res_bind (packetize_loop b n_packets [0..<n_packets] 0 1024 []) (\<lambda>packets.
           Inr (map (\<lambda>(idx, c). \<lparr>pkt_id = i, pkt_n = idx + 1, pkt_total_n = length packets,
                                 pkt_bytes = e_hex_encode E c, pkt_ret = r\<rparr>)
                    (enumerate 0 packets))))"

text \<open>The number of packets, and the packets as a function of the blocks of the message.\<close>

definition packet_count :: "nat \<Rightarrow> nat" where
  "packet_count len =
     (if len < 1024 then 1
      else if len div 1024 mod 1024 \<noteq> 0 then len div 1024 + 1 else len div 1024)"

definition packet_of :: "env \<Rightarrow> inner_key \<Rightarrow> u8 \<Rightarrow> nat \<Rightarrow> nat \<Rightarrow> bytes \<Rightarrow> packet" where
  "packet_of E i r tot n c =
     \<lparr>pkt_id = i, pkt_n = n, pkt_total_n = tot, pkt_bytes = e_hex_encode E c, pkt_ret = r\<rparr>"

definition packets_of :: "env \<Rightarrow> bytes \<Rightarrow> inner_key \<Rightarrow> u8 \<Rightarrow> packet list" where
  "packets_of E b i r =
     (let cs = blocks 1024 (packet_count (length b)) b
      in map2 (packet_of E i r (length cs)) [1..<Suc (length cs)] cs)"

lemma packet_of_sel [simp]:
  "pkt_id (packet_of E i r t n c) = i" "pkt_n (packet_of E i r t n c) = n"
  "pkt_total_n (packet_of E i r t n c) = t" "pkt_ret (packet_of E i r t n c) = r"
  "pkt_bytes (packet_of E i r t n c) = e_hex_encode E c"
  by (simp_all add: packet_of_def)

lemma packet_count_pos [simp]: "0 < packet_count len"
  by (auto simp: packet_count_def)

lemma packet_count_room: "1024 * (packet_count len - 1) \<le> len"
  by (auto simp: packet_count_def)

lemma packetize_loop_blocks:
  assumes "i < n" and "1024 * (n - 1) \<le> length b"
  shows "packetize_loop b n [i..<n] (1024 * i) (1024 * i + 1024) acc =
    Inr (acc @ blocks 1024 (n - i) (drop (1024 * i) b))"
  using assms
proof (induction "n - i" arbitrary: i acc)
  case (Suc m)
  show ?case
  proof (cases "i = n - 1")
    case True
    with Suc.prems have n: "n = Suc i" by simp
    with Suc.prems show ?thesis by (simp add: n slice_from_def)
  next
    case False
    with Suc.prems have i: "Suc i < n" by simp
    then have "1024 * Suc i \<le> 1024 * (n - 1)" by (intro mult_left_mono) simp_all
    with Suc.prems have sl: "slice b (1024 * i) (1024 * i + 1024) = Inr (take 1024 (drop (1024 * i) b))"
      by (simp add: slice_def)
    from i obtain k where bl: "n - Suc i = Suc k" "n - i = Suc (Suc k)"
      by (metis Suc_diff_Suc Suc_lessD)
    have "packetize_loop b n [Suc i..<n] (1024 * Suc i) (1024 * Suc i + 1024) (acc @ [take 1024 (drop (1024 * i) b)])
        = Inr ((acc @ [take 1024 (drop (1024 * i) b)]) @ blocks 1024 (n - Suc i) (drop (1024 * Suc i) b))"
      by (rule Suc.hyps) (use Suc.hyps(2) i Suc.prems in simp_all)
    moreover have "[i..<n] = i # [Suc i..<n]" using Suc.prems by (simp add: upt_conv_Cons)
    ultimately show ?thesis
      using False sl by (simp add: bl add.commute)
  qed
qed simp

lemma packetize_eq: "packetize E b i r = Inr (packets_of E b i r)"
proof (cases "length b < 1024")
  case True
  then show ?thesis by (simp add: packetize_def packets_of_def packet_count_def packet_of_def)
next
  case False
  let ?n = "packet_count (length b)"
  have "packetize_loop b ?n [0..<?n] 0 1024 [] = Inr (blocks 1024 ?n b)"
    using packetize_loop_blocks [of 0 ?n b "[]"] packet_count_room [of "length b"] by simp
  moreover have "enumerate 0 (blocks 1024 ?n b) = zip [0..<?n] (blocks 1024 ?n b)"
    by (simp add: enumerate_eq_zip)
  moreover have "[1..<Suc ?n] = map Suc [0..<?n]" by (simp add: map_Suc_upt)
  moreover have "(if length b div 1024 mod 1024 \<noteq> 0 then length b div 1024 + 1 else length b div 1024) = ?n"
    using False by (simp add: packet_count_def)
  ultimately show ?thesis using False
    unfolding packetize_def packets_of_def Let_def
    by (simp add: packet_of_def zip_map1 comp_def case_prod_unfold)
qed

lemma length_packets_of [simp]: "length (packets_of E b i r) = packet_count (length b)"
  by (simp add: packets_of_def Let_def)

lemma packets_of_nth:
  "j < packet_count (length b) \<Longrightarrow> packets_of E b i r ! j =
     packet_of E i r (packet_count (length b)) (Suc j) (blocks 1024 (packet_count (length b)) b ! j)"
  by (simp add: packets_of_def Let_def del: upt_Suc)

lemma in_packets_of:
  "p \<in> set (packets_of E b i r) \<longleftrightarrow>
     (\<exists>j < packet_count (length b).
        p = packet_of E i r (packet_count (length b)) (Suc j) (blocks 1024 (packet_count (length b)) b ! j))"
  by (auto simp: in_set_conv_nth packets_of_nth)

lemma packets_of_small: "length b < 1024 \<Longrightarrow> packets_of E b i r = [packet_of E i r 1 1 b]"
  by (simp add: packets_of_def packet_count_def Let_def)

section \<open>Properties\<close>

text \<open>
  C32: \<open>packetize\<close> never panics (every slice it takes is in range). Its packets
  share the id and the return-receipt flag, are numbered from 1 to their number, all carry that
  number, and their contents are the hexadecimal texts of blocks of the message that
  concatenate to the message.
\<close>

theorem packetize_blocks:
  "\<exists>cs. packetize E b i r =
       Inr (map2 (\<lambda>n c. \<lparr>pkt_id = i, pkt_n = n, pkt_total_n = length cs,
                          pkt_bytes = e_hex_encode E c, pkt_ret = r\<rparr>)
                 [1..<length cs + 1] cs) \<and>
     cs \<noteq> [] \<and> concat cs = b"
proof -
  let ?cs = "blocks 1024 (packet_count (length b)) b"
  have "?cs \<noteq> []" by (metis length_blocks list.size(3) packet_count_pos less_irrefl)
  moreover have "concat ?cs = b" by (rule concat_blocks) simp
  ultimately show ?thesis
    by (intro exI [of _ ?cs]) (simp add: packetize_eq packets_of_def packet_of_def)
qed

text \<open>
  No packet carries more than 1024 bytes of the message, except that the last
  one carries up to 2047 when the number of whole kilobytes is a multiple of 1024 (the rounding
  test of \<open>packetize\<close> looks at that number instead of the length).
\<close>

theorem packetize_size:
  "\<exists>cs. packetize E b i r = Inr (map2 (packet_of E i r (length cs)) [1..<length cs + 1] cs) \<and>
     concat cs = b \<and>
     list_all (\<lambda>c. length c \<le> (if length b div 1024 mod 1024 = 0 then 2047 else 1024)) cs"
proof -
  let ?n = "packet_count (length b)"
  let ?r = "if length b div 1024 mod 1024 = 0 then 1023 else 0 :: nat"
  have "length b \<le> 1024 * ?n + ?r"
    by (auto simp: packet_count_def)
  then have "length c \<le> 1024 + ?r" if "c \<in> set (blocks 1024 ?n b)" for c
    using blocks_bound [OF that] by blast
  then have "list_all (\<lambda>c. length c \<le> (if length b div 1024 mod 1024 = 0 then 2047 else 1024)) (blocks 1024 ?n b)"
    by (auto simp: list_all_iff)
  moreover have "concat (blocks 1024 ?n b) = b" by (rule concat_blocks) simp
  ultimately show ?thesis
    by (intro exI [of _ "blocks 1024 ?n b"]) (simp add: packetize_eq packets_of_def)
qed

text \<open>
  A message of exactly one kilobyte is sent as two packets, the second
  one empty, because the rounding test looks at the number of kilobytes instead of the length.
\<close>

theorem packetize_empty_packet:
  "packetize E (replicate 1024 x) i r =
     Inr [packet_of E i r 2 1 (replicate 1024 x), packet_of E i r 2 2 []]"
proof -
  have "packet_count 1024 = Suc (Suc 0)" by (simp add: packet_count_def)
  moreover have "blocks 1024 (Suc (Suc 0)) (replicate 1024 x) = [replicate 1024 x, []]" by simp
  moreover have "[1..<Suc 2] = [1, 2]" by (simp add: numeral_2_eq_2)
  ultimately show ?thesis
    by (simp add: packetize_eq packets_of_def Let_def numeral_2_eq_2)
qed

end
