(* ===== verification/Reference.thy ===== *)
theory Reference
  imports Protocol
begin

text \<open>
  A concrete environment. \<open>serde_json\<close> and \<open>hex\<close> are not part of the repository, and the theorems
  about the program hold for every environment that meets the contract \<open>wire\<close>. This theory
  builds one: a length-prefixed byte encoding of every type and the lower-case hexadecimal text
  of a byte sequence. It shows that the contract can be met, and the concrete instances of the
  theorems are stated over it.
\<close>

section \<open>Prefix codes\<close>

record 'a pcode =
  pe :: "'a \<Rightarrow> bytes"
  pd :: "bytes \<Rightarrow> ('a \<times> bytes) option"

definition pc_ok :: "'a pcode \<Rightarrow> bool" where
  "pc_ok c \<longleftrightarrow> (\<forall>x r. pd c (pe c x @ r) = Some (x, r))"

lemma pc_okD [simp]: "pc_ok c \<Longrightarrow> pd c (pe c x @ r) = Some (x, r)"
  by (simp add: pc_ok_def)

definition pc_byte :: "u8 pcode" where
  "pc_byte = \<lparr>pe = (\<lambda>b. [b]), pd = (\<lambda>v. case v of [] \<Rightarrow> None | b # r \<Rightarrow> Some (b, r))\<rparr>"

fun nat_enc :: "nat \<Rightarrow> bytes" where
  "nat_enc n = (if n < 255 then [word_of_nat n] else 255 # nat_enc (n - 255))"

fun nat_dec :: "bytes \<Rightarrow> (nat \<times> bytes) option" where
  "nat_dec [] = None"
| "nat_dec (b # r) =
     (if b = 255 then map_option (\<lambda>(n, r). (n + 255, r)) (nat_dec r) else Some (unat b, r))"

declare nat_enc.simps [simp del]

definition pc_nat :: "nat pcode" where
  "pc_nat = \<lparr>pe = nat_enc, pd = nat_dec\<rparr>"

definition pc_map :: "('a \<Rightarrow> 'b) \<Rightarrow> ('b \<Rightarrow> 'a) \<Rightarrow> 'b pcode \<Rightarrow> 'a pcode" where
  "pc_map f g c = \<lparr>pe = (\<lambda>x. pe c (f x)), pd = (\<lambda>v. map_option (\<lambda>(y, r). (g y, r)) (pd c v))\<rparr>"

definition pc_pair :: "'a pcode \<Rightarrow> 'b pcode \<Rightarrow> ('a \<times> 'b) pcode" where
  "pc_pair c d = \<lparr>pe = (\<lambda>(x, y). pe c x @ pe d y),
     pd = (\<lambda>v. case pd c v of None \<Rightarrow> None
       | Some (x, r) \<Rightarrow> map_option (\<lambda>(y, r). ((x, y), r)) (pd d r))\<rparr>"

fun many_dec :: "'a pcode \<Rightarrow> nat \<Rightarrow> bytes \<Rightarrow> ('a list \<times> bytes) option" where
  "many_dec c 0 v = Some ([], v)"
| "many_dec c (Suc n) v = (case pd c v of None \<Rightarrow> None
     | Some (x, r) \<Rightarrow> map_option (\<lambda>(xs, r). (x # xs, r)) (many_dec c n r))"

definition pc_list :: "'a pcode \<Rightarrow> 'a list pcode" where
  "pc_list c = \<lparr>pe = (\<lambda>xs. nat_enc (length xs) @ concat (map (pe c) xs)),
     pd = (\<lambda>v. case nat_dec v of None \<Rightarrow> None | Some (n, r) \<Rightarrow> many_dec c n r)\<rparr>"

definition pc_tag :: "u8 \<Rightarrow> 'a pcode \<Rightarrow> 'a pcode" where
  "pc_tag t c = \<lparr>pe = (\<lambda>x. t # pe c x),
     pd = (\<lambda>v. case v of [] \<Rightarrow> None | b # r \<Rightarrow> if b = t then pd c r else None)\<rparr>"

lemma nat_dec_enc: "nat_dec (nat_enc n @ r) = Some (n, r)"
proof (induction n rule: nat_enc.induct)
  case (1 n)
  show ?case
  proof (cases "n < 255")
    case True
    then have u: "unat (word_of_nat n :: u8) = n"
      by (simp add: unat_of_nat take_bit_nat_eq_self)
    with True have "(word_of_nat n :: u8) \<noteq> 255" by auto
    with True u show ?thesis by (simp add: nat_enc.simps [of n])
  next
    case False
    with 1 show ?thesis by (simp add: nat_enc.simps [of n])
  qed
qed

lemma pc_ok_byte [intro]: "pc_ok pc_byte"
  by (simp add: pc_ok_def pc_byte_def)

lemma pc_ok_nat [intro]: "pc_ok pc_nat"
  by (simp add: pc_ok_def pc_nat_def nat_dec_enc)

lemma pc_ok_map [intro]: "pc_ok c \<Longrightarrow> (\<And>x. g (f x) = x) \<Longrightarrow> pc_ok (pc_map f g c)"
  by (simp add: pc_ok_def pc_map_def)

lemma pc_ok_pair [intro]: "pc_ok c \<Longrightarrow> pc_ok d \<Longrightarrow> pc_ok (pc_pair c d)"
  by (simp add: pc_ok_def pc_pair_def)

lemma many_dec_enc: "pc_ok c \<Longrightarrow> many_dec c (length xs) (concat (map (pe c) xs) @ r) = Some (xs, r)"
  by (induction xs) simp_all

lemma pc_ok_list [intro]: "pc_ok c \<Longrightarrow> pc_ok (pc_list c)"
  by (simp add: pc_ok_def pc_list_def nat_dec_enc many_dec_enc [unfolded pc_ok_def])

lemma pc_ok_tag [intro]: "pc_ok c \<Longrightarrow> pc_ok (pc_tag t c)"
  by (simp add: pc_ok_def pc_tag_def)

definition pc_serde :: "'a pcode \<Rightarrow> 'a serde" where
  "pc_serde c = \<lparr>sd_to_string = (\<lambda>x. Some (bytes_str (pe c x))),
     sd_from_slice = (\<lambda>v. case pd c v of Some (x, []) \<Rightarrow> Some x | _ \<Rightarrow> None)\<rparr>"

lemma pc_serde_ok: "pc_ok c \<Longrightarrow> serde_ok (pc_serde c)"
  using pc_okD [of c _ "[]"] by (simp add: serde_ok_def pc_serde_def)

section \<open>Codes of the program's types\<close>

abbreviation pc_bytes :: "bytes pcode" where
  "pc_bytes \<equiv> pc_list pc_byte"

definition pc_string :: "string pcode" where
  "pc_string = pc_map str_bytes bytes_str pc_bytes"

definition pc_arr :: "arr32 pcode" where
  "pc_arr = pc_map arr_list arr_of pc_bytes"

definition pc_ip :: "ipv4 pcode" where
  "pc_ip = pc_map (\<lambda>ip. case ip of Ipv4 a b c d \<Rightarrow> (a, b, c, d)) (\<lambda>(a, b, c, d). Ipv4 a b c d)
     (pc_pair pc_byte (pc_pair pc_byte (pc_pair pc_byte pc_byte)))"

definition pc_addr :: "socket_addr pcode" where
  "pc_addr = pc_map (\<lambda>a. (addr_ip a, unat (addr_port a))) (\<lambda>(ip, n). SocketAddrV4 ip (word_of_nat n))
     (pc_pair pc_ip pc_nat)"

definition pc_packet :: "packet pcode" where
  "pc_packet = pc_map (\<lambda>p. (pkt_id p, pkt_n p, pkt_total_n p, pkt_bytes p, pkt_ret p))
     (\<lambda>(i, n, t, b, r). \<lparr>pkt_id = i, pkt_n = n, pkt_total_n = t, pkt_bytes = b, pkt_ret = r\<rparr>)
     (pc_pair pc_arr (pc_pair pc_nat (pc_pair pc_nat (pc_pair pc_string pc_byte))))"

definition pc_ack :: "ack_message pcode" where
  "pc_ack = pc_map (\<lambda>a. (ack_packet_id a, ack_packet_number a, ack_src a))
     (\<lambda>(i, n, s). \<lparr>ack_packet_id = i, ack_packet_number = n, ack_src = s\<rparr>)
     (pc_pair pc_arr (pc_pair pc_nat pc_bytes))"

fun header_code :: "header \<Rightarrow> u8" where
  "header_code Request = 0"
| "header_code Response = 1"
| "header_code Gossip = 2"
| "header_code Ack = 3"

definition code_header :: "u8 \<Rightarrow> header" where
  "code_header b = (if b = 0 then Request else if b = 1 then Response else if b = 2 then Gossip else Ack)"

definition pc_message :: "message pcode" where
  "pc_message = pc_map (\<lambda>m. (header_code (head m), msg m))
     (\<lambda>(h, b). \<lparr>head = code_header h, msg = b\<rparr>) (pc_pair pc_byte pc_bytes)"

fun kad_code :: "kad_message \<Rightarrow> nat \<times> bytes" where
  "kad_code (KadRequest b) = (0, b)"
| "kad_code (KadResponse b) = (1, b)"
| "kad_code Kill = (2, [])"

definition code_kad :: "nat \<times> bytes \<Rightarrow> kad_message" where
  "code_kad p = (if fst p = 0 then KadRequest (snd p) else if fst p = 1 then KadResponse (snd p) else Kill)"

fun rpc_code :: "rpc \<Rightarrow> nat \<times> arr32 \<times> bytes list" where
  "rpc_code Ping = (0, arr_of [], [])"
| "rpc_code (NewPeer p) = (1, arr_of [], [p])"
| "rpc_code (Store k v) = (2, k, [v])"
| "rpc_code (FindNode p) = (3, arr_of [], [p])"
| "rpc_code (FindValue v) = (4, arr_of [], [v])"
| "rpc_code (Nodes ns) = (5, arr_of [], ns)"
| "rpc_code (Value v) = (6, arr_of [], [v])"
| "rpc_code (Saved k) = (7, k, [])"
| "rpc_code (Pong p) = (8, arr_of [], [p])"

definition code_rpc :: "nat \<times> arr32 \<times> bytes list \<Rightarrow> rpc" where
  "code_rpc p = (case p of (t, k, ns) \<Rightarrow>
     if t = 0 then Ping else if t = 1 then NewPeer (concat ns) else if t = 2 then Store k (concat ns)
     else if t = 3 then FindNode (concat ns) else if t = 4 then FindValue (concat ns)
     else if t = 5 then Nodes ns else if t = 6 then Value (concat ns)
     else if t = 7 then Saved k else Pong (concat ns))"

definition pc_peer :: "peer_info pcode" where
  "pc_peer = pc_map (\<lambda>p. (peer_id_str (pi_id p), key_arr (pi_key p), pi_ip p, unat (pi_port p), pi_address p))
     (\<lambda>(i, k, ip, n, a). \<lparr>pi_id = PeerId i, pi_key = Key k, pi_ip = ip, pi_port = word_of_nat n, pi_address = a\<rparr>)
     (pc_pair pc_string (pc_pair pc_arr (pc_pair pc_ip (pc_pair pc_nat pc_addr))))"

definition pc_gossip :: "gossip_message pcode" where
  "pc_gossip = pc_map (\<lambda>g. (gm_id g, gm_data g, gm_sender g))
     (\<lambda>(i, d, s). \<lparr>gm_id = i, gm_data = d, gm_sender = s\<rparr>) (pc_pair pc_arr (pc_pair pc_bytes pc_addr))"

definition pc_req :: "req pcode" where
  "pc_req = pc_tag 1 (pc_map (\<lambda>r. (req_id r, req_sender r, req_payload r))
     (\<lambda>(i, s, p). \<lparr>req_id = i, req_sender = s, req_payload = p\<rparr>)
     (pc_pair pc_arr (pc_pair pc_bytes pc_bytes)))"

definition pc_resp :: "resp pcode" where
  "pc_resp = pc_tag 2 (pc_map (\<lambda>r. (resp_request r, resp_receiver r, resp_payload r))
     (\<lambda>(i, s, p). \<lparr>resp_request = i, resp_receiver = s, resp_payload = p\<rparr>)
     (pc_pair pc_bytes (pc_pair pc_bytes pc_bytes)))"

section \<open>Hexadecimal text\<close>

definition hex_digit :: "nat \<Rightarrow> char" where
  "hex_digit n = (if n < 10 then char_of (48 + n) else char_of (87 + n))"

definition digit_hex :: "char \<Rightarrow> nat option" where
  "digit_hex c = (let n = of_char c in
     if 48 \<le> n \<and> n \<le> 57 then Some (n - 48)
     else if 97 \<le> n \<and> n \<le> 102 then Some (n - 87)
     else if 65 \<le> n \<and> n \<le> 70 then Some (n - 55) else None)"

definition ref_hex_encode :: "bytes \<Rightarrow> string" where
  "ref_hex_encode b = concat (map (\<lambda>x. [hex_digit (unat x div 16), hex_digit (unat x mod 16)]) b)"

fun ref_hex_decode :: "string \<Rightarrow> bytes option" where
  "ref_hex_decode [] = Some []"
| "ref_hex_decode [c] = None"
| "ref_hex_decode (c # d # s) = (case (digit_hex c, digit_hex d, ref_hex_decode s) of
     (Some h, Some l, Some r) \<Rightarrow> Some (word_of_nat (16 * h + l) # r) | _ \<Rightarrow> None)"

lemma digit_hex_digit: "n < 16 \<Longrightarrow> digit_hex (hex_digit n) = Some n"
  by (auto simp: digit_hex_def hex_digit_def Let_def of_char_of)

lemma ref_hex_ok: "hex_ok ref_hex_encode ref_hex_decode"
proof -
  have "ref_hex_decode (ref_hex_encode b) = Some b" for b
  proof (induction b)
    case (Cons x b)
    have "unat x div 16 < 16" using unat_u8_less [of x] by (simp add: div_less_iff_less_mult)
    with Cons show ?case by (simp add: ref_hex_encode_def digit_hex_digit)
  qed (simp add: ref_hex_encode_def)
  then show ?thesis by (simp add: hex_ok_def)
qed

section \<open>The environment\<close>

definition ref_env :: env where
  "ref_env = \<lparr>
     e_packet = pc_serde pc_packet, e_ack = pc_serde pc_ack, e_message = pc_serde pc_message,
     e_kad = pc_serde (pc_map kad_code code_kad (pc_pair pc_nat pc_bytes)),
     e_req = pc_serde pc_req, e_resp = pc_serde pc_resp,
     e_rpc = pc_serde (pc_map rpc_code code_rpc (pc_pair pc_nat (pc_pair pc_arr (pc_list pc_bytes)))),
     e_peer = pc_serde pc_peer, e_gossip = pc_serde pc_gossip,
     e_hex_encode = ref_hex_encode, e_hex_decode = ref_hex_decode,
     e_rand = word_of_nat, e_gen_range = (\<lambda>t n. t mod n), e_now = (\<lambda>t. t),
     e_ord_key = (\<lambda>_. 0), e_ord_n = (\<lambda>n. n), e_ord_addr = (\<lambda>_. 0), e_ord_prefix = length\<rparr>"

lemma pc_oks [intro]:
  "pc_ok pc_string" "pc_ok pc_arr" "pc_ok pc_ip"
  unfolding pc_string_def pc_arr_def pc_ip_def
  by ((rule pc_ok_map pc_ok_list pc_ok_pair pc_ok_byte)+; simp split: ipv4.split)+

lemma pc_ok_addr [intro]: "pc_ok pc_addr"
  unfolding pc_addr_def by (rule pc_ok_map) auto

lemma header_code [simp]: "code_header (header_code h) = h"
  by (cases h) (simp_all add: code_header_def)

lemma kad_code [simp]: "code_kad (kad_code m) = m"
  by (cases m) (simp_all add: code_kad_def)

lemma rpc_code [simp]: "code_rpc (rpc_code m) = m"
  by (cases m) (simp_all add: code_rpc_def)

lemmas pc_ok_intros =
  pc_ok_map pc_ok_pair pc_ok_list pc_ok_tag pc_ok_byte pc_ok_nat pc_oks pc_ok_addr

interpretation ref: wire ref_env
  by unfold_locales
    (auto simp: ref_env_def ref_hex_ok pc_packet_def pc_ack_def pc_message_def pc_peer_def
      pc_gossip_def pc_req_def pc_resp_def intro!: pc_serde_ok pc_ok_intros)

end
