(* ===== verification/Gd_Udp.thy ===== *)
theory Gd_Udp
  imports Reference
begin

text \<open>
  The reliable-delivery layer over UDP (\<open>src/gd_udp/gd_udp.rs\<close>): the outbox of packets that ask
  for a return receipt, the recording of sends and acknowledgements, and the periodic resending.
  The socket is the list of the datagrams it sent, with the outcomes of the system calls as its
  other fields.

  Proved: the outbox as a flat map from (message id, packet number) to entries, with the effect
  of every operation on it; its invariant; what one maintenance resends, keeps and drops; that a
  packet whose receipts stay out is dropped within ten maintenances, and that it is transmitted
  exactly ten times.
\<close>

section \<open>State\<close>

definition MAINTENANCE :: nat where
  "MAINTENANCE = 300000000"

definition RETURN_RECEIPT :: u8 where
  "RETURN_RECEIPT = 1"

definition NO_RETURN_RECEIPT :: u8 where
  "NO_RETURN_RECEIPT = 0"

text \<open>Destinations, acknowledgements, the packet, attempts.\<close>

type_synonym entry = "socket_addr hset \<times> socket_addr hset \<times> packet \<times> nat"
type_synonym outbox = "(inner_key, (nat, entry) hmap) hmap"

record gd_udp =
  gd_addr :: socket_addr
  gd_message_cache :: "inner_key hset"
  gd_outbox :: outbox
  gd_timer :: nat
  gd_log :: string

record sock =
  sk_sent :: "(bytes \<times> socket_addr) list"
  sk_ttl_ok :: bool
  sk_clone_ok :: bool
  sk_send_ok :: "bytes \<Rightarrow> socket_addr \<Rightarrow> bool"

type_synonym gds = "gd_udp \<times> sock"

definition gd_udp_new :: "socket_addr \<Rightarrow> nat \<Rightarrow> gd_udp" where
  "gd_udp_new addr now = \<lparr>gd_addr = addr, gd_message_cache = [], gd_outbox = [], gd_timer = now,
     gd_log = ''log.log''\<rparr>"

section \<open>Sending\<close>

text \<open>\<open>sock.send_to(bytes, peer)\<close>, whose error is only logged.\<close>

definition sock_send :: "bytes \<Rightarrow> socket_addr \<Rightarrow> sock \<Rightarrow> sock" where
  "sock_send b a sk = (if sk_send_ok sk b a then sk\<lparr>sk_sent := sk_sent sk @ [(b, a)]\<rparr> else sk)"

definition record_send :: "socket_addr \<Rightarrow> packet \<Rightarrow> outbox \<Rightarrow> outbox" where
  "record_send peer packet ob =
     (case hm_get ob (pkt_id packet) of
        Some m \<Rightarrow>
          (case hm_get m (pkt_n packet) of
             Some (sent_set, ack_set, p, attempts) \<Rightarrow>
               hm_insert (pkt_id packet)
                 (hm_insert (pkt_n packet) (hs_insert peer sent_set, ack_set, p, attempts + 1) m) ob
           | None \<Rightarrow>
               hm_insert (pkt_id packet)
                 (hm_insert (pkt_n packet) (hs_insert peer [], [], packet, 1) m) ob)
      | None \<Rightarrow>
          hm_insert (pkt_id packet)
            (hm_insert (pkt_n packet) (hs_insert peer [], [], packet, 1) []) ob)"

definition send_reliable :: "env \<Rightarrow> socket_addr \<Rightarrow> packet \<Rightarrow> (gds, unit) act" where
  "send_reliable E peer packet =
     act_then (act_modify (\<lambda>(g, sk). (g\<lparr>gd_outbox := record_send peer packet (gd_outbox g)\<rparr>, sk)))
    (act_bind (act_get (\<lambda>(g, sk). sk_ttl_ok sk)) (\<lambda>ttl_ok.
       if ttl_ok
       then case as_bytes (e_packet E) packet of
              Some b \<Rightarrow> act_modify (\<lambda>(g, sk). (g, sock_send b peer sk))
            | None \<Rightarrow> act_ret ()
       else act_panic UnwrapErr))"

text \<open>\<open>GDUdp::ack\<close> sends packets without recording them and insists that each send succeeds.\<close>

definition gd_ack :: "env \<Rightarrow> socket_addr \<Rightarrow> packet list \<Rightarrow> (gds, unit) act" where
  "gd_ack E peer packets = act_each packets (\<lambda>packet.
     case as_bytes (e_packet E) packet of
       Some b \<Rightarrow> act_bind (act_get (\<lambda>(g, sk). sk_send_ok sk b peer)) (\<lambda>ok.
         if ok then act_modify (\<lambda>(g, sk). (g, sock_send b peer sk)) else act_panic UnwrapErr)
     | None \<Rightarrow> act_ret ())"

section \<open>Acknowledgements\<close>

definition record_ack :: "inner_key \<Rightarrow> nat \<Rightarrow> socket_addr \<Rightarrow> outbox \<Rightarrow> outbox" where
  "record_ack i n src ob =
     (case hm_get ob i of
        Some m \<Rightarrow>
          (case hm_get m n of
             Some (sent_set, ack_set, p, attempts) \<Rightarrow>
               hm_insert i (hm_insert n (sent_set, hs_insert src ack_set, p, attempts) m) ob
           | None \<Rightarrow> ob)
      | None \<Rightarrow> ob)"

definition process_ack :: "inner_key \<Rightarrow> nat \<Rightarrow> bytes \<Rightarrow> (gd_udp, unit) act" where
  "process_ack i n src =
     (case parse_addr (bytes_str src) of
        None \<Rightarrow> act_panic UnwrapErr
      | Some a \<Rightarrow> act_modify (\<lambda>g. g\<lparr>gd_outbox := record_ack i n a (gd_outbox g)\<rparr>))"

section \<open>Maintenance\<close>

definition keep_entry :: "entry \<Rightarrow> bool" where
  "keep_entry = (\<lambda>(sent_set, ack_set, p, attempts). \<not> hs_eq sent_set ack_set \<and> attempts < 10)"

definition retain_outbox :: "outbox \<Rightarrow> outbox" where
  "retain_outbox ob =
     hm_retain (\<lambda>_ m. m \<noteq> []) (map (\<lambda>(i, m). (i, hm_retain (\<lambda>_. keep_entry) m)) ob)"

definition maintain :: "env \<Rightarrow> (gds, unit) act" where
  "maintain E =
     act_then (act_modify (\<lambda>(g, sk). (g\<lparr>gd_outbox := retain_outbox (gd_outbox g)\<rparr>, sk)))
    (act_bind (act_get (\<lambda>(g, sk). gd_outbox g)) (\<lambda>outbox.
     act_each (hm_iter (e_ord_key E) outbox) (\<lambda>(_, m).
     act_each (hm_iter (e_ord_n E) m) (\<lambda>(_, sent_set, ack_set, packet, attempts).
       if attempts < 10
       then act_each (hs_iter (e_ord_addr E) (hs_difference sent_set ack_set))
              (\<lambda>peer. send_reliable E peer packet)
       else act_ret ()))))"

text \<open>\<open>now\<close> and \<open>now'\<close> are the two readings of the clock.\<close>

definition gd_check_time_elapsed :: "env \<Rightarrow> nat \<Rightarrow> nat \<Rightarrow> (gds, unit) act" where
  "gd_check_time_elapsed E now now' =
     act_bind (act_get (\<lambda>(g, sk). (now - gd_timer g, sk_clone_ok sk))) (\<lambda>(time_elapsed, clone_ok).
       if \<not> clone_ok then act_panic UnwrapErr
       else if MAINTENANCE \<le> time_elapsed
       then act_then (maintain E) (act_modify (\<lambda>(g, sk). (g\<lparr>gd_timer := now'\<rparr>, sk)))
       else act_ret ())"

section \<open>The outbox as a flat map\<close>

definition ob_get :: "outbox \<Rightarrow> inner_key \<Rightarrow> nat \<Rightarrow> entry option" where
  "ob_get ob i n = (case hm_get ob i of None \<Rightarrow> None | Some m \<Rightarrow> hm_get m n)"

text \<open>
  The invariant: keys are unique, no entry is filed under another packet's key, the sets have no
  duplicates, every entry has a destination and at least one attempt.
\<close>

definition entry_ok :: "inner_key \<Rightarrow> nat \<Rightarrow> entry \<Rightarrow> bool" where
  "entry_ok i n = (\<lambda>(sent_set, ack_set, p, attempts).
     pkt_id p = i \<and> pkt_n p = n \<and> distinct sent_set \<and> distinct ack_set \<and> sent_set \<noteq> [] \<and> 1 \<le> attempts)"

definition ob_ok :: "outbox \<Rightarrow> bool" where
  "ob_ok ob \<longleftrightarrow> hm_wf ob \<and> (\<forall>i m. hm_get ob i = Some m \<longrightarrow> hm_wf m) \<and>
     (\<forall>i n e. ob_get ob i n = Some e \<longrightarrow> entry_ok i n e)"

lemma ob_get_Nil [simp]: "ob_get [] i n = None"
  by (simp add: ob_get_def)

lemma ob_ok_Nil [simp]: "ob_ok []"
  by (simp add: ob_ok_def)

lemma ob_get_insert:
  "ob_get (hm_insert i m ob) j n = (if j = i then hm_get m n else ob_get ob j n)"
  by (simp add: ob_get_def hm_get_insert)

definition sent_entry :: "socket_addr \<Rightarrow> packet \<Rightarrow> entry option \<Rightarrow> entry" where
  "sent_entry peer packet x =
     (case x of None \<Rightarrow> ([peer], [], packet, 1)
      | Some (s, k, p, t) \<Rightarrow> (hs_insert peer s, k, p, t + 1))"

lemma ob_get_record_send:
  "ob_get (record_send peer p ob) i n =
     (if i = pkt_id p \<and> n = pkt_n p then Some (sent_entry peer p (ob_get ob i n)) else ob_get ob i n)"
  by (auto simp: record_send_def ob_get_insert hm_get_insert sent_entry_def hs_insert_def
      ob_get_def split: option.splits)

lemma ob_get_record_ack:
  "ob_get (record_ack i n src ob) j m =
     (if j = i \<and> m = n then map_option (\<lambda>(s, k, p, t). (s, hs_insert src k, p, t)) (ob_get ob j m)
      else ob_get ob j m)"
  by (auto simp: record_ack_def ob_get_def hm_get_insert split: option.splits)

lemma ob_okI:
  "hm_wf ob \<Longrightarrow> (\<And>i m. hm_get ob i = Some m \<Longrightarrow> hm_wf m) \<Longrightarrow>
   (\<And>i n e. ob_get ob i n = Some e \<Longrightarrow> entry_ok i n e) \<Longrightarrow> ob_ok ob"
  by (simp add: ob_ok_def)

lemma ob_ok_entry: "ob_ok ob \<Longrightarrow> ob_get ob i n = Some e \<Longrightarrow> entry_ok i n e"
  unfolding ob_ok_def by blast

lemma ob_ok_inner: "ob_ok ob \<Longrightarrow> hm_get ob i = Some m \<Longrightarrow> hm_wf m"
  by (simp add: ob_ok_def)

lemma ob_ok_record_send:
  assumes "ob_ok ob"
  shows "ob_ok (record_send peer p ob)"
proof (rule ob_okI)
  show "hm_wf (record_send peer p ob)"
    using assms by (auto simp: ob_ok_def record_send_def split: option.splits)
  show "hm_wf m" if "hm_get (record_send peer p ob) i = Some m" for i m
    using that assms
    by (auto simp: ob_ok_def record_send_def hm_get_insert split: option.splits if_splits)
  show "entry_ok i n e" if "ob_get (record_send peer p ob) i n = Some e" for i n e
    using that ob_ok_entry [OF assms, of i n]
    by (auto simp: ob_get_record_send sent_entry_def entry_ok_def hs_insert_def
        split: if_splits option.splits)
qed

lemma ob_ok_record_ack:
  assumes "ob_ok ob"
  shows "ob_ok (record_ack i n src ob)"
proof (rule ob_okI)
  show "hm_wf (record_ack i n src ob)"
    using assms by (auto simp: ob_ok_def record_ack_def split: option.splits)
  show "hm_wf m" if "hm_get (record_ack i n src ob) j = Some m" for j m
    using that assms
    by (auto simp: ob_ok_def record_ack_def hm_get_insert split: option.splits if_splits)
  show "entry_ok j m e" if "ob_get (record_ack i n src ob) j m = Some e" for j m e
    using that ob_ok_entry [OF assms, of j m]
    by (auto simp: ob_get_record_ack entry_ok_def split: if_splits)
qed

section \<open>What a maintenance does\<close>

lemma hm_get_map: "hm_get (map (\<lambda>(i, m). (i, f m)) ob) i = map_option f (hm_get ob i)"
  by (simp add: hm_get_def map_of_map)

lemma hm_wf_map: "hm_wf (map (\<lambda>(i, m). (i, f m)) ob) = hm_wf ob"
  by (simp add: hm_wf_def comp_def case_prod_unfold)

lemma ob_get_retain:
  assumes "ob_ok ob"
  shows "ob_get (retain_outbox ob) i n =
    (case ob_get ob i n of None \<Rightarrow> None | Some e \<Rightarrow> if keep_entry e then Some e else None)"
proof -
  have wf: "hm_wf (map (\<lambda>(i, m). (i, hm_retain (\<lambda>_. keep_entry) m)) ob)"
    using assms by (simp add: hm_wf_map ob_ok_def)
  show ?thesis
  proof (cases "hm_get ob i")
    case None
    with wf show ?thesis by (simp add: ob_get_def retain_outbox_def hm.get_retain hm_get_map)
  next
    case (Some m)
    with assms have "hm_wf m" by (simp add: ob_ok_inner)
    with wf Some show ?thesis
      using hm.get_retain [of m "\<lambda>_. keep_entry" n]
      by (auto simp: ob_get_def retain_outbox_def hm.get_retain [OF wf] hm_get_map split: option.splits)
  qed
qed

lemma ob_ok_retain:
  assumes "ob_ok ob"
  shows "ob_ok (retain_outbox ob)"
proof (rule ob_okI)
  have wf: "hm_wf (map (\<lambda>(i, m). (i, hm_retain (\<lambda>_. keep_entry) m)) ob)"
    using assms by (simp add: hm_wf_map ob_ok_def)
  then show "hm_wf (retain_outbox ob)" by (simp add: retain_outbox_def hm_wf_retain)
  show "hm_wf m" if "hm_get (retain_outbox ob) i = Some m" for i m
    using that ob_ok_inner [OF assms]
    by (auto simp: retain_outbox_def hm.get_retain [OF wf] hm_get_map hm_wf_retain
        split: option.splits if_splits)
  show "entry_ok i n e" if "ob_get (retain_outbox ob) i n = Some e" for i n e
    using that ob_ok_entry [OF assms, of i n e]
    by (auto simp: ob_get_retain [OF assms] split: option.splits if_splits)
qed

text \<open>The datagrams a maintenance sends, as pairs of destination and packet, in order.\<close>

definition entry_resends :: "env \<Rightarrow> entry \<Rightarrow> (socket_addr \<times> packet) list" where
  "entry_resends E = (\<lambda>(s, k, p, t).
     if t < 10 then map (\<lambda>a. (a, p)) (hs_iter (e_ord_addr E) (hs_difference s k)) else [])"

definition resends :: "env \<Rightarrow> outbox \<Rightarrow> (socket_addr \<times> packet) list" where
  "resends E ob = concat (map (\<lambda>(_, m). concat (map (\<lambda>(_, e). entry_resends E e)
     (hm_iter (e_ord_n E) m))) (hm_iter (e_ord_key E) ob))"

lemma act_each_resends:
  "act_each (hm_iter (e_ord_key E) ob) (\<lambda>(_, m).
     act_each (hm_iter (e_ord_n E) m) (\<lambda>(_, sent_set, ack_set, packet, attempts).
       if attempts < 10
       then act_each (hs_iter (e_ord_addr E) (hs_difference sent_set ack_set))
              (\<lambda>peer. send_reliable E peer packet)
       else act_ret ())) =
   act_each (resends E ob) (\<lambda>(peer, packet). send_reliable E peer packet)"
  by (simp add: resends_def act_each_concat act_each_map entry_resends_def case_prod_unfold if_distrib
      cong: if_cong) (intro act_each_cong, auto simp: act_each_map)

text \<open>One send, when the system calls of the socket succeed.\<close>

definition datagram :: "env \<Rightarrow> socket_addr \<times> packet \<Rightarrow> sock \<Rightarrow> sock" where
  "datagram E = (\<lambda>(a, p) sk. case as_bytes (e_packet E) p of None \<Rightarrow> sk | Some b \<Rightarrow> sock_send b a sk)"

definition send_state :: "env \<Rightarrow> socket_addr \<times> packet \<Rightarrow> gds \<Rightarrow> gds" where
  "send_state E x = (\<lambda>(g, sk). (g\<lparr>gd_outbox := record_send (fst x) (snd x) (gd_outbox g)\<rparr>, datagram E x sk))"

lemma sock_send_simps [simp]:
  "sk_ttl_ok (sock_send b a sk) = sk_ttl_ok sk"
  "sk_clone_ok (sock_send b a sk) = sk_clone_ok sk"
  "sk_send_ok (sock_send b a sk) = sk_send_ok sk"
  by (simp_all add: sock_send_def)

lemma sock_send_prefix: "prefix (sk_sent sk) (sk_sent (sock_send b a sk))"
  by (simp add: sock_send_def)

lemma datagram_simps [simp]:
  "sk_ttl_ok (datagram E x sk) = sk_ttl_ok sk"
  "sk_clone_ok (datagram E x sk) = sk_clone_ok sk"
  "sk_send_ok (datagram E x sk) = sk_send_ok sk"
  by (simp_all add: datagram_def split: prod.splits option.splits)

lemma send_reliable_ok:
  "sk_ttl_ok sk \<Longrightarrow> send_reliable E a p (g, sk) = (Inr (), send_state E (a, p) (g, sk))"
  by (simp add: send_reliable_def act_simps send_state_def datagram_def split: option.splits)

lemma send_reliable_ttl:
  "\<not> sk_ttl_ok sk \<Longrightarrow> send_reliable E a p (g, sk) =
     (Inl UnwrapErr, (g\<lparr>gd_outbox := record_send a p (gd_outbox g)\<rparr>, sk))"
  by (simp add: send_reliable_def act_simps)

lemma send_state_flags [simp]:
  "sk_ttl_ok (snd (send_state E x st)) = sk_ttl_ok (snd st)"
  "sk_clone_ok (snd (send_state E x st)) = sk_clone_ok (snd st)"
  "sk_send_ok (snd (send_state E x st)) = sk_send_ok (snd st)"
  by (cases st; simp add: send_state_def)+

lemma act_each_send:
  "sk_ttl_ok (snd st) \<Longrightarrow>
     act_each L (\<lambda>(peer, packet). send_reliable E peer packet) st = (Inr (), fold (send_state E) L st)"
proof (induction L arbitrary: st)
  case (Cons x L)
  then show ?case
    using send_reliable_ok [of "snd st" E "fst x" "snd x" "fst st"]
    by (simp add: act_then_apply case_prod_unfold)
qed (simp add: act_apply)

lemma fold_send_state:
  "fold (send_state E) L (g, sk) =
     (g\<lparr>gd_outbox := fold (\<lambda>(a, p). record_send a p) L (gd_outbox g)\<rparr>, fold (datagram E) L sk)"
  by (induction L arbitrary: g sk) (simp_all add: send_state_def case_prod_unfold)

lemma maintain_ok:
  "sk_ttl_ok sk \<Longrightarrow> maintain E (g, sk) =
     (let ob = retain_outbox (gd_outbox g); L = resends E ob in
      (Inr (), (g\<lparr>gd_outbox := fold (\<lambda>(a, p). record_send a p) L ob\<rparr>, fold (datagram E) L sk)))"
  by (simp add: maintain_def act_simps act_each_resends act_each_send fold_send_state Let_def)

text \<open>
  The number of datagrams of a list for packet \<open>n\<close> of message \<open>i\<close> to destinations in \<open>Q\<close>.
\<close>

definition sends_count ::
    "(socket_addr \<Rightarrow> bool) \<Rightarrow> inner_key \<Rightarrow> nat \<Rightarrow> (socket_addr \<times> packet) list \<Rightarrow> nat" where
  "sends_count Q i n L = length (filter (\<lambda>(a, p). Q a \<and> pkt_id p = i \<and> pkt_n p = n) L)"

lemma sends_count_simps [simp]:
  "sends_count Q i n [] = 0"
  "sends_count Q i n (x # L) =
     (if Q (fst x) \<and> pkt_id (snd x) = i \<and> pkt_n (snd x) = n then 1 else 0) + sends_count Q i n L"
  by (simp_all add: sends_count_def case_prod_unfold)

lemma sends_count_append: "sends_count Q i n (K @ L) = sends_count Q i n K + sends_count Q i n L"
  by (simp add: sends_count_def)

lemma sends_count_concat: "sends_count Q i n (concat Ls) = sum_list (map (sends_count Q i n) Ls)"
  by (induction Ls) (simp_all add: sends_count_append)

definition entry_count :: "(socket_addr \<Rightarrow> bool) \<Rightarrow> entry \<Rightarrow> nat" where
  "entry_count Q = (\<lambda>(s, k, p, t). if t < 10 then card {a \<in> set s - set k. Q a} else 0)"

lemma sends_count_entry:
  assumes "entry_ok j m e"
  shows "sends_count Q i n (entry_resends E e) = (if j = i \<and> m = n then entry_count Q e else 0)"
proof -
  obtain s k p t where e: "e = (s, k, p, t)" by (cases e)
  have "length (filter Q (hs_iter r (hs_difference s k))) = card {a \<in> set s - set k. Q a}" for r
  proof -
    have "distinct (filter Q (hs_iter r (hs_difference s k)))"
      using assms e by (simp add: entry_ok_def)
    from distinct_card [OF this] show ?thesis by (simp add: conj_commute)
  qed
  then show ?thesis using assms e
    by (auto simp: sends_count_def entry_resends_def entry_count_def entry_ok_def filter_map comp_def)
qed

lemma sends_count_inner:
  assumes "hm_wf m" and "\<And>n e. hm_get m n = Some e \<Longrightarrow> entry_ok j n e"
  shows "sends_count Q i n (concat (map (\<lambda>(_, e). entry_resends E e) (hm_iter rank m))) =
    (if j = i then case hm_get m n of None \<Rightarrow> 0 | Some e \<Rightarrow> entry_count Q e else 0)"
proof -
  have "sends_count Q i n (concat (map (\<lambda>(_, e). entry_resends E e) (hm_iter rank m))) =
      sum_list (map (\<lambda>x. sends_count Q i n (entry_resends E (snd x))) (hm_iter rank m))"
    by (simp add: sends_count_concat comp_def case_prod_unfold)
  also have "\<dots> = sum_list (map (\<lambda>x. sends_count Q i n (entry_resends E (snd x))) m)"
    by (rule sum_list_hm_iter)
  also have "map (\<lambda>x. sends_count Q i n (entry_resends E (snd x))) m =
      map (\<lambda>(n', e). if n' = n then if j = i then entry_count Q e else 0 else 0) m"
  proof (rule map_cong [OF refl])
    fix x assume x: "x \<in> set m"
    then have "hm_get m (fst x) = Some (snd x)"
      using hm_entries [OF assms(1), of "fst x" "snd x" "\<lambda>_. 0"] by simp
    from sends_count_entry [OF assms(2) [OF this], of Q i n E]
    show "sends_count Q i n (entry_resends E (snd x)) =
        (case x of (n', e) \<Rightarrow> if n' = n then if j = i then entry_count Q e else 0 else 0)"
      by (auto simp: case_prod_unfold)
  qed
  also have "sum_list \<dots> = (case hm_get m n of None \<Rightarrow> 0 | Some e \<Rightarrow> if j = i then entry_count Q e else 0)"
    by (rule hm_sum_key [OF assms(1)])
  finally show ?thesis by (simp split: option.splits)
qed

lemma sends_count_resends:
  assumes "ob_ok ob"
  shows "sends_count Q i n (resends E ob) =
    (case ob_get ob i n of None \<Rightarrow> 0 | Some e \<Rightarrow> entry_count Q e)"
proof -
  let ?block = "\<lambda>m. concat (map (\<lambda>(_, e). entry_resends E e) (hm_iter (e_ord_n E) m))"
  have wf: "hm_wf ob" using assms by (simp add: ob_ok_def)
  have "sends_count Q i n (resends E ob) =
      sum_list (map (\<lambda>x. sends_count Q i n (?block (snd x))) (hm_iter (e_ord_key E) ob))"
    by (simp add: resends_def sends_count_concat comp_def case_prod_unfold)
  also have "\<dots> = sum_list (map (\<lambda>x. sends_count Q i n (?block (snd x))) ob)"
    by (rule sum_list_hm_iter)
  also have "map (\<lambda>x. sends_count Q i n (?block (snd x))) ob =
      map (\<lambda>(j, m). if j = i then case hm_get m n of None \<Rightarrow> 0 | Some e \<Rightarrow> entry_count Q e else 0) ob"
  proof (rule map_cong [OF refl])
    fix x assume x: "x \<in> set ob"
    then have get: "hm_get ob (fst x) = Some (snd x)"
      using hm_entries [OF wf, of "fst x" "snd x" "\<lambda>_. 0"] by simp
    then have "entry_ok (fst x) k e" if "hm_get (snd x) k = Some e" for k e
      using ob_ok_entry [OF assms, of "fst x" k e] that by (simp add: ob_get_def)
    from sends_count_inner [OF ob_ok_inner [OF assms get] this, of Q i n E]
    show "sends_count Q i n (?block (snd x)) =
        (case x of (j, m) \<Rightarrow> if j = i then case hm_get m n of None \<Rightarrow> 0 | Some e \<Rightarrow> entry_count Q e else 0)"
      by (auto simp: case_prod_unfold)
  qed
  also have "sum_list \<dots> = (case hm_get ob i of None \<Rightarrow> 0
      | Some m \<Rightarrow> case hm_get m n of None \<Rightarrow> 0 | Some e \<Rightarrow> entry_count Q e)"
    by (rule hm_sum_key [OF wf])
  finally show ?thesis by (simp add: ob_get_def split: option.splits)
qed

lemma in_resends:
  assumes "ob_ok ob" and "(a, p) \<in> set (resends E ob)"
  shows "\<exists>s k t. ob_get ob (pkt_id p) (pkt_n p) = Some (s, k, p, t) \<and> t < 10 \<and> a \<in> set s \<and> a \<notin> set k"
proof -
  have wf: "hm_wf ob" using assms(1) by (simp add: ob_ok_def)
  obtain j m n e where jm: "(j, m) \<in> set ob" and ne: "(n, e) \<in> set m"
    and ap: "(a, p) \<in> set (entry_resends E e)"
    using assms(2) by (auto simp: resends_def)
  obtain s k q t where e: "e = (s, k, q, t)" by (cases e)
  have m: "hm_get ob j = Some m" using hm_entries [OF wf, of j m "\<lambda>_. 0"] jm by simp
  have "hm_get m n = Some e"
    using hm_entries [OF ob_ok_inner [OF assms(1) m], of n e "\<lambda>_. 0"] ne by simp
  with m have get: "ob_get ob j n = Some e" by (simp add: ob_get_def)
  from ob_ok_entry [OF assms(1) get] have "pkt_id q = j" "pkt_n q = n" by (simp_all add: e entry_ok_def)
  with get ap show ?thesis by (auto simp: e entry_resends_def split: if_splits)
qed

text \<open>Resending to destinations already recorded only counts attempts.\<close>

lemma ob_get_fold_record_send:
  assumes "\<And>a p. (a, p) \<in> set L \<Longrightarrow>
      \<exists>s k q t. ob_get ob (pkt_id p) (pkt_n p) = Some (s, k, q, t) \<and> a \<in> set s"
  shows "ob_get (fold (\<lambda>(a, p). record_send a p) L ob) i n =
    map_option (\<lambda>(s, k, p, t). (s, k, p, t + sends_count (\<lambda>_. True) i n L)) (ob_get ob i n)"
  using assms
proof (induction L arbitrary: ob)
  case Nil
  then show ?case by (cases "ob_get ob i n") auto
next
  case (Cons x L)
  obtain a p where x: "x = (a, p)" by fastforce
  obtain s k q t where sk: "ob_get ob (pkt_id p) (pkt_n p) = Some (s, k, q, t)" "a \<in> set s"
    using Cons.prems [of a p] x by auto
  let ?ob = "record_send a p ob"
  have get: "ob_get ?ob j m =
      (if j = pkt_id p \<and> m = pkt_n p then Some (s, k, q, t + 1) else ob_get ob j m)" for j m
    using sk by (simp add: ob_get_record_send sent_entry_def)
  have "\<exists>s k q t. ob_get ?ob (pkt_id p') (pkt_n p') = Some (s, k, q, t) \<and> a' \<in> set s"
    if "(a', p') \<in> set L" for a' p'
    using Cons.prems [of a' p'] that sk by (auto simp: get)
  from Cons.IH [OF this] show ?case
    using sk by (auto simp: x get)
qed

lemma ob_ok_fold_record_send:
  "ob_ok ob \<Longrightarrow> ob_ok (fold (\<lambda>(a, p). record_send a p) L ob)"
  by (induction L arbitrary: ob) (auto simp: ob_ok_record_send)

lemma ob_get_maintained:
  assumes "ob_ok ob"
  shows "ob_get (fold (\<lambda>(a, p). record_send a p) (resends E (retain_outbox ob)) (retain_outbox ob)) i n =
    (case ob_get ob i n of None \<Rightarrow> None
     | Some (s, k, p, t) \<Rightarrow>
         if set s = set k \<or> 10 \<le> t then None else Some (s, k, p, t + card (set s - set k)))"
proof -
  let ?ob = "retain_outbox ob"
  have ok: "ob_ok ?ob" by (rule ob_ok_retain [OF assms])
  have "\<exists>s k q t. ob_get ?ob (pkt_id p) (pkt_n p) = Some (s, k, q, t) \<and> a \<in> set s"
    if "(a, p) \<in> set (resends E ?ob)" for a p
    using in_resends [OF ok that] by blast
  from ob_get_fold_record_send [OF this] show ?thesis
    by (auto simp: sends_count_resends [OF ok] ob_get_retain [OF assms] entry_count_def keep_entry_def
        hs_eq_def set_diff_eq split: option.splits)
qed

lemma maintain_outbox:
  assumes "ob_ok (gd_outbox g)" and "sk_ttl_ok sk" and "maintain E (g, sk) = (r, g', sk')"
  shows "r = Inr ()" and "ob_ok (gd_outbox g')" and "sk_ttl_ok sk'"
    and "ob_get (gd_outbox g') i n =
      (case ob_get (gd_outbox g) i n of None \<Rightarrow> None
       | Some (s, k, p, t) \<Rightarrow>
           if set s = set k \<or> 10 \<le> t then None else Some (s, k, p, t + card (set s - set k)))"
proof -
  have flags: "sk_ttl_ok (fold (datagram E) L sk) = sk_ttl_ok sk" for L
    by (induction L arbitrary: sk) simp_all
  note m = assms(3) [unfolded maintain_ok [OF assms(2)], simplified Let_def]
  show "r = Inr ()" using m by simp
  show "sk_ttl_ok sk'" using m flags assms(2) by auto
  show "ob_ok (gd_outbox g')"
    using m ob_ok_fold_record_send [OF ob_ok_retain [OF assms(1)]] by auto
  show "ob_get (gd_outbox g') i n =
      (case ob_get (gd_outbox g) i n of None \<Rightarrow> None
       | Some (s, k, p, t) \<Rightarrow>
           if set s = set k \<or> 10 \<le> t then None else Some (s, k, p, t + card (set s - set k)))"
    using m ob_get_maintained [OF assms(1), of E i n] by auto
qed

section \<open>Runs\<close>

text \<open>The calls the transport layer makes, and the state after one of them.\<close>

datatype gd_event =
    SendReliable socket_addr packet
  | ProcessAck inner_key nat bytes
  | Maintain
  | CheckTime nat nat

fun gd_step :: "env \<Rightarrow> gd_event \<Rightarrow> gds \<Rightarrow> gds" where
  "gd_step E (SendReliable a p) st = snd (send_reliable E a p st)"
| "gd_step E (ProcessAck i n src) (g, sk) = (snd (process_ack i n src g), sk)"
| "gd_step E Maintain st = snd (maintain E st)"
| "gd_step E (CheckTime now now') st = snd (gd_check_time_elapsed E now now' st)"

definition gd_inv :: "gds \<Rightarrow> bool" where
  "gd_inv st \<longleftrightarrow> ob_ok (gd_outbox (fst st))"

definition gd_keeps :: "gds \<Rightarrow> gds \<Rightarrow> bool" where
  "gd_keeps st st' \<longleftrightarrow> (gd_inv st \<longrightarrow> gd_inv st') \<and> gd_addr (fst st') = gd_addr (fst st) \<and>
     prefix (sk_sent (snd st)) (sk_sent (snd st'))"

interpretation gdf: frame gd_keeps
  by unfold_locales (auto simp: gd_keeps_def)

lemma gd_keepsI:
  "(ob_ok (gd_outbox (fst st)) \<Longrightarrow> ob_ok (gd_outbox (fst st'))) \<Longrightarrow> gd_addr (fst st') = gd_addr (fst st) \<Longrightarrow>
   prefix (sk_sent (snd st)) (sk_sent (snd st')) \<Longrightarrow> gd_keeps st st'"
  by (simp add: gd_keeps_def gd_inv_def)

lemmas gd_framed_intros = gdf.framed_rules gdf.framed_modify gd_keepsI

lemma send_reliable_framed: "framed gd_keeps (send_reliable E a p)"
  unfolding send_reliable_def
  by (auto intro!: gd_framed_intros simp: ob_ok_record_send sock_send_prefix split: option.split)

lemma maintain_framed: "framed gd_keeps (maintain E)"
  unfolding maintain_def act_each_resends
  by (auto intro!: gd_framed_intros send_reliable_framed simp: ob_ok_retain)

lemma check_time_framed: "framed gd_keeps (gd_check_time_elapsed E now now')"
  unfolding gd_check_time_elapsed_def
  by (auto intro!: gd_framed_intros maintain_framed)

lemma process_ack_inv: "ob_ok (gd_outbox g) \<Longrightarrow> ob_ok (gd_outbox (snd (process_ack i n src g)))"
  by (auto simp: process_ack_def act_simps ob_ok_record_ack split: option.split)

lemma process_ack_addr: "gd_addr (snd (process_ack i n src g)) = gd_addr g"
  by (auto simp: process_ack_def act_simps split: option.split)

lemma gd_step_inv: "gd_inv st \<Longrightarrow> gd_inv (gd_step E e st)"
proof (induction E e st rule: gd_step.induct)
  case (2 E i n src g sk)
  then show ?case by (simp add: gd_inv_def process_ack_inv)
qed (use send_reliable_framed maintain_framed check_time_framed in \<open>auto simp: framed_def gd_keeps_def\<close>)

interpretation gd: step_system "gd_step E" gd_inv for E
  by unfold_locales (rule gd_step_inv)

definition maintains :: "env \<Rightarrow> nat \<Rightarrow> gds \<Rightarrow> gds" where
  "maintains E k st = ((\<lambda>st. snd (maintain E st)) ^^ k) st"

lemma maintains_simps [simp]:
  "maintains E 0 st = st"
  "maintains E (Suc k) st = snd (maintain E (maintains E k st))"
  by (simp_all add: maintains_def)

lemma maintain_effect:
  assumes "gd_inv st" and "sk_ttl_ok (snd st)"
  shows "gd_inv (snd (maintain E st))" and "sk_ttl_ok (snd (snd (maintain E st)))"
    and "ob_get (gd_outbox (fst (snd (maintain E st)))) i n =
      (case ob_get (gd_outbox (fst st)) i n of None \<Rightarrow> None
       | Some (s, k, p, t) \<Rightarrow>
           if set s = set k \<or> 10 \<le> t then None else Some (s, k, p, t + card (set s - set k)))"
proof -
  obtain r g' sk' where m: "maintain E (fst st, snd st) = (r, g', sk')" by (metis surj_pair)
  have ok: "ob_ok (gd_outbox (fst st))" using assms(1) by (simp add: gd_inv_def)
  note eff = maintain_outbox [OF ok assms(2) m]
  from m eff show "gd_inv (snd (maintain E st))" "sk_ttl_ok (snd (snd (maintain E st)))"
    "ob_get (gd_outbox (fst (snd (maintain E st)))) i n =
      (case ob_get (gd_outbox (fst st)) i n of None \<Rightarrow> None
       | Some (s, k, p, t) \<Rightarrow>
           if set s = set k \<or> 10 \<le> t then None else Some (s, k, p, t + card (set s - set k)))"
    by (simp_all add: gd_inv_def)
qed

lemma maintains_inv:
  "gd_inv st \<Longrightarrow> sk_ttl_ok (snd st) \<Longrightarrow> gd_inv (maintains E k st) \<and> sk_ttl_ok (snd (maintains E k st))"
  by (induction k) (auto intro: maintain_effect)

lemma maintains_entry:
  assumes "gd_inv st" and "sk_ttl_ok (snd st)"
    and "ob_get (gd_outbox (fst st)) i n = Some (s, k, p, t)" and "\<not> set s \<subseteq> set k"
  shows "ob_get (gd_outbox (fst (maintains E j st))) i n =
    (if j = 0 \<or> t + (j - 1) * card (set s - set k) < 10
     then Some (s, k, p, t + j * card (set s - set k)) else None)"
proof (induction j)
  case (Suc j)
  have "set s \<noteq> set k" using assms(4) by auto
  with Suc maintain_effect(3) [of "maintains E j st" E i n] maintains_inv [OF assms(1,2), of E j]
  show ?case by (cases j) (auto simp: algebra_simps)
qed (simp add: assms)

text \<open>An outbox with one packet for one destination.\<close>

definition single :: "socket_addr \<Rightarrow> packet \<Rightarrow> nat \<Rightarrow> outbox" where
  "single a p t = [(pkt_id p, [(pkt_n p, [a], [], p, t)])]"

lemma maintain_Nil: "gd_outbox g = [] \<Longrightarrow> sk_ttl_ok sk \<Longrightarrow> maintain E (g, sk) = (Inr (), g, sk)"
  by (simp add: maintain_ok retain_outbox_def hm_retain_def resends_def hm_iter_def)

lemma maintain_single:
  assumes "gd_outbox g = single a p t" and "sk_ttl_ok sk"
  shows "maintain E (g, sk) =
    (if t < 10 then (Inr (), g\<lparr>gd_outbox := single a p (t + 1)\<rparr>, datagram E (a, p) sk)
     else (Inr (), g\<lparr>gd_outbox := []\<rparr>, sk))"
  using assms
  by (simp add: maintain_ok retain_outbox_def hm_retain_def resends_def hm_iter_def single_def
      keep_entry_def hs_eq_def entry_resends_def hs_iter_def hs_difference_def record_send_def
      hm_get_def hm_insert_def)

lemma maintains_single:
  assumes "gd_outbox g = single a p 1" and "sk_ttl_ok sk"
    and "as_bytes (e_packet E) p = Some b" and "sk_send_ok sk b a" and "sk_sent sk = [(b, a)]"
  shows "\<exists>g' sk'. maintains E j (g, sk) = (g', sk') \<and> sk_ttl_ok sk' \<and> sk_send_ok sk' b a \<and>
    sk_sent sk' = replicate (min 10 (Suc j)) (b, a) \<and>
    gd_outbox g' = (if j < 10 then single a p (Suc j) else [])"
proof (induction j)
  case (Suc j)
  then obtain g' sk' where IH: "maintains E j (g, sk) = (g', sk')" "sk_ttl_ok sk'" "sk_send_ok sk' b a"
    "sk_sent sk' = replicate (min 10 (Suc j)) (b, a)"
    "gd_outbox g' = (if j < 10 then single a p (Suc j) else [])" by auto
  consider "j < 9" | "j = 9" | "10 \<le> j" by linarith
  then show ?case
  proof cases
    case 1
    then have "min 10 (Suc j) = Suc j" "min 10 (Suc (Suc j)) = Suc (Suc j)" by simp_all
    with 1 IH maintain_single [of g' a p "Suc j" sk' E] show ?thesis
      using assms(3) by (simp add: datagram_def sock_send_def replicate_append_same)
  next
    case 2
    with IH have m: "maintain E (g', sk') = (Inr (), g'\<lparr>gd_outbox := []\<rparr>, sk')"
      using maintain_single [of g' a p "Suc j" sk' E] by simp
    show ?thesis unfolding maintains_simps IH(1) m using IH 2 by simp
  next
    case 3
    with IH maintain_Nil [of g' sk' E] show ?thesis by simp
  qed
qed (use assms in simp)

section \<open>Properties\<close>

text \<open>The receipts that are still out, and those that came in.\<close>

definition in_flight :: "outbox \<Rightarrow> (inner_key \<times> nat \<times> socket_addr) set" where
  "in_flight ob = {(i, n, a). \<exists>s k p t. ob_get ob i n = Some (s, k, p, t) \<and> a \<in> set s \<and> a \<notin> set k}"

definition acknowledged :: "outbox \<Rightarrow> (inner_key \<times> nat \<times> socket_addr) set" where
  "acknowledged ob = {(i, n, a). \<exists>s k p t. ob_get ob i n = Some (s, k, p, t) \<and> a \<in> set k}"

lemma in_flight_iff:
  "(i, n, a) \<in> in_flight ob \<longleftrightarrow>
     (case ob_get ob i n of None \<Rightarrow> False | Some (s, k, p, t) \<Rightarrow> a \<in> set s \<and> a \<notin> set k)"
  by (auto simp: in_flight_def split: option.splits)

lemma acknowledged_iff:
  "(i, n, a) \<in> acknowledged ob \<longleftrightarrow>
     (case ob_get ob i n of None \<Rightarrow> False | Some (s, k, p, t) \<Rightarrow> a \<in> set k)"
  by (auto simp: acknowledged_def split: option.splits)

text \<open>
  C9: the nested hash maps of the outbox implement a set of outstanding
  receipts: sending adds the destination unless it acknowledged that packet before, and an
  acknowledgement removes exactly its sender.
\<close>

theorem outbox_refines_in_flight:
  "in_flight (record_send a p ob) =
     in_flight ob \<union> ({(pkt_id p, pkt_n p, a)} - acknowledged ob) \<and>
   in_flight (record_ack i n src ob) = in_flight ob - {(i, n, src)} \<and>
   acknowledged (record_send a p ob) = acknowledged ob \<and>
   acknowledged ob \<subseteq> acknowledged (record_ack i n src ob)"
  by (auto simp: set_eq_iff subset_eq in_flight_iff acknowledged_iff ob_get_record_send ob_get_record_ack
      sent_entry_def split: option.splits)

text \<open>
  C28: from a new \<open>GDUdp\<close>, after any sequence of sends, acknowledgements (with any
  source bytes) and maintenances, and even after a panic in one of them, every entry of the
  outbox is filed under the id and the number of its packet, has a destination and at least one
  attempt, and no key or address occurs twice.
\<close>

theorem gd_run_invariant:
  "ob_ok (gd_outbox (fst (fold (gd_step E) es (gd_udp_new addr now, sk))))"
  using gd.inv_run [of "(gd_udp_new addr now, sk)" E es] by (simp add: gd_inv_def gd_udp_new_def)

text \<open>
  C18: one maintenance drops the entries whose receipts are all in and those with ten
  attempts, sends every remaining packet once to each destination whose receipt is out and to no
  other, and adds the number of these sends to the attempts of the entry.
\<close>

theorem maintain_spec:
  assumes "gd_inv (g, sk)" and "sk_ttl_ok sk"
  shows "\<exists>L g' sk'. maintain E (g, sk) = (Inr (), g', sk') \<and>
    sk' = fold (datagram E) L sk \<and>
    (\<forall>i n Q. sends_count Q i n L =
       (case ob_get (gd_outbox g) i n of None \<Rightarrow> 0
        | Some (s, k, p, t) \<Rightarrow> if t < 10 then card {a \<in> set s - set k. Q a} else 0)) \<and>
    (\<forall>i n. ob_get (gd_outbox g') i n =
       (case ob_get (gd_outbox g) i n of None \<Rightarrow> None
        | Some (s, k, p, t) \<Rightarrow>
            if set s = set k \<or> 10 \<le> t then None else Some (s, k, p, t + card (set s - set k))))"
proof -
  have ok: "ob_ok (gd_outbox g)" using assms(1) by (simp add: gd_inv_def)
  let ?L = "resends E (retain_outbox (gd_outbox g))"
  have count: "sends_count Q i n ?L =
      (case ob_get (gd_outbox g) i n of None \<Rightarrow> 0
       | Some (s, k, p, t) \<Rightarrow> if t < 10 then card {a \<in> set s - set k. Q a} else 0)" for Q i n
    by (auto simp: sends_count_resends [OF ob_ok_retain [OF ok]] ob_get_retain [OF ok]
        entry_count_def keep_entry_def hs_eq_def set_diff_eq split: option.splits)
  show ?thesis
    by (rule exI [of _ ?L], rule exI [of _ "fst (snd (maintain E (g, sk)))"],
        rule exI [of _ "snd (snd (maintain E (g, sk)))"])
      (simp add: count maintain_ok [OF assms(2)] Let_def ob_get_maintained [OF ok])
qed

text \<open>
  C29: an entry with a destination that never acknowledges is resent for at
  most nine maintenances and gone after ten, so the outbox cannot hold it forever.
\<close>

theorem unacknowledged_dropped:
  assumes "gd_inv st" and "sk_ttl_ok (snd st)"
    and "ob_get (gd_outbox (fst st)) i n = Some (s, k, p, t)" and "\<not> set s \<subseteq> set k"
  shows "ob_get (gd_outbox (fst (maintains E 10 st))) i n = None"
proof -
  have "1 \<le> t"
    using ob_ok_entry [of "gd_outbox (fst st)" i n "(s, k, p, t)"] assms(1,3)
    by (simp add: gd_inv_def entry_ok_def)
  moreover have "1 \<le> card (set s - set k)"
    using assms(4) by (simp add: Suc_le_eq card_gt_0_iff)
  then have "9 * 1 \<le> 9 * card (set s - set k)" by (rule mult_le_mono2)
  ultimately have "\<not> t + (10 - 1) * card (set s - set k) < 10" by simp
  then show ?thesis
    using maintains_entry [OF assms, of E 10] by simp
qed

text \<open>
  C30: a packet sent by a new \<open>GDUdp\<close> to one destination that never
  acknowledges is transmitted once more by each of the next nine maintenances and never again:
  ten datagrams in all.
\<close>

theorem transmitted_ten_times:
  assumes "as_bytes (e_packet E) p = Some b" and "sk_ttl_ok sk" and "sk_send_ok sk b a"
    and "sk_sent sk = []"
  shows "sk_sent (snd (maintains E k (gd_step E (SendReliable a p) (gd_udp_new addr now, sk)))) =
    replicate (min 10 (Suc k)) (b, a)"
proof -
  let ?g = "gd_udp_new addr now"
  have "gd_step E (SendReliable a p) (?g, sk) =
      (?g\<lparr>gd_outbox := single a p 1\<rparr>, sk\<lparr>sk_sent := [(b, a)]\<rparr>)"
    using assms by (simp add: send_reliable_ok send_state_def datagram_def sock_send_def
        record_send_def single_def gd_udp_new_def hm_insert_def hs_insert_def)
  then show ?thesis
    using maintains_single [of "?g\<lparr>gd_outbox := single a p 1\<rparr>" a p "sk\<lparr>sk_sent := [(b, a)]\<rparr>" E b k] assms
    by auto
qed

section \<open>Concrete instances\<close>

definition demo_addr :: socket_addr where
  "demo_addr = SocketAddrV4 (Ipv4 10 0 0 7) 9292"

definition demo_packet :: packet where
  "demo_packet = packet_of ref_env (arr_of [1]) RETURN_RECEIPT 1 1 [104, 105]"

definition demo_sock :: sock where
  "demo_sock = \<lparr>sk_sent = [], sk_ttl_ok = True, sk_clone_ok = True, sk_send_ok = (\<lambda>_ _. True)\<rparr>"

definition demo_gds :: gds where
  "demo_gds = (gd_udp_new demo_addr 0\<lparr>gd_outbox := single demo_addr demo_packet 1\<rparr>, demo_sock)"

lemma demo_gds_inv: "gd_inv demo_gds"
  by (auto simp: gd_inv_def demo_gds_def ob_ok_def single_def ob_get_def hm_get_def hm_wf_def
      entry_ok_def split: if_splits)

lemma demo_gds_entry:
  "ob_get (gd_outbox (fst demo_gds)) (pkt_id demo_packet) (pkt_n demo_packet) =
     Some ([demo_addr], [], demo_packet, 1)"
  by (simp add: demo_gds_def single_def ob_get_def hm_get_def)

lemma demo_sock_ok: "sk_ttl_ok (snd demo_gds)" "sk_ttl_ok demo_sock"
  by (simp_all add: demo_gds_def demo_sock_def)

theorem maintain_spec_witness:
  "\<exists>L g' sk'. maintain ref_env (fst demo_gds, snd demo_gds) = (Inr (), g', sk') \<and>
     sk' = fold (datagram ref_env) L (snd demo_gds) \<and>
     sends_count (\<lambda>a. a = demo_addr) (pkt_id demo_packet) (pkt_n demo_packet) L = 1 \<and>
     ob_get (gd_outbox g') (pkt_id demo_packet) (pkt_n demo_packet) =
       Some ([demo_addr], [], demo_packet, 2)"
proof -
  have "gd_inv (fst demo_gds, snd demo_gds)" using demo_gds_inv by simp
  from maintain_spec [OF this demo_sock_ok(1), of ref_env] obtain L g' sk' where
    m: "maintain ref_env (fst demo_gds, snd demo_gds) = (Inr (), g', sk')" and
    d: "sk' = fold (datagram ref_env) L (snd demo_gds)" and
    c: "\<And>i n Q. sends_count Q i n L =
       (case ob_get (gd_outbox (fst demo_gds)) i n of None \<Rightarrow> 0
        | Some (s, k, p, t) \<Rightarrow> if t < 10 then card {a \<in> set s - set k. Q a} else 0)" and
    o: "\<And>i n. ob_get (gd_outbox g') i n =
       (case ob_get (gd_outbox (fst demo_gds)) i n of None \<Rightarrow> None
        | Some (s, k, p, t) \<Rightarrow>
            if set s = set k \<or> 10 \<le> t then None else Some (s, k, p, t + card (set s - set k)))"
    by blast
  have "{a \<in> set [demo_addr] - set []. a = demo_addr} = {demo_addr}" by auto
  then have "sends_count (\<lambda>a. a = demo_addr) (pkt_id demo_packet) (pkt_n demo_packet) L = 1"
    using c [of "\<lambda>a. a = demo_addr"] demo_gds_entry by simp
  moreover have "ob_get (gd_outbox g') (pkt_id demo_packet) (pkt_n demo_packet) =
      Some ([demo_addr], [], demo_packet, 2)"
    using o demo_gds_entry by simp
  ultimately show ?thesis using m d by blast
qed

theorem unacknowledged_dropped_witness:
  "ob_get (gd_outbox (fst demo_gds)) (pkt_id demo_packet) (pkt_n demo_packet) \<noteq> None \<and>
   ob_get (gd_outbox (fst (maintains ref_env 10 demo_gds))) (pkt_id demo_packet) (pkt_n demo_packet) = None"
  using unacknowledged_dropped [OF demo_gds_inv demo_sock_ok(1) demo_gds_entry, of ref_env]
    demo_gds_entry by simp

theorem transmitted_ten_times_witness:
  "sk_sent (snd (maintains ref_env 20
       (gd_step ref_env (SendReliable demo_addr demo_packet) (gd_udp_new demo_addr 0, demo_sock)))) =
     replicate 10 (the (as_bytes (e_packet ref_env) demo_packet), demo_addr)"
  using transmitted_ten_times [OF ref.packet.enc_Some demo_sock_ok(2), of demo_packet demo_addr 20 demo_addr 0]
  by (simp add: demo_sock_def)

end
