(* ===== verification/Handler.thy ===== *)
theory Handler
  imports Gd_Udp
begin

text \<open>
  The message handler (\<open>src/transport/handler.rs\<close>): it decodes datagrams into packets, queues
  acknowledgements, collects the packets of a message and routes the assembled message to the
  discovery, acknowledgement or gossip channel.

  Proved: the packets \<open>packetize\<close> made of a message, arriving in any order and with any
  duplicates, reassemble to exactly that message when the last missing one arrives; where each
  header is routed; when an acknowledgement is queued; and which packets make the handler panic.
\<close>

section \<open>State\<close>

record handler =
  om_tx :: "(socket_addr \<times> message) chan"
  ia_tx :: "ack_message chan"
  pending :: "(inner_key, (nat, packet) hmap) hmap"
  kad_tx :: "(socket_addr \<times> kad_message) chan"
  gossip_tx :: "(socket_addr \<times> message) chan"

definition handler_new ::
    "(socket_addr \<times> message) chan \<Rightarrow> ack_message chan \<Rightarrow> (inner_key, (nat, packet) hmap) hmap \<Rightarrow>
     (socket_addr \<times> kad_message) chan \<Rightarrow> (socket_addr \<times> message) chan \<Rightarrow> handler" where
  "handler_new om ia pend kt gt =
     \<lparr>om_tx = om, ia_tx = ia, pending = pend, kad_tx = kt, gossip_tx = gt\<rparr>"

section \<open>Routing of messages\<close>

definition handle_message :: "env \<Rightarrow> message \<Rightarrow> socket_addr \<Rightarrow> handler \<Rightarrow> handler" where
  "handle_message E message src h =
     (case head message of
        Request \<Rightarrow>
          (case from_bytes (e_kad E) (msg message) of
             Some m \<Rightarrow> h\<lparr>kad_tx := chan_send (src, m) (kad_tx h)\<rparr> | None \<Rightarrow> h)
      | Response \<Rightarrow>
          (case from_bytes (e_kad E) (msg message) of
             Some m \<Rightarrow> h\<lparr>kad_tx := chan_send (src, m) (kad_tx h)\<rparr> | None \<Rightarrow> h)
      | Ack \<Rightarrow>
          (case from_bytes (e_ack E) (msg message) of
             Some ack \<Rightarrow> h\<lparr>ia_tx := chan_send ack (ia_tx h)\<rparr> | None \<Rightarrow> h)
      | Gossip \<Rightarrow> h\<lparr>gossip_tx := chan_send (src, message) (gossip_tx h)\<rparr>)"

section \<open>Reassembly\<close>

text \<open>\<open>hex::decode(..).unwrap()\<close>, and the indexing \<open>map[&n]\<close>, which panics on a missing key.\<close>

definition unwrap_hex :: "env \<Rightarrow> string \<Rightarrow> panic + bytes" where
  "unwrap_hex E s = (case e_hex_decode E s of Some b \<Rightarrow> Inr b | None \<Rightarrow> Inl UnwrapErr)"

definition hm_index :: "('k, 'v) hmap \<Rightarrow> 'k \<Rightarrow> panic + 'v" where
  "hm_index m k = (case hm_get m k of Some v \<Rightarrow> Inr v | None \<Rightarrow> Inl KeyMissing)"

fun assemble_loop :: "env \<Rightarrow> (nat, packet) hmap \<Rightarrow> nat list \<Rightarrow> bytes \<Rightarrow> panic + bytes" where
  "assemble_loop E m [] b = Inr b"
| "assemble_loop E m (n # ns) b =
     res_bind (hm_index m n) (\<lambda>p.
     res_bind (unwrap_hex E (pkt_bytes p)) (\<lambda>c. assemble_loop E m ns (b @ c)))"

definition assemble_packets :: "env \<Rightarrow> packet \<Rightarrow> (nat, packet) hmap \<Rightarrow> panic + message option" where
  "assemble_packets E packet m =
     res_bind (assemble_loop E m [1..<Suc (pkt_total_n packet)] []) (\<lambda>b.
     Inr (from_bytes (e_message E) b))"

definition insert_packet :: "env \<Rightarrow> packet \<Rightarrow> socket_addr \<Rightarrow> (handler, unit) act" where
  "insert_packet E packet src =
     act_bind (act_get pending) (\<lambda>pend.
     case hm_get pend (pkt_id packet) of
       Some m \<Rightarrow>
         let m = hm_or_insert (pkt_n packet) packet m in
         act_then (act_modify (\<lambda>h. h\<lparr>pending := hm_insert (pkt_id packet) m (pending h)\<rparr>))
           (if length m = pkt_total_n packet
            then act_bind (act_lift (assemble_packets E packet m)) (\<lambda>message.
                 case message of
                   Some message \<Rightarrow> act_modify (handle_message E message src)
                 | None \<Rightarrow> act_ret ())
            else act_ret ())
     | None \<Rightarrow>
         if pkt_total_n packet = 1
         then act_bind (act_lift (unwrap_hex E (pkt_bytes packet))) (\<lambda>b.
              case from_bytes (e_message E) b of
                Some message \<Rightarrow> act_modify (handle_message E message src)
              | None \<Rightarrow> act_ret ())
         else act_modify (\<lambda>h. h\<lparr>pending :=
                hm_insert (pkt_id packet) (hm_insert (pkt_n packet) packet []) (pending h)\<rparr>))"

section \<open>Datagrams\<close>

text \<open>\<open>&buf[..amt]\<close> panics when the buffer is shorter; \<open>recv_from\<close> never reports more than fits.\<close>

definition process_packet ::
    "env \<Rightarrow> socket_addr \<Rightarrow> bytes \<Rightarrow> nat \<Rightarrow> socket_addr \<Rightarrow> (handler, packet option) act" where
  "process_packet E local buf amt src =
     act_bind (act_lift (slice buf 0 amt)) (\<lambda>b.
     case from_bytes (e_packet E) b of
       None \<Rightarrow> act_ret None
     | Some packet \<Rightarrow>
         act_then
           (if pkt_ret packet = RETURN_RECEIPT
            then let ack = \<lparr>ack_packet_id = pkt_id packet, ack_packet_number = pkt_n packet,
                            ack_src = str_bytes (addr_to_string local)\<rparr>
                 in act_bind (act_unwrap (as_bytes (e_ack E) ack)) (\<lambda>a.
                    act_modify (\<lambda>h. h\<lparr>om_tx := chan_send (src, \<lparr>head = Ack, msg = a\<rparr>) (om_tx h)\<rparr>))
            else act_ret ())
           (act_ret (Some packet)))"

text \<open>The argument is the outcome of \<open>recv_from\<close>: the filled buffer, the length and the sender.\<close>

definition recv_msg ::
    "env \<Rightarrow> (bytes \<times> nat \<times> socket_addr) option \<Rightarrow> socket_addr \<Rightarrow> (handler, unit) act" where
  "recv_msg E res local =
     (case res of
        None \<Rightarrow> act_ret ()
      | Some (buf, amt, src) \<Rightarrow>
          act_bind (process_packet E local buf amt src) (\<lambda>p.
          case p of Some packet \<Rightarrow> insert_packet E packet src | None \<Rightarrow> act_ret ()))"

section \<open>Reassembly of the packets of one message\<close>

lemma handle_message_pending [simp]: "pending (handle_message E m src h) = pending h"
  by (simp add: handle_message_def split: header.split option.split)

lemma handle_message_update_pending:
  "handle_message E m src (h\<lparr>pending := x\<rparr>) = (handle_message E m src h)\<lparr>pending := x\<rparr>"
  by (simp add: handle_message_def split: header.split option.split)

lemma handle_message_om [simp]: "om_tx (handle_message E m src h) = om_tx h"
  by (simp add: handle_message_def split: header.split option.split)

text \<open>How often the set of the packets that arrived is complete, counting after each arrival.\<close>

fun completions :: "packet set \<Rightarrow> packet set \<Rightarrow> packet list \<Rightarrow> nat" where
  "completions F D [] = 0"
| "completions F D (q # qs) = (if insert q D = F then 1 else 0) + completions F (insert q D) qs"

lemma completions_distinct:
  "distinct qs \<Longrightarrow> set qs \<inter> D = {} \<Longrightarrow> D \<union> set qs = F \<Longrightarrow> qs \<noteq> [] \<Longrightarrow> completions F D qs = 1"
proof (induction qs arbitrary: D)
  case (Cons q qs)
  show ?case
  proof (cases "qs = []")
    case True
    with Cons.prems show ?thesis by auto
  next
    case False
    have "completions F (insert q D) qs = 1"
      by (rule Cons.IH) (use Cons.prems False in auto)
    moreover have "insert q D \<noteq> F"
    proof
      assume F: "insert q D = F"
      obtain q' where "q' \<in> set qs" using False by (cases qs) auto
      with F Cons.prems show False by auto
    qed
    ultimately show ?thesis by simp
  qed
qed simp

definition deliver :: "env \<Rightarrow> bytes \<Rightarrow> socket_addr \<Rightarrow> handler \<Rightarrow> handler" where
  "deliver E b src h =
     (case from_bytes (e_message E) b of Some m \<Rightarrow> handle_message E m src h | None \<Rightarrow> h)"

lemma deliver_simps [simp]:
  "pending (deliver E b src h) = pending h"
  "deliver E b src (h\<lparr>pending := x\<rparr>) = (deliver E b src h)\<lparr>pending := x\<rparr>"
  by (simp_all add: deliver_def handle_message_update_pending split: option.split)

lemma deliver_pow_simps [simp]:
  "pending ((deliver E b src ^^ k) h) = pending h"
  "(deliver E b src ^^ k) (h\<lparr>pending := x\<rparr>) = ((deliver E b src ^^ k) h)\<lparr>pending := x\<rparr>"
  by (induction k) simp_all

text \<open>The map of a message holds exactly the packets \<open>D\<close>.\<close>

definition holds :: "(nat, packet) hmap \<Rightarrow> packet set \<Rightarrow> bool" where
  "holds m D \<longleftrightarrow> hm_wf m \<and> (\<forall>n p. hm_get m n = Some p \<longleftrightarrow> p \<in> D \<and> pkt_n p = n)"

definition collected :: "packet list \<Rightarrow> (nat, packet) hmap option \<Rightarrow> packet set \<Rightarrow> bool" where
  "collected ps x D \<longleftrightarrow>
     (if D = {} \<or> length ps = 1 then x = None else \<exists>m. x = Some m \<and> holds m D)"

lemma packets_inj: "inj_on pkt_n (set (packets_of E b i r))"
  by (auto simp: inj_on_def in_packets_of)

lemma distinct_packets_of: "distinct (packets_of E b i r)"
  by (auto simp: distinct_conv_nth packets_of_nth dest: arg_cong [of _ _ pkt_n])

lemma holds_insert:
  assumes "holds m D" and "inj_on pkt_n (insert p D)"
  shows "holds (hm_or_insert (pkt_n p) p m) (insert p D)"
proof -
  have "hm_get (hm_or_insert (pkt_n p) p m) n = Some q \<longleftrightarrow> q \<in> insert p D \<and> pkt_n q = n" for n q
    using assms by (auto simp: holds_def hm_get_or_insert inj_on_def split: option.split)
  with assms(1) show ?thesis by (simp add: holds_def)
qed

lemma holds_single: "holds (hm_insert (pkt_n p) p []) {p}"
  by (auto simp: holds_def hm_get_insert)

lemma holds_length:
  assumes "holds m D" and "inj_on pkt_n D"
  shows "length m = card D"
proof -
  have "dom (hm_get m) = pkt_n ` D" using assms(1) by (auto simp: holds_def)
  then show ?thesis using assms by (simp add: hm_length holds_def card_image)
qed

context wire begin

lemma unwrap_hex_encode [simp]: "unwrap_hex E (e_hex_encode E c) = Inr c"
  using hexa.dec_enc [of c "e_hex_encode E c"] by (simp add: unwrap_hex_def)

text \<open>With all the packets of a message in the map, the loop returns the message.\<close>

lemma assemble_loop_packets:
  assumes "\<And>j. j < length cs \<Longrightarrow> hm_get m (Suc (k + j)) = Some (packet_of E i r t (Suc (k + j)) (cs ! j))"
  shows "assemble_loop E m [Suc k..<Suc (k + length cs)] b = Inr (b @ concat cs)"
  using assms
proof (induction cs arbitrary: k b)
  case (Cons c cs)
  have "hm_get m (Suc k) = Some (packet_of E i r t (Suc k) c)"
    using Cons.prems [of 0] by simp
  moreover have "assemble_loop E m [Suc (Suc k)..<Suc (Suc k + length cs)] (b @ c) =
      Inr ((b @ c) @ concat cs)"
    by (rule Cons.IH) (use Cons.prems [of "Suc j" for j] in simp)
  ultimately show ?case
    by (simp add: upt_conv_Cons hm_index_def del: upt_Suc)
qed simp

lemma assemble_packets_of:
  assumes "holds m (set (packets_of E b i r))" and "pkt_total_n p = packet_count (length b)"
  shows "assemble_packets E p m = Inr (from_bytes (e_message E) b)"
proof -
  let ?cs = "blocks 1024 (packet_count (length b)) b"
  have "hm_get m (Suc (0 + j)) = Some (packet_of E i r (length ?cs) (Suc (0 + j)) (?cs ! j))"
    if "j < length ?cs" for j
    using assms(1) that by (auto simp: holds_def in_packets_of)
  from assemble_loop_packets [of ?cs m 0, OF this, of "[]"]
  have "assemble_loop E m [1..<Suc (packet_count (length b))] [] = Inr b"
    by (simp add: concat_blocks del: upt_Suc)
  then show ?thesis using assms(2) by (simp add: assemble_packets_def)
qed

text \<open>One arrival.\<close>

lemma insert_packet_step:
  fixes b :: bytes and i :: inner_key and r :: u8
  defines "ps \<equiv> packets_of E b i r"
  assumes p: "p \<in> set ps" and D: "D \<subseteq> set ps" and c: "collected ps (hm_get (pending h) i) D"
  shows "\<exists>pend. insert_packet E p src h =
      (Inr (), (if insert p D = set ps then deliver E b src else id) (h\<lparr>pending := pend\<rparr>)) \<and>
    collected ps (hm_get pend i) (insert p D) \<and> (\<forall>k. k \<noteq> i \<longrightarrow> hm_get pend k = hm_get (pending h) k)"
proof -
  have pid: "pkt_id p = i" and tot: "pkt_total_n p = length ps"
    using p by (auto simp: ps_def in_packets_of)
  have inj: "inj_on pkt_n (insert p D)"
    by (rule inj_on_subset [OF packets_inj [of E b i r]]) (use p D in \<open>auto simp: ps_def\<close>)
  have full: "card (insert p D) = length ps \<longleftrightarrow> insert p D = set ps"
  proof -
    have c: "card (set ps) = length ps"
      unfolding ps_def by (rule distinct_card [OF distinct_packets_of])
    have "insert p D \<subseteq> set ps" using p D by blast
    from card_subset_eq [OF _ this] c show ?thesis by (metis List.finite_set)
  qed
  consider "length ps = 1" | "length ps \<noteq> 1" "D = {}" | "length ps \<noteq> 1" "D \<noteq> {}" by blast
  then show ?thesis
  proof cases
    case 1
    then have "blocks 1024 (packet_count (length b)) b = [b]" by (simp add: ps_def)
    with 1 p have pb: "pkt_bytes p = e_hex_encode E b" by (auto simp: ps_def in_packets_of)
    have "set ps = {p}" using 1 p by (cases ps) auto
    with 1 c pid tot pb D show ?thesis
      by (intro exI [of _ "pending h"])
        (auto simp: insert_packet_def act_simps collected_def deliver_def split: option.split)
  next
    case 2
    have "insert p D \<noteq> set ps"
      using 2 full by simp
    with 2 c pid tot holds_single [of p] show ?thesis
      by (intro exI [of _ "hm_insert i (hm_insert (pkt_n p) p []) (pending h)"])
        (auto simp: insert_packet_def act_simps collected_def hm_get_insert)
  next
    case 3
    with c obtain m where m: "hm_get (pending h) i = Some m" "holds m D"
      by (auto simp: collected_def)
    let ?m = "hm_or_insert (pkt_n p) p m"
    have h: "holds ?m (insert p D)" by (rule holds_insert [OF m(2) inj])
    have len: "length ?m = pkt_total_n p \<longleftrightarrow> insert p D = set ps"
      using holds_length [OF h inj] full tot by simp
    have asm: "assemble_packets E p ?m = Inr (from_bytes (e_message E) b)" if "insert p D = set ps"
      using assemble_packets_of [of ?m b i r p] h that tot by (simp add: ps_def)
    show ?thesis
    proof (intro exI [of _ "hm_insert i ?m (pending h)"] conjI)
      show "insert_packet E p src h = (Inr (), (if insert p D = set ps then deliver E b src else id)
          (h\<lparr>pending := hm_insert i ?m (pending h)\<rparr>))"
        using m(1) pid len asm
        by (auto simp: insert_packet_def act_simps Let_def deliver_def split: option.split)
    qed (use h 3 in \<open>auto simp: collected_def hm_get_insert\<close>)
  qed
qed

lemma insert_packets_run:
  fixes b :: bytes and i :: inner_key and r :: u8
  defines "ps \<equiv> packets_of E b i r"
  assumes "set qs \<subseteq> set ps" and "D \<subseteq> set ps" and "collected ps (hm_get (pending h) i) D"
  shows "\<exists>pend. act_each qs (\<lambda>p. insert_packet E p src) h =
      (Inr (), (deliver E b src ^^ completions (set ps) D qs) (h\<lparr>pending := pend\<rparr>)) \<and>
    collected ps (hm_get pend i) (D \<union> set qs) \<and>
    (\<forall>k. k \<noteq> i \<longrightarrow> hm_get pend k = hm_get (pending h) k)"
  using assms(2-)
proof (induction qs arbitrary: D h)
  case Nil
  then show ?case by (intro exI [of _ "pending h"]) (simp add: act_simps)
next
  case (Cons q qs)
  have q: "q \<in> set (packets_of E b i r)" "D \<subseteq> set (packets_of E b i r)"
    "collected (packets_of E b i r) (hm_get (pending h) i) D"
    using Cons.prems by (simp_all add: ps_def)
  obtain pend where s: "insert_packet E q src h =
      (Inr (), (if insert q D = set ps then deliver E b src else id) (h\<lparr>pending := pend\<rparr>))"
    "collected ps (hm_get pend i) (insert q D)" "\<And>k. k \<noteq> i \<Longrightarrow> hm_get pend k = hm_get (pending h) k"
    using insert_packet_step [OF q, of src] unfolding ps_def by blast
  let ?h = "(if insert q D = set ps then deliver E b src else id) (h\<lparr>pending := pend\<rparr>)"
  have "pending ?h = pend" by simp
  with Cons.IH [of "insert q D" ?h] Cons.prems s obtain pend' where
    r: "act_each qs (\<lambda>p. insert_packet E p src) ?h =
      (Inr (), (deliver E b src ^^ completions (set ps) (insert q D) qs) (?h\<lparr>pending := pend'\<rparr>))"
    "collected ps (hm_get pend' i) (insert q D \<union> set qs)" "\<And>k. k \<noteq> i \<Longrightarrow> hm_get pend' k = hm_get pend k"
    by auto
  have "act_each (q # qs) (\<lambda>p. insert_packet E p src) h =
      (Inr (), (deliver E b src ^^ completions (set ps) D (q # qs)) (h\<lparr>pending := pend'\<rparr>))"
    using s(1) r(1) by (auto simp: act_then_Inr funpow_swap1)
  with r s show ?case by (intro exI [of _ pend']) simp
qed

lemma insert_packets_once:
  assumes "as_bytes (e_message E) m = Some b" and "mset qs = mset (packets_of E b i r)"
    and "hm_get (pending h) i = None"
  shows "\<exists>pend. act_each qs (\<lambda>p. insert_packet E p src) h =
      (Inr (), (handle_message E m src h)\<lparr>pending := pend\<rparr>) \<and>
    (\<forall>k. k \<noteq> i \<longrightarrow> hm_get pend k = hm_get (pending h) k)"
proof -
  have "packets_of E b i r \<noteq> []" using packet_count_pos [of "length b"] by (auto simp flip: length_0_conv)
  moreover have qs: "distinct qs" "set qs = set (packets_of E b i r)"
    using assms(2) distinct_packets_of [of E b i r]
    by (auto dest: mset_eq_imp_distinct_iff mset_eq_setD)
  ultimately have c: "completions (set (packets_of E b i r)) {} qs = 1"
    by (intro completions_distinct) auto
  from message.dec_enc [OF assms(1)] have d: "deliver E b src h = handle_message E m src h"
    by (simp add: deliver_def)
  have "collected (packets_of E b i r) (hm_get (pending h) i) {}"
    using assms(3) by (simp add: collected_def)
  from insert_packets_run [OF _ _ this, of qs src] qs
  show ?thesis by (auto simp: c d)
qed

end

section \<open>Honest packets never make the handler panic\<close>

text \<open>
  A packet is honest when its text decodes, its number is between 1 and its total, and its total
  is the one \<open>T\<close> gives for its message.
\<close>

definition honest :: "env \<Rightarrow> (inner_key \<Rightarrow> nat) \<Rightarrow> packet \<Rightarrow> bool" where
  "honest E T p \<longleftrightarrow> 1 \<le> pkt_n p \<and> pkt_n p \<le> pkt_total_n p \<and> pkt_total_n p = T (pkt_id p) \<and>
     e_hex_decode E (pkt_bytes p) \<noteq> None"

definition pending_honest :: "env \<Rightarrow> (inner_key \<Rightarrow> nat) \<Rightarrow> handler \<Rightarrow> bool" where
  "pending_honest E T h \<longleftrightarrow> (\<forall>i m. hm_get (pending h) i = Some m \<longrightarrow>
     hm_wf m \<and> (\<forall>n p. hm_get m n = Some p \<longrightarrow> honest E T p \<and> pkt_id p = i \<and> pkt_n p = n))"

lemma assemble_loop_ok:
  "(\<And>n. n \<in> set ns \<Longrightarrow> \<exists>p. hm_get m n = Some p \<and> e_hex_decode E (pkt_bytes p) \<noteq> None) \<Longrightarrow>
   \<exists>b'. assemble_loop E m ns b = Inr b'"
proof (induction ns arbitrary: b)
  case (Cons n ns)
  then obtain p c where "hm_get m n = Some p" "e_hex_decode E (pkt_bytes p) = Some c" by fastforce
  moreover have "\<exists>b'. assemble_loop E m ns (b @ c) = Inr b'" by (rule Cons.IH) (rule Cons.prems, simp)
  ultimately show ?case by (simp add: hm_index_def unwrap_hex_def)
qed simp

lemma full_map:
  assumes "hm_wf m" and "\<And>n. n \<in> dom (hm_get m) \<Longrightarrow> 1 \<le> n \<and> n \<le> t" and "length m = t"
  shows "dom (hm_get m) = {1..t}"
proof (rule card_subset_eq)
  show "card (dom (hm_get m)) = card {1..t}" using assms(1,3) hm_length [of m] by simp
  show "dom (hm_get m) \<subseteq> {1..t}" using assms(2) by (meson atLeastAtMost_iff subsetI)
qed simp

lemma insert_packet_honest:
  assumes p: "honest E T p" and h: "pending_honest E T h"
  shows "\<exists>h'. insert_packet E p src h = (Inr (), h') \<and> pending_honest E T h'"
proof (cases "hm_get (pending h) (pkt_id p)")
  case None
  obtain c where "e_hex_decode E (pkt_bytes p) = Some c" using p by (auto simp: honest_def)
  with None p h show ?thesis
    by (auto simp: insert_packet_def act_simps unwrap_hex_def pending_honest_def hm_get_insert
        split: option.split)
next
  case (Some m)
  let ?m = "hm_or_insert (pkt_n p) p m"
  have m: "hm_wf ?m" "\<And>n q. hm_get ?m n = Some q \<Longrightarrow> honest E T q \<and> pkt_id q = pkt_id p \<and> pkt_n q = n"
    using Some h p by (auto simp: pending_honest_def hm_get_or_insert split: option.splits if_splits)
  have "\<exists>x. assemble_packets E p ?m = Inr x" if len: "length ?m = pkt_total_n p"
  proof -
    have "1 \<le> n \<and> n \<le> pkt_total_n p" if "n \<in> dom (hm_get ?m)" for n
      using that m(2) p by (force simp: honest_def)
    from full_map [OF m(1) this len] have "\<exists>q. hm_get ?m n = Some q" if "n \<in> {1..pkt_total_n p}" for n
      using that by blast
    then have "\<exists>q. hm_get ?m n = Some q \<and> e_hex_decode E (pkt_bytes q) \<noteq> None"
      if "n \<in> set [1..<Suc (pkt_total_n p)]" for n
      using that m(2) by (fastforce simp: honest_def)
    from assemble_loop_ok [OF this, of "[1..<Suc (pkt_total_n p)]" "[]"] show ?thesis
      by (auto simp: assemble_packets_def simp del: upt_Suc)
  qed
  then show ?thesis using Some m h
    by (auto simp: insert_packet_def act_simps Let_def pending_honest_def hm_get_insert
        split: option.split)
qed

lemma insert_packets_honest:
  assumes "list_all (honest E T) ps" and "pending_honest E T h"
  shows "\<exists>h'. act_each ps (\<lambda>p. insert_packet E p src) h = (Inr (), h') \<and> pending_honest E T h'"
  using assms(2)
  by (rule act_each_inv) (use assms(1) insert_packet_honest in \<open>auto simp: list_all_iff\<close>)

section \<open>What no datagram changes\<close>

text \<open>Packets are collected under their own id and number; no message has an empty collection.\<close>

definition pending_ok :: "(inner_key, (nat, packet) hmap) hmap \<Rightarrow> bool" where
  "pending_ok pend \<longleftrightarrow> hm_wf pend \<and> (\<forall>i m. hm_get pend i = Some m \<longrightarrow>
     m \<noteq> [] \<and> hm_wf m \<and> (\<forall>n p. hm_get m n = Some p \<longrightarrow> pkt_id p = i \<and> pkt_n p = n))"

text \<open>The invariant is kept and what was sent on the four channels stays sent.\<close>

definition hd_keeps :: "handler \<Rightarrow> handler \<Rightarrow> bool" where
  "hd_keeps h h' \<longleftrightarrow> (pending_ok (pending h) \<longrightarrow> pending_ok (pending h')) \<and>
     ch_open (om_tx h') = ch_open (om_tx h) \<and> ch_open (ia_tx h') = ch_open (ia_tx h) \<and>
     ch_open (kad_tx h') = ch_open (kad_tx h) \<and> ch_open (gossip_tx h') = ch_open (gossip_tx h) \<and>
     prefix (ch_queue (om_tx h)) (ch_queue (om_tx h')) \<and> prefix (ch_queue (ia_tx h)) (ch_queue (ia_tx h')) \<and>
     prefix (ch_queue (kad_tx h)) (ch_queue (kad_tx h')) \<and>
     prefix (ch_queue (gossip_tx h)) (ch_queue (gossip_tx h'))"

interpretation hdf: frame hd_keeps
  by unfold_locales (auto simp: hd_keeps_def)

definition filed_under :: "inner_key \<Rightarrow> (nat, packet) hmap \<Rightarrow> bool" where
  "filed_under i m \<longleftrightarrow> m \<noteq> [] \<and> hm_wf m \<and> (\<forall>n p. hm_get m n = Some p \<longrightarrow> pkt_id p = i \<and> pkt_n p = n)"

lemma pending_ok_iff: "pending_ok pend \<longleftrightarrow> hm_wf pend \<and> (\<forall>i m. hm_get pend i = Some m \<longrightarrow> filed_under i m)"
  by (simp add: pending_ok_def filed_under_def)

lemma pending_ok_put: "pending_ok pend \<Longrightarrow> filed_under i m \<Longrightarrow> pending_ok (hm_insert i m pend)"
  by (simp add: pending_ok_iff hm_get_insert)

lemma filed_under_insert:
  assumes "m = [] \<or> filed_under (pkt_id p) m"
  shows "filed_under (pkt_id p) (hm_insert (pkt_n p) p m)"
  using assms hm_length_insert [of m "pkt_n p" p]
  by (auto simp: filed_under_def hm_get_insert simp flip: length_greater_0_conv split: if_splits)

lemma filed_under_or_insert:
  "filed_under (pkt_id p) m \<Longrightarrow> filed_under (pkt_id p) (hm_or_insert (pkt_n p) p m)"
  by (cases "hm_get m (pkt_n p)") (simp_all add: hm_or_insert_def filed_under_insert)

lemma pending_ok_insert:
  "pending_ok pend \<Longrightarrow> hm_get pend (pkt_id p) = Some m \<Longrightarrow>
   pending_ok (hm_insert (pkt_id p) (hm_or_insert (pkt_n p) p m) pend)"
  by (rule pending_ok_put) (simp_all add: filed_under_or_insert pending_ok_iff)

lemma pending_ok_new: "pending_ok pend \<Longrightarrow> pending_ok (hm_insert (pkt_id p) (hm_insert (pkt_n p) p []) pend)"
  by (rule pending_ok_put) (simp_all add: filed_under_insert)

lemma framed_handle: "framed hd_keeps (act_modify (handle_message E m src))"
  by (rule hdf.framed_modify)
    (auto simp: handle_message_def hd_keeps_def chan_send_prefix split: header.split option.split)

text \<open>Assembling or decoding may panic; what it yields is routed.\<close>

lemma framed_routed:
  "framed hd_keeps (act_bind (act_lift r) (\<lambda>x. case f x of
     Some m \<Rightarrow> act_modify (handle_message E m src) | None \<Rightarrow> act_ret ()))"
  by (auto intro!: hdf.framed_rules framed_handle split: option.split)

lemma framed_insert_packet: "framed hd_keeps (insert_packet E p src)"
proof (rule framedI)
  fix h
  note handle = framed_routed [unfolded framed_def, rule_format]
  show "hd_keeps h (snd (insert_packet E p src h))"
  proof (cases "hm_get (pending h) (pkt_id p)")
    case None
    have "hd_keeps h (h\<lparr>pending := hm_insert (pkt_id p) (hm_insert (pkt_n p) p []) (pending h)\<rparr>)"
      by (auto simp: hd_keeps_def pending_ok_new)
    with None handle [where f = "from_bytes (e_message E)"] show ?thesis
      by (auto simp: insert_packet_def act_bind_apply [of "act_get pending"] act_apply)
  next
    case (Some m)
    let ?m = "hm_or_insert (pkt_n p) p m"
    let ?h = "h\<lparr>pending := hm_insert (pkt_id p) ?m (pending h)\<rparr>"
    have ins: "hd_keeps h ?h"
      using Some by (auto simp: hd_keeps_def pending_ok_insert)
    moreover from this handle [where f = "\<lambda>x. x" and r = "assemble_packets E p ?m"]
    have "hd_keeps h (snd (act_bind (act_lift (assemble_packets E p ?m)) (\<lambda>x. case x of
        Some m \<Rightarrow> act_modify (handle_message E m src) | None \<Rightarrow> act_ret ()) ?h))"
      by (rule hdf.frame_trans)
    ultimately show ?thesis using Some
      by (auto simp: insert_packet_def act_bind_apply [of "act_get pending"] act_then_apply act_apply Let_def)
  qed
qed

lemma framed_recv_msg: "framed hd_keeps (recv_msg E res local)"
proof -
  have "framed hd_keeps (act_modify (\<lambda>h. h\<lparr>om_tx := chan_send x (om_tx h)\<rparr>))" for x
    by (rule hdf.framed_modify) (auto simp: hd_keeps_def chan_send_prefix)
  then have "framed hd_keeps (process_packet E local buf amt src)" for buf amt src
    unfolding process_packet_def Let_def by (auto intro!: hdf.framed_rules split: option.split)
  then show ?thesis
    unfolding recv_msg_def by (auto intro!: hdf.framed_rules framed_insert_packet split: option.split prod.split)
qed

section \<open>When the assembly panics\<close>

lemma assemble_loop_panics:
  "isl (assemble_loop E m ns b) \<longleftrightarrow>
     (\<exists>n \<in> set ns. case hm_get m n of None \<Rightarrow> True | Some q \<Rightarrow> e_hex_decode E (pkt_bytes q) = None)"
  by (induction ns arbitrary: b) (auto simp: hm_index_def unwrap_hex_def split: option.split)

text \<open>As many entries as numbers: one of the numbers is missing exactly when there is an entry too many.\<close>

lemma assemble_packets_panics:
  assumes "hm_wf m" and "length m = pkt_total_n p"
  shows "isl (assemble_packets E p m) \<longleftrightarrow>
    (\<exists>n q. hm_get m n = Some q \<and> (n \<notin> {1..pkt_total_n p} \<or> e_hex_decode E (pkt_bytes q) = None))"
proof -
  let ?N = "{1..pkt_total_n p}" and ?bad = "\<lambda>n. case hm_get m n of None \<Rightarrow> True | Some q \<Rightarrow> e_hex_decode E (pkt_bytes q) = None"
  have card: "card (dom (hm_get m)) = card ?N" using hm_length [OF assms(1)] assms(2) by simp
  have "hm_get m = map_of m" by (rule ext) (simp add: hm_get_def)
  then have fin: "finite (dom (hm_get m))" by (simp add: finite_dom_map_of)
  have "?N \<subseteq> dom (hm_get m) \<longleftrightarrow> dom (hm_get m) \<subseteq> ?N"
    using card_subset_eq [OF fin, of ?N] card_subset_eq [of ?N "dom (hm_get m)"] card by auto
  then have missing: "(\<exists>n \<in> ?N. hm_get m n = None) \<longleftrightarrow> (\<exists>n q. hm_get m n = Some q \<and> n \<notin> ?N)"
    unfolding subset_iff domIff by (metis not_Some_eq)
  have "(\<exists>n \<in> ?N. ?bad n) \<longleftrightarrow> (\<exists>n \<in> ?N. hm_get m n = None) \<or>
      (\<exists>n \<in> ?N. \<exists>q. hm_get m n = Some q \<and> e_hex_decode E (pkt_bytes q) = None)"
    unfolding bex_disj_distrib [symmetric] by (rule bex_cong [OF refl]) (simp split: option.split)
  then have "(\<exists>n \<in> ?N. ?bad n) \<longleftrightarrow> (\<exists>n q. hm_get m n = Some q \<and> (n \<notin> ?N \<or> e_hex_decode E (pkt_bytes q) = None))"
    unfolding missing by blast
  moreover have "isl (assemble_packets E p m) \<longleftrightarrow> isl (assemble_loop E m [1..<Suc (pkt_total_n p)] [])"
    by (cases "assemble_loop E m [1..<Suc (pkt_total_n p)] []") (simp_all add: assemble_packets_def del: upt_Suc)
  moreover have "set [1..<Suc (pkt_total_n p)] = ?N" by auto
  ultimately show ?thesis by (simp only: assemble_loop_panics)
qed

section \<open>Properties\<close>

text \<open>
  C17: the packets of a message arriving at a handler that has no packet of that id
  in any order, with repetitions and omissions, make it handle the message once for every arrival
  at which all packets have been seen: every duplicate that arrives after the message is complete
  delivers it again. The packets of other messages are untouched, and unless the message is a
  single packet its entry stays in the table of pending packets.
\<close>

theorem redelivery_count:
  assumes "wire E" and "as_bytes (e_message E) m = Some b" and "packetize E b i r = Inr ps"
    and "set qs \<subseteq> set ps" and "hm_get (pending h) i = None"
  shows "\<exists>pend. act_each qs (\<lambda>p. insert_packet E p src) h =
      (Inr (), ((handle_message E m src ^^ completions (set ps) {} qs) h)\<lparr>pending := pend\<rparr>) \<and>
    (\<forall>k. k \<noteq> i \<longrightarrow> hm_get pend k = hm_get (pending h) k) \<and>
    (hm_get pend i = None \<longleftrightarrow> qs = [] \<or> length ps = 1)"
proof -
  have ps: "ps = packets_of E b i r" using assms(3) by (simp add: packetize_eq)
  have "codec (as_bytes (e_message E)) (from_bytes (e_message E))"
    using assms(1) by (simp add: wire_def serde_codec)
  from codec.dec_enc [OF this assms(2)] have d: "deliver E b src = handle_message E m src"
    by (simp add: deliver_def fun_eq_iff)
  have "collected (packets_of E b i r) (hm_get (pending h) i) {}"
    using assms(5) by (simp add: collected_def)
  from wire.insert_packets_run [OF assms(1) _ _ this, of qs src] assms(4)
  obtain pend where r: "act_each qs (\<lambda>p. insert_packet E p src) h =
      (Inr (), (deliver E b src ^^ completions (set ps) {} qs) (h\<lparr>pending := pend\<rparr>))"
    "collected ps (hm_get pend i) (set qs)" "\<And>k. k \<noteq> i \<Longrightarrow> hm_get pend k = hm_get (pending h) k"
    by (auto simp: ps)
  have "hm_get pend i = None \<longleftrightarrow> qs = [] \<or> length ps = 1"
    using r(2) by (auto simp: collected_def split: if_splits)
  with r show ?thesis by (intro exI [of _ pend]) (simp add: d [symmetric])
qed

text \<open>
  C12: the packets of a message, each arriving once and in any order at a
  handler that has no packet of that id, make it handle exactly that message, once; nothing
  panics and the packets collected for other messages are untouched.
\<close>

theorem reassembly_any_order:
  assumes "wire E" and "as_bytes (e_message E) m = Some b" and "packetize E b i r = Inr ps"
    and "mset qs = mset ps" and "hm_get (pending h) i = None"
  shows "\<exists>pend. act_each qs (\<lambda>p. insert_packet E p src) h =
      (Inr (), (handle_message E m src h)\<lparr>pending := pend\<rparr>) \<and>
    (\<forall>k. k \<noteq> i \<longrightarrow> hm_get pend k = hm_get (pending h) k)"
proof -
  have ps: "ps = packets_of E b i r" using assms(3) by (simp add: packetize_eq)
  from wire.insert_packets_once [OF assms(1,2) _ assms(5), of qs r] assms(4) show ?thesis
    by (simp add: ps)
qed

text \<open>
  Packets whose text decodes, whose number lies between 1 and their total
  and whose total agrees with the other packets of the same id never make the handler panic,
  however the packets of different messages are interleaved, repeated or lost.
\<close>

theorem honest_packets_safe:
  assumes "list_all (honest E T) qs"
  shows "fst (act_each qs (\<lambda>p. insert_packet E p src) (handler_new om ia [] kt gt)) = Inr ()"
proof -
  have "pending_honest E T (handler_new om ia [] kt gt)"
    by (simp add: pending_honest_def handler_new_def)
  from insert_packets_honest [OF assms this, of src] show ?thesis by auto
qed

text \<open>
  C34: which packets make the handler panic, whatever it has collected so far: a packet that
  announces itself as the only one of its message does exactly when its text is not hexadecimal; one
  of a message with packets in the table does exactly when it brings their count up to its own
  total while one of them has a number that is not between 1 and the total, or a text that is not
  hexadecimal. The count is compared with the total, the numbers are not.
\<close>

theorem reassembly_panics:
  assumes "pending_ok (pending h)"
  shows "isl (fst (insert_packet E p src h)) \<longleftrightarrow>
    (case hm_get (pending h) (pkt_id p) of
       None \<Rightarrow> pkt_total_n p = 1 \<and> e_hex_decode E (pkt_bytes p) = None
     | Some m \<Rightarrow> (let m' = hm_or_insert (pkt_n p) p m in length m' = pkt_total_n p \<and>
         (\<exists>n q. hm_get m' n = Some q \<and> (n \<notin> {1..pkt_total_n p} \<or> e_hex_decode E (pkt_bytes q) = None))))"
proof (cases "hm_get (pending h) (pkt_id p)")
  case None
  then show ?thesis by (auto simp: insert_packet_def act_simps unwrap_hex_def split: option.split)
next
  case (Some m)
  let ?m = "hm_or_insert (pkt_n p) p m"
  have "hm_wf ?m" using assms Some by (auto simp: pending_ok_def)
  then have "isl (assemble_packets E p ?m) \<longleftrightarrow>
      (\<exists>n q. hm_get ?m n = Some q \<and> (n \<notin> {1..pkt_total_n p} \<or> e_hex_decode E (pkt_bytes q) = None))"
    if "length ?m = pkt_total_n p" using assemble_packets_panics that by blast
  moreover have "isl (fst (insert_packet E p src h)) \<longleftrightarrow> length ?m = pkt_total_n p \<and> isl (assemble_packets E p ?m)"
    using Some by (auto simp: insert_packet_def act_simps Let_def split: sum.splits option.split)
  ultimately show ?thesis using Some by (auto simp: Let_def)
qed

text \<open>
  A datagram that encodes a packet (whatever follows it in the buffer) yields that
  packet, and one acknowledgement with its id, its number and the text of the local address is
  queued for the sender exactly when the packet asks for a receipt.
\<close>

theorem receipt_queued:
  assumes "wire E" and "as_bytes (e_packet E) p = Some b" and "ch_open (om_tx h)"
  shows "\<exists>a. as_bytes (e_ack E) \<lparr>ack_packet_id = pkt_id p, ack_packet_number = pkt_n p,
              ack_src = str_bytes (addr_to_string local)\<rparr> = Some a \<and>
    process_packet E local (b @ junk) (length b) src h =
      (Inr (Some p),
       h\<lparr>om_tx := (om_tx h)\<lparr>ch_queue := ch_queue (om_tx h) @
          (if pkt_ret p = RETURN_RECEIPT then [(src, \<lparr>head = Ack, msg = a\<rparr>)] else [])\<rparr>\<rparr>)"
proof -
  have "codec (as_bytes (e_packet E)) (from_bytes (e_packet E))"
    and a: "codec (as_bytes (e_ack E)) (from_bytes (e_ack E))"
    using assms(1) by (simp_all add: wire_def serde_codec)
  then have "from_bytes (e_packet E) b = Some p" using assms(2) by (simp add: codec.dec_enc)
  moreover have "slice (b @ junk) 0 (length b) = Inr b" by (simp add: slice_def)
  moreover obtain a where "as_bytes (e_ack E) \<lparr>ack_packet_id = pkt_id p,
      ack_packet_number = pkt_n p, ack_src = str_bytes (addr_to_string local)\<rparr> = Some a"
    using codec.round_trip [OF a] by blast
  ultimately show ?thesis
    using assms(3) by (auto simp: process_packet_def act_simps Let_def chan_send_def)
qed

text \<open>
  An encoded request or response goes to the discovery channel, an encoded
  acknowledgement to the acknowledgement channel and a gossip message, undecoded, to the gossip
  channel; no other channel and no pending packet changes.
\<close>

theorem message_routing:
  assumes "wire E" and "as_bytes (e_kad E) k = Some kb" and "as_bytes (e_ack E) a = Some ab"
  shows "handle_message E \<lparr>head = Request, msg = kb\<rparr> src h = h\<lparr>kad_tx := chan_send (src, k) (kad_tx h)\<rparr> \<and>
    handle_message E \<lparr>head = Response, msg = kb\<rparr> src h = h\<lparr>kad_tx := chan_send (src, k) (kad_tx h)\<rparr> \<and>
    handle_message E \<lparr>head = Ack, msg = ab\<rparr> src h = h\<lparr>ia_tx := chan_send a (ia_tx h)\<rparr> \<and>
    handle_message E \<lparr>head = Gossip, msg = gb\<rparr> src h =
      h\<lparr>gossip_tx := chan_send (src, \<lparr>head = Gossip, msg = gb\<rparr>) (gossip_tx h)\<rparr>"
proof -
  have k: "codec (as_bytes (e_kad E)) (from_bytes (e_kad E))"
    and a: "codec (as_bytes (e_ack E)) (from_bytes (e_ack E))"
    using assms(1) by (simp_all add: wire_def serde_codec)
  from codec.dec_enc [OF k assms(2)] codec.dec_enc [OF a assms(3)] show ?thesis
    by (simp add: handle_message_def)
qed

section \<open>Concrete instances\<close>

definition demo_message :: message where
  "demo_message = \<lparr>head = Gossip, msg = replicate 3000 7\<rparr>"

definition demo_handler :: handler where
  "demo_handler = handler_new chan_new chan_new [] chan_new chan_new"

lemma demo_handler_simps [simp]:
  "hm_get (pending demo_handler) i = None" "ch_open (om_tx demo_handler)"
  by (simp_all add: demo_handler_def handler_new_def)

text \<open>Two packets that agree on an id and a total of two but are numbered 1 and 3.\<close>

definition demo_forged :: "nat \<Rightarrow> packet" where
  "demo_forged n = \<lparr>pkt_id = arr_of [7], pkt_n = n, pkt_total_n = 2, pkt_bytes = ref_hex_encode [1], pkt_ret = 1\<rparr>"

theorem reassembly_panics_witness:
  "fst (insert_packet ref_env (demo_forged 1) demo_addr demo_handler) = Inr () \<and>
   isl (fst (insert_packet ref_env (demo_forged 3) demo_addr (snd (insert_packet ref_env (demo_forged 1) demo_addr demo_handler))))"
proof -
  let ?h = "snd (insert_packet ref_env (demo_forged 1) demo_addr demo_handler)"
  have first: "insert_packet ref_env (demo_forged 1) demo_addr demo_handler =
      (Inr (), demo_handler\<lparr>pending := [(arr_of [7], [(1, demo_forged 1)])]\<rparr>)"
    by (simp add: insert_packet_def act_simps demo_forged_def demo_handler_def handler_new_def hm_insert_def hm_get_def)
  have table: "pending ?h = [(arr_of [7], [(1, demo_forged 1)])]" unfolding first by simp
  have "pending_ok (pending ?h)"
    unfolding table by (auto simp: pending_ok_def hm_wf_def hm_get_def demo_forged_def split: if_splits)
  from reassembly_panics [OF this, of ref_env "demo_forged 3" demo_addr] have "isl (fst (insert_packet ref_env (demo_forged 3) demo_addr ?h))"
    unfolding table by (auto simp: hm_get_def hm_or_insert_def hm_insert_def demo_forged_def Let_def)
  with first show ?thesis by simp
qed

theorem redelivery_count_witness:
  "let b = the (as_bytes (e_message ref_env) demo_message) in
   (\<exists>pend. act_each (rev (packets_of ref_env b (arr_of [5]) 1))
        (\<lambda>p. insert_packet ref_env p demo_addr) demo_handler =
      (Inr (), ((handle_message ref_env demo_message demo_addr ^^
         completions (set (packets_of ref_env b (arr_of [5]) 1)) {}
           (rev (packets_of ref_env b (arr_of [5]) 1))) demo_handler)\<lparr>pending := pend\<rparr>))"
  using redelivery_count [OF ref.wire_axioms ref.message.enc_Some packetize_eq,
      of "rev (packets_of ref_env (the (as_bytes (e_message ref_env) demo_message)) (arr_of [5]) 1)"
        demo_message "arr_of [5]" 1 demo_handler demo_addr]
  by (auto simp: Let_def)

theorem reassembly_any_order_witness:
  "let b = the (as_bytes (e_message ref_env) demo_message) in
   (\<exists>pend. act_each (rev (packets_of ref_env b (arr_of [5]) 1))
        (\<lambda>p. insert_packet ref_env p demo_addr) demo_handler =
      (Inr (), (handle_message ref_env demo_message demo_addr demo_handler)\<lparr>pending := pend\<rparr>))"
  using reassembly_any_order [OF ref.wire_axioms ref.message.enc_Some packetize_eq,
      of "rev (packets_of ref_env (the (as_bytes (e_message ref_env) demo_message)) (arr_of [5]) 1)"
        demo_message "arr_of [5]" 1 demo_handler demo_addr]
  by (auto simp: Let_def)

theorem honest_packets_safe_witness:
  "list_all (honest ref_env (\<lambda>_. 1)) [demo_packet] \<and>
   fst (act_each [demo_packet] (\<lambda>p. insert_packet ref_env p demo_addr)
     (handler_new chan_new chan_new [] chan_new chan_new)) = Inr ()"
proof -
  have h: "list_all (honest ref_env (\<lambda>_. 1)) [demo_packet]"
    using ref.hexa.dec_enc [of "[104, 105]" "e_hex_encode ref_env [104, 105]"]
    by (simp add: honest_def demo_packet_def)
  from h honest_packets_safe [OF h] show ?thesis by blast
qed

theorem receipt_queued_witness:
  "\<exists>a. process_packet ref_env demo_addr (the (as_bytes (e_packet ref_env) demo_packet) @ [0, 0])
        (length (the (as_bytes (e_packet ref_env) demo_packet))) demo_addr demo_handler =
     (Inr (Some demo_packet),
      demo_handler\<lparr>om_tx := (om_tx demo_handler)\<lparr>ch_queue := [(demo_addr, \<lparr>head = Ack, msg = a\<rparr>)]\<rparr>\<rparr>)"
  using receipt_queued [OF ref.wire_axioms ref.packet.enc_Some, of demo_handler demo_packet demo_addr
      "[0, 0]" demo_addr]
  by (auto simp: demo_packet_def) (simp add: demo_handler_def handler_new_def chan_new_def)

theorem message_routing_witness:
  "handle_message ref_env \<lparr>head = Request, msg = the (as_bytes (e_kad ref_env) Kill)\<rparr> demo_addr demo_handler =
     demo_handler\<lparr>kad_tx := chan_send (demo_addr, Kill) (kad_tx demo_handler)\<rparr>"
  using message_routing [OF ref.wire_axioms ref.kad.enc_Some ref.ack.enc_Some, of Kill demo_addr demo_handler]
  by blast

end
