(* ===== verification/Transport.thy ===== *)
theory Transport
  imports Handler
begin

text \<open>
  The transport layer (\<open>src/transport/transport.rs\<close>): it takes outgoing messages from their
  channel, cuts them into packets and sends these, acknowledgements once and all other messages
  through the reliable-delivery layer, and feeds incoming acknowledgements to that layer.

  Proved: what one call sends and records, and what an incoming receipt settles.
\<close>

section \<open>State\<close>

record transport =
  tr_gd_udp :: gd_udp
  ia_rx :: "ack_message chan"
  om_rx :: "(socket_addr \<times> message) chan"

type_synonym trs = "transport \<times> sock"

definition transport_new ::
    "socket_addr \<Rightarrow> ack_message chan \<Rightarrow> (socket_addr \<times> message) chan \<Rightarrow> nat \<Rightarrow> transport" where
  "transport_new addr ia om now = \<lparr>tr_gd_udp = gd_udp_new addr now, ia_rx = ia, om_rx = om\<rparr>"

text \<open>A call on the \<open>gd_udp\<close> field and the socket.\<close>

definition on_gd :: "(gds, 'a) act \<Rightarrow> (trs, 'a) act" where
  "on_gd = act_zoom (\<lambda>(tr, sk). (tr_gd_udp tr, sk)) (\<lambda>(g, sk) (tr, _). (tr\<lparr>tr_gd_udp := g\<rparr>, sk))"

section \<open>Operations\<close>

definition incoming_ack :: "(transport, unit) act" where
  "incoming_ack =
     act_bind (act_get (\<lambda>tr. chan_try_recv (ia_rx tr))) (\<lambda>(x, c).
     act_then (act_modify (\<lambda>tr. tr\<lparr>ia_rx := c\<rparr>))
      (case x of
         Some ack \<Rightarrow>
           act_bind (act_get (\<lambda>tr. hm_contains (gd_outbox (tr_gd_udp tr)) (ack_packet_id ack))) (\<lambda>exists.
             if exists
             then act_zoom tr_gd_udp (\<lambda>g tr. tr\<lparr>tr_gd_udp := g\<rparr>)
                    (process_ack (ack_packet_id ack) (ack_packet_number ack) (ack_src ack))
             else act_ret ())
       | None \<Rightarrow> act_ret ()))"

definition vec_index :: "'a list \<Rightarrow> nat \<Rightarrow> panic + 'a" where
  "vec_index xs i = (if i < length xs then Inr (xs ! i) else Inl IndexOutOfBounds)"

definition unwrap_parse :: "'a option \<Rightarrow> panic + 'a" where
  "unwrap_parse x = (case x of Some a \<Rightarrow> Inr a | None \<Rightarrow> Inl UnwrapErr)"

definition parse_u32 :: "string \<Rightarrow> nat option" where
  "parse_u32 s = (case read_nat s of Some n \<Rightarrow> if n < 2 ^ 32 then Some n else None | None \<Rightarrow> None)"

text \<open>
  The destination of a reliable message: a peer whose host is the local one is reached over the
  loopback interface at its port.
\<close>

definition reliable_dest :: "socket_addr \<Rightarrow> socket_addr \<Rightarrow> panic + socket_addr" where
  "reliable_dest local src =
     (let split_local = split_on CHR '':'' (addr_to_string local);
          split_peer = split_on CHR '':'' (addr_to_string src) in
      res_bind (vec_index split_local 0) (\<lambda>l.
      res_bind (vec_index split_peer 0) (\<lambda>p.
      if l = p
      then res_bind (unwrap_parse (parse_ip ''127.0.0.1'')) (\<lambda>new_ip.
           res_bind (vec_index split_peer 1) (\<lambda>s.
           res_bind (unwrap_parse (parse_u32 s)) (\<lambda>port.
           unwrap_parse (parse_addr (format_addr new_ip port)))))
      else Inr src)))"

text \<open>\<open>t\<close> is the position in the random source at which the id of the packets is drawn.\<close>

definition outgoing_msg :: "env \<Rightarrow> nat \<Rightarrow> (trs, unit) act" where
  "outgoing_msg E t =
     act_bind (act_get (\<lambda>(tr, sk). chan_try_recv (om_rx tr))) (\<lambda>(x, c).
     act_then (act_modify (\<lambda>(tr, sk). (tr\<lparr>om_rx := c\<rparr>, sk)))
      (case x of
         None \<Rightarrow> act_ret ()
       | Some (src, m) \<Rightarrow>
           let packets_id = inner (message_key_rand (e_rand E) t) in
           if head m = Ack
           then act_bind (act_unwrap (as_bytes (e_message E) m)) (\<lambda>b.
                act_bind (act_lift (packetize E b packets_id 0)) (\<lambda>packets.
                act_each packets (\<lambda>packet.
                  act_bind (act_unwrap (as_bytes (e_packet E) packet)) (\<lambda>d.
                  act_modify (\<lambda>(tr, sk). (tr, sock_send d src sk))))))
           else act_bind (act_get (\<lambda>(tr, sk). gd_addr (tr_gd_udp tr))) (\<lambda>local.
                act_bind (act_unwrap (as_bytes (e_message E) m)) (\<lambda>b.
                act_bind (act_lift (packetize E b packets_id 1)) (\<lambda>packets.
                act_each packets (\<lambda>packet.
                  act_bind (act_lift (reliable_dest local src)) (\<lambda>dest.
                  on_gd (send_reliable E dest packet))))))))"

definition check_time_elapsed :: "env \<Rightarrow> nat \<Rightarrow> nat \<Rightarrow> (trs, unit) act" where
  "check_time_elapsed E now now' = on_gd (gd_check_time_elapsed E now now')"

section \<open>Destinations\<close>

definition loopback :: ipv4 where
  "loopback = Ipv4 127 0 0 1"

definition dest_of :: "socket_addr \<Rightarrow> socket_addr \<Rightarrow> socket_addr" where
  "dest_of local src =
     (if addr_ip local = addr_ip src then SocketAddrV4 loopback (addr_port src) else src)"

lemma parse_loopback: "parse_ip ''127.0.0.1'' = Some loopback"
  by code_simp

lemma reliable_dest_eq: "reliable_dest local src = Inr (dest_of local src)"
proof -
  have "unat (addr_port src) < 65536" by simp
  moreover have "unat (addr_port src) < 2 ^ 32" by (rule order_less_trans [OF unat_u16_less]) simp
  ultimately show ?thesis
    by (simp add: reliable_dest_def vec_index_def unwrap_parse_def parse_loopback parse_u32_def
        parse_format_addr dest_of_def)
qed

section \<open>The effect of sending\<close>

lemma on_gd_apply:
  "on_gd m (tr, sk) = (fst (m (tr_gd_udp tr, sk)),
     (tr\<lparr>tr_gd_udp := fst (snd (m (tr_gd_udp tr, sk)))\<rparr>, snd (snd (m (tr_gd_udp tr, sk)))))"
  by (simp add: on_gd_def act_zoom_apply case_prod_unfold)

lemma on_gd_ret: "on_gd (act_ret a) = act_ret a"
  by (rule ext) (clarsimp simp: on_gd_apply act_apply)

lemma on_gd_then: "on_gd (act_then m k) = act_then (on_gd m) (on_gd k)"
  by (rule ext) (clarsimp simp: on_gd_apply act_then_apply split: prod.splits sum.splits)

lemma act_each_on_gd: "act_each xs (\<lambda>x. on_gd (f x)) = on_gd (act_each xs f)"
  by (induction xs) (simp_all add: on_gd_ret on_gd_then)

definition to_dest :: "socket_addr \<Rightarrow> packet list \<Rightarrow> (socket_addr \<times> packet) list" where
  "to_dest d ps = map (\<lambda>p. (d, p)) ps"

lemma each_send_on_gd:
  assumes "sk_ttl_ok sk"
  shows "act_each ps (\<lambda>p. on_gd (send_reliable E d p)) (tr, sk) =
    (Inr (), (tr\<lparr>tr_gd_udp := (tr_gd_udp tr)\<lparr>gd_outbox :=
                fold (record_send d) ps (gd_outbox (tr_gd_udp tr))\<rparr>\<rparr>,
              fold (datagram E) (to_dest d ps) sk))"
proof -
  have "act_each ps (\<lambda>p. send_reliable E d p) =
      act_each (to_dest d ps) (\<lambda>(peer, packet). send_reliable E peer packet)"
    by (simp add: to_dest_def act_each_map)
  moreover have "fold (\<lambda>(a, p). record_send a p) (to_dest d ps) = fold (record_send d) ps"
    by (simp add: to_dest_def fold_map comp_def)
  ultimately show ?thesis
    using assms by (simp add: act_each_on_gd on_gd_apply act_each_send fold_send_state)
qed

lemma outgoing_reliable:
  fixes t :: nat and b :: bytes and src :: socket_addr and tr :: transport
  assumes "ch_queue (om_rx tr) = (src, m) # rest" and "head m \<noteq> Ack" and "sk_ttl_ok sk"
    and "as_bytes (e_message E) m = Some b"
  defines "ps \<equiv> packets_of E b (rand_arr (e_rand E) t) 1"
    and "d \<equiv> dest_of (gd_addr (tr_gd_udp tr)) src"
  shows "outgoing_msg E t (tr, sk) =
    (Inr (), (tr\<lparr>om_rx := (om_rx tr)\<lparr>ch_queue := rest\<rparr>,
                 tr_gd_udp := (tr_gd_udp tr)\<lparr>gd_outbox :=
                   fold (record_send d) ps (gd_outbox (tr_gd_udp tr))\<rparr>\<rparr>,
              fold (datagram E) (to_dest d ps) sk))"
proof -
  let ?tr = "tr\<lparr>om_rx := (om_rx tr)\<lparr>ch_queue := rest\<rparr>\<rparr>"
  have "act_each ps (\<lambda>packet. act_bind (act_lift (reliable_dest (gd_addr (tr_gd_udp tr)) src))
        (\<lambda>dest. on_gd (send_reliable E dest packet))) = act_each ps (\<lambda>p. on_gd (send_reliable E d p))"
    by (rule act_each_cong) (simp add: fun_eq_iff act_bind_apply act_apply reliable_dest_eq d_def)
  with each_send_on_gd [OF assms(3), of ps E d ?tr] assms(1,2,4) show ?thesis
    by (simp add: outgoing_msg_def act_bind_apply act_then_apply act_apply chan_try_recv_def
        packetize_eq message_key_rand_def Let_def ps_def d_def)
qed

lemma outgoing_ack:
  fixes t :: nat and b :: bytes
  assumes "ch_queue (om_rx tr) = (src, m) # rest" and "head m = Ack"
    and "as_bytes (e_message E) m = Some b" and "\<And>p. as_bytes (e_packet E) p \<noteq> None"
  defines "ps \<equiv> packets_of E b (rand_arr (e_rand E) t) 0"
  shows "outgoing_msg E t (tr, sk) =
    (Inr (), (tr\<lparr>om_rx := (om_rx tr)\<lparr>ch_queue := rest\<rparr>\<rparr>, fold (datagram E) (to_dest src ps) sk))"
proof -
  let ?tr = "tr\<lparr>om_rx := (om_rx tr)\<lparr>ch_queue := rest\<rparr>\<rparr>"
  let ?f = "\<lambda>packet. act_bind (act_unwrap (as_bytes (e_packet E) packet)) (\<lambda>d.
                  act_modify (\<lambda>(tr, sk). (tr, sock_send d src sk)))"
  have "act_each ps ?f (?tr, sk) = (Inr (), fold (\<lambda>p (tr, sk). (tr, datagram E (src, p) sk)) ps (?tr, sk))"
  proof (rule act_each_pure)
    fix p and st :: trs
    obtain d where "as_bytes (e_packet E) p = Some d" using assms(4) [of p] by auto
    then show "?f p st = (Inr (), case st of (tr, sk) \<Rightarrow> (tr, datagram E (src, p) sk))"
      by (cases st) (simp add: act_apply datagram_def)
  qed
  moreover have "fold (\<lambda>p (tr, sk). (tr, datagram E (src, p) sk)) ps (?tr, sk) =
      (?tr, fold (datagram E) (to_dest src ps) sk)"
    by (induction ps arbitrary: sk) (simp_all add: to_dest_def)
  ultimately show ?thesis using assms(1-3)
    by (simp add: outgoing_msg_def act_bind_apply act_then_apply act_apply chan_try_recv_def
        packetize_eq message_key_rand_def Let_def ps_def)
qed

lemma outgoing_none:
  "ch_queue (om_rx tr) = [] \<Longrightarrow> outgoing_msg E t (tr, sk) = (Inr (), (tr, sk))"
  by (simp add: outgoing_msg_def act_bind_apply act_then_apply act_apply chan_try_recv_def)

text \<open>The datagrams of a list of packets, when every send succeeds.\<close>

definition encoded :: "env \<Rightarrow> socket_addr \<Rightarrow> packet list \<Rightarrow> (bytes \<times> socket_addr) list" where
  "encoded E d ps = map (\<lambda>p. (the (as_bytes (e_packet E) p), d)) ps"

lemma fold_datagram_sent:
  assumes "\<And>p. as_bytes (e_packet E) p \<noteq> None" and "\<And>b a. sk_send_ok sk b a"
  shows "sk_sent (fold (datagram E) (to_dest d ps) sk) = sk_sent sk @ encoded E d ps"
  using assms(2)
proof (induction ps arbitrary: sk)
  case (Cons p ps)
  obtain b where b: "as_bytes (e_packet E) p = Some b" using assms(1) [of p] by auto
  have "sk_send_ok (datagram E (d, p) sk) x a" for x a using Cons.prems by simp
  from Cons.IH [OF this] show ?case
    using Cons.prems b by (simp add: to_dest_def encoded_def datagram_def sock_send_def)
qed (simp add: to_dest_def encoded_def)

lemma ob_get_fold_packets:
  assumes "\<And>p. p \<in> set ps \<Longrightarrow> pkt_id p = i" and "distinct (map pkt_n ps)" and "hm_get ob i = None"
  shows "ob_get (fold (record_send d) ps ob) j n =
    (if j = i then map_option (\<lambda>p. ([d], [], p, 1)) (find (\<lambda>p. pkt_n p = n) ps) else ob_get ob j n)"
proof -
  have "ob_get (fold (record_send d) ps ob) j n =
      (case find (\<lambda>p. pkt_id p = j \<and> pkt_n p = n) ps of
         Some p \<Rightarrow> Some ([d], [], p, 1) | None \<Rightarrow> ob_get ob j n)"
    if "\<And>p. p \<in> set ps \<Longrightarrow> ob_get ob (pkt_id p) (pkt_n p) = None" "distinct (map pkt_n ps)"
    using that
  proof (induction ps arbitrary: ob)
    case (Cons p ps)
    have "ob_get (record_send d p ob) (pkt_id q) (pkt_n q) = None" if q: "q \<in> set ps" for q
    proof -
      have "pkt_n q \<noteq> pkt_n p" using Cons.prems(2) imageI [OF q, of pkt_n] by auto
      with q Cons.prems(1) [of q] show ?thesis by (simp add: ob_get_record_send)
    qed
    from Cons.IH [OF this] Cons.prems(2)
    have IH: "ob_get (fold (record_send d) (p # ps) ob) j n =
        (case find (\<lambda>p. pkt_id p = j \<and> pkt_n p = n) ps of
           Some p \<Rightarrow> Some ([d], [], p, 1) | None \<Rightarrow> ob_get (record_send d p ob) j n)"
      by simp
    show ?case
    proof (cases "pkt_id p = j \<and> pkt_n p = n")
      case True
      then have "find (\<lambda>p. pkt_id p = j \<and> pkt_n p = n) ps = None"
        using Cons.prems(2) by (simp add: find_None_iff) (metis imageI)
      with True Cons.prems(1) [of p] show ?thesis
        unfolding IH by (auto simp: ob_get_record_send sent_entry_def)
    next
      case False
      then show ?thesis unfolding IH by (auto simp: ob_get_record_send split: option.split)
    qed
  qed simp
  moreover have "ob_get ob i n = None" for n using assms(3) by (simp add: ob_get_def)
  moreover have "find (\<lambda>p. pkt_id p = j \<and> pkt_n p = n) ps =
      (if j = i then find (\<lambda>p. pkt_n p = n) ps else None)"
    using assms(1) by (induction ps) auto
  ultimately show ?thesis using assms(1,2) by (auto split: option.split)
qed

text \<open>The packets of a message under a fresh id, and what is outstanding once they are sent.\<close>

lemma packet_numbers: "map pkt_n (packets_of E b i r) = [1..<Suc (packet_count (length b))]"
  by (rule nth_equalityI) (simp_all add: packets_of_nth del: upt_Suc)

lemma ob_get_sent:
  assumes "hm_get ob i = None"
  shows "ob_get (fold (record_send d) (packets_of E b i r) ob) j n =
    (if j = i then map_option (\<lambda>p. ([d], [], p, 1)) (find (\<lambda>p. pkt_n p = n) (packets_of E b i r))
     else ob_get ob j n)"
proof (rule ob_get_fold_packets)
  show "pkt_id p = i" if "p \<in> set (packets_of E b i r)" for p using that by (auto simp: in_packets_of)
qed (simp_all add: packet_numbers assms)

lemma in_flight_sent:
  assumes "hm_get ob i = None"
  shows "in_flight (fold (record_send d) (packets_of E b i r) ob) =
    in_flight ob \<union> {(i, n, d) |n. 1 \<le> n \<and> n \<le> packet_count (length b)}"
proof -
  have "find (\<lambda>p. pkt_n p = k) (packets_of E b i r) \<noteq> None \<longleftrightarrow> k \<in> set (map pkt_n (packets_of E b i r))" for k
    by (auto simp: find_None_iff)
  then have found: "find (\<lambda>p. pkt_n p = k) (packets_of E b i r) \<noteq> None \<longleftrightarrow>
      1 \<le> k \<and> k \<le> packet_count (length b)" for k
    unfolding packet_numbers by auto
  have none: "ob_get ob i k = None" for k using assms by (simp add: ob_get_def)
  have mem: "(j, k, a) \<in> in_flight (fold (record_send d) (packets_of E b i r) ob) \<longleftrightarrow>
      (j, k, a) \<in> in_flight ob \<or> (j = i \<and> a = d \<and> 1 \<le> k \<and> k \<le> packet_count (length b))" for j k a
    using found [of k] by (cases "j = i") (auto simp: in_flight_iff ob_get_sent [OF assms] none)
  show ?thesis
    unfolding set_eq_iff split_paired_All Un_iff mem by blast
qed

lemma packet_encodes: "wire E \<Longrightarrow> as_bytes (e_packet E) p \<noteq> None"
  using codec.enc_not_None [OF serde_codec, of "e_packet E" p] by (simp add: wire_def)

section \<open>What no call changes\<close>

text \<open>
  The invariant of the outbox is kept, the local address and the ends of the channels stay, and
  what the socket sent stays sent.
\<close>

definition tr_keeps :: "trs \<Rightarrow> trs \<Rightarrow> bool" where
  "tr_keeps st st' \<longleftrightarrow>
     (case (st, st') of ((tr, sk), (tr', sk')) \<Rightarrow>
        (ob_ok (gd_outbox (tr_gd_udp tr)) \<longrightarrow> ob_ok (gd_outbox (tr_gd_udp tr'))) \<and>
        gd_addr (tr_gd_udp tr') = gd_addr (tr_gd_udp tr) \<and>
        ch_open (ia_rx tr') = ch_open (ia_rx tr) \<and> ch_open (om_rx tr') = ch_open (om_rx tr) \<and>
        prefix (sk_sent sk) (sk_sent sk'))"

interpretation trf: frame tr_keeps
  by unfold_locales (auto simp: tr_keeps_def split: prod.splits)

lemma framed_on_gd: "framed gd_keeps m \<Longrightarrow> framed tr_keeps (on_gd m)"
  by (auto simp: framed_def gd_keeps_def gd_inv_def tr_keeps_def on_gd_apply)

lemma incoming_ack_keeps: "tr_keeps (tr, sk) (snd (incoming_ack tr), sk)"
  by (auto simp: tr_keeps_def incoming_ack_def act_bind_apply act_then_apply act_apply act_zoom_apply
      process_ack_inv process_ack_addr chan_try_recv_def split: list.split)

lemma framed_sock_send: "framed tr_keeps (act_modify (\<lambda>(tr, sk). (tr, sock_send d src sk)))"
  by (rule trf.framed_modify) (auto simp: tr_keeps_def sock_send_prefix)

lemma framed_outgoing: "framed tr_keeps (outgoing_msg E t)"
  unfolding outgoing_msg_def Let_def
proof (rule trf.framed_take)
  show "tr_keeps st (case st of (tr, sk) \<Rightarrow> (tr\<lparr>om_rx := snd (case st of (tr, sk) \<Rightarrow> chan_try_recv (om_rx tr))\<rparr>, sk))"
    for st by (auto simp: tr_keeps_def split: prod.split)
qed (auto intro!: trf.framed_rules framed_sock_send framed_on_gd send_reliable_framed
    split: option.split prod.split)

lemma framed_check_time: "framed tr_keeps (check_time_elapsed E now now')"
  unfolding check_time_elapsed_def by (rule framed_on_gd) (rule check_time_framed)

section \<open>Properties\<close>

text \<open>
  C16: a message that is not an acknowledgement, taken from the channel under a
  packet id that is not in use, is sent as exactly the packets \<open>packetize\<close> makes of it, all asking
  for a receipt, to the peer (or its loopback address), and exactly these packets become
  outstanding there.
\<close>

theorem reliable_message_sent:
  assumes "wire E" and "ch_queue (om_rx tr) = (src, m) # rest" and "head m \<noteq> Ack"
    and "as_bytes (e_message E) m = Some b" and "packetize E b (rand_arr (e_rand E) t) 1 = Inr ps"
    and "hm_get (gd_outbox (tr_gd_udp tr)) (rand_arr (e_rand E) t) = None"
    and "sk_ttl_ok sk" and "sk_send_ok sk = (\<lambda>_ _. True)"
  shows "case outgoing_msg E t (tr, sk) of (r, tr', sk') \<Rightarrow>
    r = Inr () \<and> ch_queue (om_rx tr') = rest \<and>
    sk_sent sk' = sk_sent sk @ encoded E (dest_of (gd_addr (tr_gd_udp tr)) src) ps \<and>
    in_flight (gd_outbox (tr_gd_udp tr')) = in_flight (gd_outbox (tr_gd_udp tr)) \<union>
      {(rand_arr (e_rand E) t, n, dest_of (gd_addr (tr_gd_udp tr)) src) |n. 1 \<le> n \<and> n \<le> length ps}"
proof -
  let ?i = "rand_arr (e_rand E) t" and ?d = "dest_of (gd_addr (tr_gd_udp tr)) src"
  let ?ob = "gd_outbox (tr_gd_udp tr)"
  have ps: "ps = packets_of E b ?i 1" using assms(5) by (simp add: packetize_eq)
  have "as_bytes (e_packet E) p \<noteq> None" for p
    by (rule packet_encodes [OF assms(1)])
  then have sent: "sk_sent (fold (datagram E) (to_dest ?d ps) sk) = sk_sent sk @ encoded E ?d ps"
    by (rule fold_datagram_sent) (simp add: assms(8))
  have "in_flight (fold (record_send ?d) ps ?ob) = in_flight ?ob \<union> {(?i, n, ?d) |n. 1 \<le> n \<and> n \<le> length ps}"
    unfolding ps by (simp add: in_flight_sent [OF assms(6)])
  with outgoing_reliable [OF assms(2,3,7,4), of t] sent show ?thesis by (simp add: ps)
qed

text \<open>
  An acknowledgement is sent as packets that ask for no receipt, to the sender
  of the acknowledged packet itself, and nothing is recorded for it: it is never sent again.
\<close>

theorem receipt_sent_once:
  assumes "wire E" and "ch_queue (om_rx tr) = (src, m) # rest" and "head m = Ack"
    and "as_bytes (e_message E) m = Some b" and "packetize E b (rand_arr (e_rand E) t) 0 = Inr ps"
    and "sk_send_ok sk = (\<lambda>_ _. True)"
  shows "case outgoing_msg E t (tr, sk) of (r, tr', sk') \<Rightarrow>
    r = Inr () \<and> tr' = tr\<lparr>om_rx := (om_rx tr)\<lparr>ch_queue := rest\<rparr>\<rparr> \<and>
    sk_sent sk' = sk_sent sk @ encoded E src ps \<and> list_all (\<lambda>p. pkt_ret p = NO_RETURN_RECEIPT) ps"
proof -
  have ps: "ps = packets_of E b (rand_arr (e_rand E) t) 0" using assms(5) by (simp add: packetize_eq)
  have enc: "as_bytes (e_packet E) p \<noteq> None" for p
    by (rule packet_encodes [OF assms(1)])
  then have "sk_sent (fold (datagram E) (to_dest src ps) sk) = sk_sent sk @ encoded E src ps"
    by (rule fold_datagram_sent) (simp add: assms(6))
  with outgoing_ack [OF assms(2-4) enc, of t] show ?thesis
    by (auto simp: ps list_all_iff in_packets_of NO_RETURN_RECEIPT_def)
qed

text \<open>
  An incoming acknowledgement settles exactly the packet it names at exactly
  the address it carries. An acknowledgement with unreadable address text makes the transport
  thread panic, provided its id is in the outbox.
\<close>

theorem incoming_ack_settles:
  "case ch_queue (ia_rx tr) of
     [] \<Rightarrow> incoming_ack tr = (Inr (), tr)
   | ack # rest \<Rightarrow>
      (case (incoming_ack tr, parse_addr (bytes_str (ack_src ack))) of ((r, tr'), a) \<Rightarrow>
        ch_queue (ia_rx tr') = rest \<and>
        r = (if a = None \<and> hm_contains (gd_outbox (tr_gd_udp tr)) (ack_packet_id ack)
             then Inl UnwrapErr else Inr ()) \<and>
        in_flight (gd_outbox (tr_gd_udp tr')) = in_flight (gd_outbox (tr_gd_udp tr)) -
          (case a of None \<Rightarrow> {} | Some a \<Rightarrow> {(ack_packet_id ack, ack_packet_number ack, a)}))"
proof (cases "ch_queue (ia_rx tr)")
  case (Cons ack rest)
  have "in_flight ob - {(i, n, a)} = in_flight ob" if "\<not> hm_contains ob i" for ob i n a
    using that by (auto simp: in_flight_iff ob_get_def hm_contains_def)
  moreover have "in_flight (record_ack i n a ob) = in_flight ob - {(i, n, a)}" for i n a ob
    by (auto simp: set_eq_iff in_flight_iff ob_get_record_ack split: option.split)
  ultimately show ?thesis using Cons
    by (auto simp: incoming_ack_def act_bind_apply act_then_apply act_apply act_zoom_apply
        chan_try_recv_def process_ack_def split: option.split)
qed (simp add: incoming_ack_def act_bind_apply act_then_apply act_apply chan_try_recv_def)

section \<open>Concrete instances\<close>

definition demo_transport :: "(socket_addr \<times> message) list \<Rightarrow> ack_message list \<Rightarrow> transport" where
  "demo_transport om ia = transport_new demo_addr \<lparr>ch_queue = ia, ch_open = True\<rparr> \<lparr>ch_queue = om, ch_open = True\<rparr> 0"

text \<open>A peer on the host of the local node, at another port.\<close>

definition demo_neighbour :: socket_addr where
  "demo_neighbour = SocketAddrV4 (addr_ip demo_addr) 9999"

theorem reliable_message_sent_witness:
  "let b = the (as_bytes (e_message ref_env) demo_message) in
   case outgoing_msg ref_env 3 (demo_transport [(demo_neighbour, demo_message)] [], demo_sock) of
     (r, tr', sk') \<Rightarrow> in_flight (gd_outbox (tr_gd_udp tr')) =
       {(rand_arr (e_rand ref_env) 3, n, dest_of demo_addr demo_neighbour) |n.
          1 \<le> n \<and> n \<le> length (packets_of ref_env b (rand_arr (e_rand ref_env) 3) 1)}"
  using reliable_message_sent [OF ref.wire_axioms _ _ ref.message.enc_Some packetize_eq,
      of "demo_transport [(demo_neighbour, demo_message)] []" demo_neighbour demo_message "[]" 3 demo_sock]
  by (simp add: demo_transport_def transport_new_def gd_udp_new_def demo_message_def demo_sock_def
      in_flight_def case_prod_unfold)

theorem receipt_sent_once_witness:
  "let m = \<lparr>head = Ack, msg = [1, 2]\<rparr>; b = the (as_bytes (e_message ref_env) m) in
   case outgoing_msg ref_env 3 (demo_transport [(demo_neighbour, m)] [], demo_sock) of
     (r, tr', sk') \<Rightarrow> tr' = demo_transport [] [] \<and>
       sk_sent sk' = encoded ref_env demo_neighbour (packets_of ref_env b (rand_arr (e_rand ref_env) 3) 0)"
  using receipt_sent_once [OF ref.wire_axioms _ _ ref.message.enc_Some packetize_eq,
      of "demo_transport [(demo_neighbour, \<lparr>head = Ack, msg = [1, 2]\<rparr>)] []" demo_neighbour
        "\<lparr>head = Ack, msg = [1, 2]\<rparr>" "[]" demo_sock 3]
  by (simp add: demo_transport_def transport_new_def gd_udp_new_def demo_sock_def case_prod_unfold)

end
