(* ===== verification/Routing.thy ===== *)
theory Routing
  imports Transport "HOL-Library.DAList"
begin

text \<open>
  The routing table (\<open>src/discovery/routing.rs\<close>): a hash map from prefixes of XOR distances to
  buckets of at most \<open>MAX_BUCKET_LEN\<close> peers.

  A bucket keeps its peers in a \<open>ritelinked::LinkedHashMap\<close>, whose code is not in the repository:
  its operations are a parameter of the model, with the laws that crate documents as the locale
  \<open>linked_hash_map\<close> and an instance of it over duplicate-free association lists.

  Proved: where a peer is filed and when filing it panics, the invariant of the table, what the
  search for close peers returns, that it is not always the closest peers, that a peer can be
  filed twice, and that the removal of a peer misses it.
\<close>

section \<open>Linked hash maps\<close>

record 'm lhm =
  lhm_new :: 'm
  lhm_insert :: "peer_id \<Rightarrow> peer_info \<Rightarrow> 'm \<Rightarrow> 'm"
  lhm_contains :: "'m \<Rightarrow> peer_id \<Rightarrow> bool"
  lhm_remove :: "peer_id \<Rightarrow> 'm \<Rightarrow> peer_info option \<times> 'm"
  lhm_pop_front :: "'m \<Rightarrow> (peer_id \<times> peer_info) option \<times> 'm"
  lhm_len :: "'m \<Rightarrow> nat"
  lhm_iter :: "'m \<Rightarrow> (peer_id \<times> peer_info) list"

text \<open>Iteration is by insertion, and inserting a present key moves it to the back.\<close>

locale linked_hash_map =
  fixes L :: "'m lhm"
  assumes iter_new: "lhm_iter L (lhm_new L) = []"
    and iter_insert: "lhm_iter L (lhm_insert L k v m) = filter (\<lambda>e. fst e \<noteq> k) (lhm_iter L m) @ [(k, v)]"
    and contains_iter: "lhm_contains L m k \<longleftrightarrow> k \<in> fst ` set (lhm_iter L m)"
    and remove_value: "fst (lhm_remove L k m) = map_of (lhm_iter L m) k"
    and remove_rest: "lhm_iter L (snd (lhm_remove L k m)) = filter (\<lambda>e. fst e \<noteq> k) (lhm_iter L m)"
    and pop_front_value: "fst (lhm_pop_front L m) = (case lhm_iter L m of [] \<Rightarrow> None | e # _ \<Rightarrow> Some e)"
    and pop_front_rest: "lhm_iter L (snd (lhm_pop_front L m)) = tl (lhm_iter L m)"
    and len_iter: "lhm_len L m = length (lhm_iter L m)"
    and iter_distinct: "distinct (map fst (lhm_iter L m))"

section \<open>Buckets\<close>

definition MAX_BUCKET_LEN :: nat where
  "MAX_BUCKET_LEN = 30"

definition REFRESH_INTEVAL :: nat where
  "REFRESH_INTEVAL = 900000000000"

definition DEFAULT_N_PEERS :: nat where
  "DEFAULT_N_PEERS = 8"

record 'm kbucket =
  nodes :: 'm
  last_updated :: nat

text \<open>
  \<open>timestamp_now\<close>, given what the system clock shows in nanoseconds since 1970: it panics before
  that. \<open>KBucket::new\<close>, \<open>upsert\<close> and \<open>is_stale\<close> call it first of all; their definitions take the
  value it returns, so the model is that of a program whose clock shows a time after 1970.
\<close>

definition timestamp_now :: "int \<Rightarrow> panic + nat" where
  "timestamp_now clock = (if clock < 0 then Inl UnwrapErr else Inr (nat clock))"

definition kbucket_new :: "'m lhm \<Rightarrow> nat \<Rightarrow> 'm kbucket" where
  "kbucket_new L now = \<lparr>nodes = lhm_new L, last_updated = now\<rparr>"

definition upsert :: "'m lhm \<Rightarrow> nat \<Rightarrow> peer_info \<Rightarrow> 'm kbucket \<Rightarrow> 'm kbucket" where
  "upsert L now peer b =
     (let b = b\<lparr>last_updated := now\<rparr> in b\<lparr>nodes := lhm_insert L (pi_id peer) peer (nodes b)\<rparr>)"

definition contains :: "'m lhm \<Rightarrow> 'm kbucket \<Rightarrow> peer_info \<Rightarrow> bool" where
  "contains L b peer = lhm_contains L (nodes b) (pi_id peer)"

definition bucket_split :: "'m lhm \<Rightarrow> nat \<Rightarrow> nat \<Rightarrow> string \<Rightarrow> 'm kbucket \<Rightarrow> 'm kbucket \<times> 'm kbucket" where
  "bucket_split L now index pre b = (kbucket_new L now, b)"

definition get_nodes :: "'m lhm \<Rightarrow> 'm kbucket \<Rightarrow> peer_info list" where
  "get_nodes L b = map snd (lhm_iter L (nodes b))"

definition bucket_size :: "'m lhm \<Rightarrow> 'm kbucket \<Rightarrow> nat" where
  "bucket_size L b = lhm_len L (nodes b)"

definition bucket_remove_lru :: "'m lhm \<Rightarrow> ('m kbucket, peer_info option) act" where
  "bucket_remove_lru L b =
     (if bucket_size L b = 0 then (Inr None, b)
      else case lhm_pop_front L (nodes b) of
        (None, m) \<Rightarrow> (Inl UnwrapNone, b\<lparr>nodes := m\<rparr>)
      | (Some (_, peer), m) \<Rightarrow> (Inr (Some peer), b\<lparr>nodes := m\<rparr>))"

definition bucket_remove_peer :: "'m lhm \<Rightarrow> peer_info \<Rightarrow> 'm kbucket \<Rightarrow> peer_info option \<times> 'm kbucket" where
  "bucket_remove_peer L peer b =
     (case lhm_remove L (pi_id peer) (nodes b) of (r, m) \<Rightarrow> (r, b\<lparr>nodes := m\<rparr>))"

definition is_full :: "'m lhm \<Rightarrow> 'm kbucket \<Rightarrow> bool" where
  "is_full L b \<longleftrightarrow> MAX_BUCKET_LEN \<le> lhm_len L (nodes b)"

text \<open>Subtraction of \<open>u128\<close>: with overflow checks it panics below zero, without them it wraps.\<close>

definition u128_sub :: "bool \<Rightarrow> nat \<Rightarrow> nat \<Rightarrow> panic + nat" where
  "u128_sub checks a b =
     (if b \<le> a then Inr (a - b) else if checks then Inl ArithOverflow else Inr (2 ^ 128 + a - b))"

definition is_stale :: "bool \<Rightarrow> nat \<Rightarrow> 'm kbucket \<Rightarrow> panic + bool" where
  "is_stale checks now b =
     res_bind (u128_sub checks now (last_updated b)) (\<lambda>diff. Inr (REFRESH_INTEVAL < diff))"

section \<open>The routing table\<close>

record 'm routing_table =
  tree :: "(string, 'm kbucket) hmap"
  local_info :: peer_info

text \<open>\<open>now\<close> and \<open>now'\<close> are the clock readings of \<open>KBucket::new\<close> and of \<open>upsert\<close>.\<close>

definition routing_table_new ::
    "'m lhm \<Rightarrow> nat \<Rightarrow> nat \<Rightarrow> peer_info \<Rightarrow> panic + 'm routing_table" where
  "routing_table_new L now now' li =
     (let kbucket = upsert L now' li (kbucket_new L now) in
      res_bind (get_prefix (key_xor (peer_get_key li) (peer_get_key li)) 0) (\<lambda>pre.
      Inr \<lparr>tree = hm_insert pre kbucket [], local_info = li\<rparr>))"

definition distance :: "'m routing_table \<Rightarrow> peer_info \<Rightarrow> key" where
  "distance rt peer = key_xor (peer_get_key (local_info rt)) (peer_get_key peer)"

function update_peer ::
    "'m lhm \<Rightarrow> nat \<Rightarrow> nat \<Rightarrow> peer_info \<Rightarrow> nat \<Rightarrow> ('m routing_table, bool) act" where
  "update_peer L now now' peer traverse rt =
     (case get_prefix (distance rt peer) traverse of
        Inl p \<Rightarrow> (Inl p, rt)
      | Inr pre \<Rightarrow>
          (case hm_get (tree rt) pre of
             Some bucket \<Rightarrow>
               if \<not> is_full L bucket
               then (Inr True, rt\<lparr>tree := hm_insert pre (upsert L now' peer bucket) (tree rt)\<rparr>)
               else update_peer L now now' peer (traverse + 1) rt
           | None \<Rightarrow>
               (Inr True, rt\<lparr>tree := hm_insert pre (upsert L now' peer (kbucket_new L now)) (tree rt)\<rparr>)))"
  by pat_completeness auto
termination
  by (relation "measure (\<lambda>(_, _, _, peer, traverse, rt). length (get_binary (distance rt peer)) - traverse)")
    (auto simp: get_prefix_Inr)

declare update_peer.simps [simp del]

definition total_peers :: "'m lhm \<Rightarrow> 'm routing_table \<Rightarrow> nat" where
  "total_peers L rt = fold (\<lambda>(k, v) acc. acc + bucket_size L v) (tree rt) 0"

definition get_all_peers :: "env \<Rightarrow> 'm lhm \<Rightarrow> 'm routing_table \<Rightarrow> peer_info list" where
  "get_all_peers E L rt = concat (map (\<lambda>(k, v). get_nodes L v) (hm_iter (e_ord_prefix E) (tree rt)))"

text \<open>\<open>cloned_tree.retain(..)\<close>, whose test can panic.\<close>

fun retain_prefix :: "key \<Rightarrow> (string \<times> 'b) list \<Rightarrow> panic + (string \<times> 'b) list" where
  "retain_prefix d [] = Inr []"
| "retain_prefix d ((k, b) # es) =
     res_bind (get_prefix d (length k - 1)) (\<lambda>pre.
     res_bind (retain_prefix d es) (\<lambda>kept.
     Inr (if pre = k then (k, b) # kept else kept)))"

fun extend_until :: "nat \<Rightarrow> 'a list \<Rightarrow> (string \<times> 'a list) list \<Rightarrow> 'a list" where
  "extend_until n_peers ret [] = ret"
| "extend_until n_peers ret ((k, ns) # rest) =
     (if length ret < n_peers then extend_until n_peers (ret @ ns) rest else ret)"

definition nearest :: "peer_info \<Rightarrow> nat \<Rightarrow> peer_info list \<Rightarrow> peer_info list" where
  "nearest peer n_peers ps =
     take n_peers (sort_key (\<lambda>p. key_xor (peer_get_key p) (peer_get_key peer)) ps)"

definition get_closest_peers ::
    "env \<Rightarrow> 'm lhm \<Rightarrow> 'm routing_table \<Rightarrow> peer_info \<Rightarrow> nat \<Rightarrow> panic + peer_info list" where
  "get_closest_peers E L rt peer n_peers =
     (if total_peers L rt \<le> n_peers then Inr (get_all_peers E L rt)
      else
        res_bind (retain_prefix (distance rt peer) (tree rt)) (\<lambda>cloned.
        let total = fold (\<lambda>(k, v) acc. acc + bucket_size L v) cloned 0 in
        if cloned = [] \<or> total < n_peers
        then Inr (nearest peer n_peers (get_all_peers E L rt))
        else
          let closest = map (\<lambda>(k, v). (k, get_nodes L v)) (hm_iter (e_ord_prefix E) cloned);
              closest = rev (sort_key (\<lambda>(k, v). length k) closest);
              (ret, rest) = (case closest of (k, ns) # rest \<Rightarrow> (ns, rest) | [] \<Rightarrow> ([], []))
          in Inr (nearest peer n_peers (extend_until n_peers ret rest))))"

text \<open>\<open>self.tree.len() - 1\<close> underflows on an empty tree.\<close>

definition usize_pred :: "bool \<Rightarrow> nat \<Rightarrow> panic + nat" where
  "usize_pred checks n =
     (if 1 \<le> n then Inr (n - 1) else if checks then Inl ArithOverflow else Inr (2 ^ 64 - 1))"

definition removal_prefix :: "bool \<Rightarrow> key \<Rightarrow> 'm routing_table \<Rightarrow> panic + string" where
  "removal_prefix checks d rt =
     res_bind (usize_pred checks (length (tree rt))) (\<lambda>n. get_prefix d (min (leading_zeros d) n))"

definition remove_lru :: "bool \<Rightarrow> 'm lhm \<Rightarrow> inner_key \<Rightarrow> ('m routing_table, peer_info option) act" where
  "remove_lru checks L peer_key rt =
     (case removal_prefix checks (key_xor (peer_get_key (local_info rt)) (key_new peer_key)) rt of
        Inl p \<Rightarrow> (Inl p, rt)
      | Inr pre \<Rightarrow>
          (case hm_get (tree rt) pre of
             Some bucket \<Rightarrow>
               (case bucket_remove_lru L bucket of
                  (r, bucket) \<Rightarrow> (r, rt\<lparr>tree := hm_insert pre bucket (tree rt)\<rparr>))
           | None \<Rightarrow> (Inr None, rt)))"

definition remove_peer :: "bool \<Rightarrow> 'm lhm \<Rightarrow> peer_info \<Rightarrow> ('m routing_table, unit) act" where
  "remove_peer checks L peer rt =
     (case removal_prefix checks (distance rt peer) rt of
        Inl p \<Rightarrow> (Inl p, rt)
      | Inr pre \<Rightarrow>
          (case hm_get (tree rt) pre of
             Some bucket \<Rightarrow>
               (Inr (), rt\<lparr>tree := hm_insert pre (snd (bucket_remove_peer L peer bucket)) (tree rt)\<rparr>)
           | None \<Rightarrow> (Inr (), rt)))"

text \<open>The clock is read once per bucket: \<open>now i\<close> is the reading for the \<open>i\<close>-th bucket visited.\<close>

fun stale_loop :: "bool \<Rightarrow> (nat \<Rightarrow> nat) \<Rightarrow> nat \<Rightarrow> (string \<times> 'm kbucket) list \<Rightarrow> panic + string list" where
  "stale_loop checks now i [] = Inr []"
| "stale_loop checks now i ((pre, bucket) # es) =
     res_bind (is_stale checks (now i) bucket) (\<lambda>stale.
     res_bind (stale_loop checks now (Suc i) es) (\<lambda>ret.
     Inr (if stale then pre # ret else ret)))"

definition get_stale_indices :: "env \<Rightarrow> bool \<Rightarrow> (nat \<Rightarrow> nat) \<Rightarrow> 'm routing_table \<Rightarrow> panic + string list" where
  "get_stale_indices E checks now rt = stale_loop checks now 0 (hm_iter (e_ord_prefix E) (tree rt))"

definition is_new :: "'m lhm \<Rightarrow> 'm routing_table \<Rightarrow> peer_info \<Rightarrow> bool" where
  "is_new L rt peer \<longleftrightarrow> \<not> list_ex (\<lambda>(_, bucket). contains L bucket peer) (tree rt)"

definition table_size :: "'m routing_table \<Rightarrow> nat" where
  "table_size rt = length (tree rt)"

section \<open>Linked hash maps and buckets\<close>

text \<open>Replacing the value of a key moves one summand.\<close>

lemma hm_sum_insert:
  assumes "hm_wf m"
  shows "sum_list (map (\<lambda>(k, v). f v) (hm_insert k v m)) + (case hm_get m k of None \<Rightarrow> 0 | Some w \<Rightarrow> f w) =
    (sum_list (map (\<lambda>(k, v). f v) m) + f v :: nat)"
  using assms
proof (induction m)
  case (Cons e m)
  obtain j w where e: "e = (j, w)" by fastforce
  show ?case
  proof (cases "j = k")
    case True
    with e show ?thesis by (simp add: hm_insert_def hm_get_def)
  next
    case False
    with Cons e show ?thesis by (simp add: hm_insert_def hm_get_def hm_wf_def)
  qed
qed (simp add: hm_insert_def hm_get_def)

lemma length_filter_key:
  "distinct (map fst xs) \<Longrightarrow>
   length xs = length (filter (\<lambda>e. fst e \<noteq> k) xs) + (if k \<in> fst ` set xs then 1 else 0)"
proof (induction xs)
  case (Cons e xs)
  show ?case
  proof (cases "fst e = k")
    case True
    with Cons.prems have "k \<notin> fst ` set xs" by auto
    moreover from this have "filter (\<lambda>e. fst e \<noteq> k) xs = xs" by (force simp: filter_id_conv)
    ultimately show ?thesis using True by simp
  next
    case False
    with Cons show ?thesis by auto
  qed
qed simp

context linked_hash_map begin

lemma contains_insert [simp]:
  "lhm_contains L (lhm_insert L k v m) j \<longleftrightarrow> j = k \<or> lhm_contains L m j"
  by (force simp: contains_iter iter_insert image_iff)

lemma len_new [simp]: "lhm_len L (lhm_new L) = 0"
  by (simp add: len_iter iter_new)

lemma len_insert:
  "lhm_len L (lhm_insert L k v m) = (if lhm_contains L m k then lhm_len L m else Suc (lhm_len L m))"
  using length_filter_key [OF iter_distinct, of m k]
  by (simp add: len_iter iter_insert contains_iter split: if_splits)

lemma set_insert:
  "set (lhm_iter L (lhm_insert L k v m)) = insert (k, v) {e \<in> set (lhm_iter L m). fst e \<noteq> k}"
  by (auto simp: iter_insert)

lemma contains_upsert [simp]: "contains L (upsert L now p b) q \<longleftrightarrow> pi_id q = pi_id p \<or> contains L b q"
  by (simp add: contains_def upsert_def Let_def)

lemma size_upsert:
  "bucket_size L (upsert L now p b) = (if contains L b p then bucket_size L b else Suc (bucket_size L b))"
  by (simp add: bucket_size_def upsert_def Let_def len_insert contains_def)

lemma size_new [simp]: "bucket_size L (kbucket_new L now) = 0"
  by (simp add: bucket_size_def kbucket_new_def)

lemma contains_new [simp]: "\<not> contains L (kbucket_new L now) p"
  by (simp add: contains_def kbucket_new_def contains_iter iter_new)

lemma full_upsert: "is_full L b \<Longrightarrow> is_full L (upsert L now p b)"
  using size_upsert [of now p b] by (simp add: is_full_def bucket_size_def split: if_splits)

lemma length_get_nodes [simp]: "length (get_nodes L b) = bucket_size L b"
  by (simp add: get_nodes_def bucket_size_def len_iter)

lemma in_upsert: "p \<in> set (get_nodes L (upsert L now p b))"
  by (simp add: get_nodes_def upsert_def Let_def iter_insert)

lemma nodes_upsert_new: "get_nodes L (upsert L now p (kbucket_new L t)) = [p]"
  by (simp add: get_nodes_def upsert_def kbucket_new_def Let_def iter_insert iter_new)

lemma remove_lru_eq:
  "bucket_remove_lru L b =
     (case lhm_iter L (nodes b) of
        [] \<Rightarrow> (Inr None, b)
      | (k, p) # rest \<Rightarrow> (Inr (Some p), b\<lparr>nodes := snd (lhm_pop_front L (nodes b))\<rparr>))"
  using pop_front_value [of "nodes b"]
  by (auto simp: bucket_remove_lru_def bucket_size_def len_iter split: list.split prod.splits option.splits)

end

section \<open>Where a peer is filed\<close>

definition free_at :: "'m lhm \<Rightarrow> 'm routing_table \<Rightarrow> string \<Rightarrow> bool" where
  "free_at L rt pre = (case hm_get (tree rt) pre of None \<Rightarrow> True | Some b \<Rightarrow> \<not> is_full L b)"

text \<open>The position of the first prefix of the distance that has no full bucket.\<close>

definition slot :: "'m lhm \<Rightarrow> 'm routing_table \<Rightarrow> peer_info \<Rightarrow> nat \<Rightarrow> nat option" where
  "slot L rt peer t =
     find (\<lambda>n. free_at L rt (take (Suc n) (get_binary (distance rt peer))))
       [t..<length (get_binary (distance rt peer))]"

definition put_peer :: "'m lhm \<Rightarrow> nat \<Rightarrow> nat \<Rightarrow> peer_info \<Rightarrow> string \<Rightarrow> 'm routing_table \<Rightarrow> 'm routing_table" where
  "put_peer L now now' peer pre rt =
     rt\<lparr>tree := hm_insert pre (upsert L now' peer
       (case hm_get (tree rt) pre of Some b \<Rightarrow> b | None \<Rightarrow> kbucket_new L now)) (tree rt)\<rparr>"

lemma slot_rec:
  "slot L rt peer t =
     (if t < length (get_binary (distance rt peer))
      then if free_at L rt (take (Suc t) (get_binary (distance rt peer))) then Some t else slot L rt peer (Suc t)
      else None)"
  by (simp add: slot_def upt_conv_Cons del: upt_Suc)

lemma update_peer_eq:
  "update_peer L now now' peer t rt =
     (case slot L rt peer t of
        None \<Rightarrow> (Inl SliceOutOfRange, rt)
      | Some n \<Rightarrow> (Inr True, put_peer L now now' peer (take (Suc n) (get_binary (distance rt peer))) rt))"
proof (induction L now now' peer t rt rule: update_peer.induct)
  case (1 L now now' peer t rt)
  let ?d = "get_binary (distance rt peer)"
  show ?case
  proof (cases "t < length ?d")
    case False
    then have "get_prefix (distance rt peer) t = Inl SliceOutOfRange" by (simp add: get_prefix_Inl)
    with False show ?thesis by (subst update_peer.simps, subst slot_rec) simp
  next
    case True
    then have p: "get_prefix (distance rt peer) t = Inr (take (Suc t) ?d)" by (simp add: get_prefix_Inr)
    show ?thesis
    proof (cases "hm_get (tree rt) (take (Suc t) ?d)")
      case None
      with True p show ?thesis
        by (subst update_peer.simps, subst slot_rec) (simp add: free_at_def put_peer_def)
    next
      case (Some b)
      show ?thesis
      proof (cases "is_full L b")
        case False
        with True p Some show ?thesis
          by (subst update_peer.simps, subst slot_rec) (simp add: free_at_def put_peer_def)
      next
        case full: True
        with 1 [OF p Some] True p Some show ?thesis
          by (subst update_peer.simps, subst slot_rec) (simp add: free_at_def)
      qed
    qed
  qed
qed

lemma slot_None:
  "slot L rt peer t = None \<longleftrightarrow> (\<forall>n. t \<le> n \<and> n < length (get_binary (distance rt peer)) \<longrightarrow>
     (\<exists>b. hm_get (tree rt) (take (Suc n) (get_binary (distance rt peer))) = Some b \<and> is_full L b))"
  by (auto simp: slot_def find_None_iff free_at_def split: option.splits)

lemma slot_Some:
  assumes "slot L rt peer t = Some n"
  shows "t \<le> n" "n < length (get_binary (distance rt peer))"
    "free_at L rt (take (Suc n) (get_binary (distance rt peer)))"
    "\<And>m. t \<le> m \<Longrightarrow> m < n \<Longrightarrow> \<not> free_at L rt (take (Suc m) (get_binary (distance rt peer)))"
proof -
  let ?d = "get_binary (distance rt peer)"
  from assms obtain i where i: "i < length [t..<length ?d]" "n = [t..<length ?d] ! i"
    "free_at L rt (take (Suc n) ?d)"
    "\<And>j. j < i \<Longrightarrow> \<not> free_at L rt (take (Suc ([t..<length ?d] ! j)) ?d)"
    by (auto simp: slot_def find_Some_iff)
  then have n: "n = t + i" "n < length ?d" by auto
  then show "t \<le> n" "n < length ?d" "free_at L rt (take (Suc n) ?d)" using i(3) by auto
  show "\<not> free_at L rt (take (Suc m) ?d)" if "t \<le> m" "m < n" for m
    using i(4) [of "m - t"] that n by auto
qed

lemma tree_put [simp]:
  "hm_get (tree (put_peer L now now' p k rt)) j =
     (if j = k then Some (upsert L now' p (case hm_get (tree rt) k of Some b \<Rightarrow> b | None \<Rightarrow> kbucket_new L now))
      else hm_get (tree rt) j)"
  by (simp add: put_peer_def hm_get_insert)

lemma local_info_put [simp]: "local_info (put_peer L now now' p k rt) = local_info rt"
  by (simp add: put_peer_def)

lemma hm_wf_put [simp]: "hm_wf (tree rt) \<Longrightarrow> hm_wf (tree (put_peer L now now' p k rt))"
  by (simp add: put_peer_def)

section \<open>The invariant of the table\<close>

text \<open>
  Prefixes are unique and not empty, no bucket holds more than \<open>MAX_BUCKET_LEN\<close> peers, and a peer
  lies under its own id in a bucket whose prefix begins the digits of its distance.
\<close>

definition filed :: "'m lhm \<Rightarrow> peer_info \<Rightarrow> string \<Rightarrow> 'm kbucket \<Rightarrow> bool" where
  "filed L li k b \<longleftrightarrow> k \<noteq> [] \<and> bucket_size L b \<le> MAX_BUCKET_LEN \<and>
     list_all (\<lambda>(i, p). i = pi_id p \<and>
       take (length k) (get_binary (key_xor (peer_get_key li) (peer_get_key p))) = k) (lhm_iter L (nodes b))"

definition rt_ok :: "'m lhm \<Rightarrow> 'm routing_table \<Rightarrow> bool" where
  "rt_ok L rt \<longleftrightarrow> hm_wf (tree rt) \<and> tree rt \<noteq> [] \<and>
     (\<forall>k b. hm_get (tree rt) k = Some b \<longrightarrow> filed L (local_info rt) k b)"

text \<open>
  In a table that only grew, every proper prefix of a bucket's prefix has a full bucket.
\<close>

definition rt_dense :: "'m lhm \<Rightarrow> 'm routing_table \<Rightarrow> bool" where
  "rt_dense L rt \<longleftrightarrow> (\<forall>k b n. hm_get (tree rt) k = Some b \<and> 0 < n \<and> n < length k \<longrightarrow>
     \<not> free_at L rt (take n k))"

lemma rt_ok_insert:
  "rt_ok L rt \<Longrightarrow> filed L (local_info rt) k b \<Longrightarrow> rt_ok L (rt\<lparr>tree := hm_insert k b (tree rt)\<rparr>)"
  using hm_length_insert [of "tree rt" k b]
  by (auto simp: rt_ok_def hm_get_insert simp flip: length_greater_0_conv split: if_splits)

lemma rt_ok_filed: "rt_ok L rt \<Longrightarrow> hm_get (tree rt) k = Some b \<Longrightarrow> filed L (local_info rt) k b"
  by (simp add: rt_ok_def)

datatype rt_event = Update_peer nat nat peer_info nat | Remove_lru inner_key | Remove_peer peer_info

definition rt_step :: "bool \<Rightarrow> 'm lhm \<Rightarrow> rt_event \<Rightarrow> 'm routing_table \<Rightarrow> 'm routing_table" where
  "rt_step checks L e rt =
     (case e of
        Update_peer now now' p t \<Rightarrow> snd (update_peer L now now' p t rt)
      | Remove_lru k \<Rightarrow> snd (remove_lru checks L k rt)
      | Remove_peer p \<Rightarrow> snd (remove_peer checks L p rt))"

context linked_hash_map begin

lemma filed_upsert:
  assumes "k = take (length k) (get_binary (key_xor (peer_get_key li) (peer_get_key p)))" and "k \<noteq> []"
    and "filed L li k b \<or> b = kbucket_new L now" and "\<not> is_full L b"
  shows "filed L li k (upsert L now' p b)"
proof -
  have "bucket_size L (upsert L now' p b) \<le> MAX_BUCKET_LEN"
    using assms(4) size_upsert [of now' p b] by (simp add: is_full_def bucket_size_def split: if_splits)
  moreover have "list_all (\<lambda>(i, p). i = pi_id p \<and>
       take (length k) (get_binary (key_xor (peer_get_key li) (peer_get_key p))) = k) (lhm_iter L (nodes b))"
    using assms(3) by (auto simp: filed_def kbucket_new_def iter_new)
  ultimately show ?thesis
    using assms(1,2) by (auto simp: filed_def upsert_def Let_def list_all_iff set_insert)
qed

lemma not_full_new [simp]: "\<not> is_full L (kbucket_new L now)"
  by (simp add: is_full_def kbucket_new_def MAX_BUCKET_LEN_def)

lemma rt_ok_put:
  assumes "rt_ok L rt" and "n < length (get_binary (distance rt p))"
    and "free_at L rt (take (Suc n) (get_binary (distance rt p)))"
  shows "rt_ok L (put_peer L now now' p (take (Suc n) (get_binary (distance rt p))) rt)"
proof -
  let ?k = "take (Suc n) (get_binary (distance rt p))"
  let ?b = "case hm_get (tree rt) ?k of Some b \<Rightarrow> b | None \<Rightarrow> kbucket_new L now"
  have "length ?k = Suc n" using assms(2) by simp
  moreover have "filed L (local_info rt) ?k ?b \<or> ?b = kbucket_new L now"
    using rt_ok_filed [OF assms(1)] by (auto split: option.split)
  moreover have "\<not> is_full L ?b" using assms(3) by (auto simp: free_at_def split: option.splits)
  ultimately have "filed L (local_info rt) ?k (upsert L now' p ?b)"
    by (intro filed_upsert) (auto simp: distance_def)
  with rt_ok_insert [OF assms(1)] show ?thesis by (simp add: put_peer_def)
qed

lemma rt_ok_update: "rt_ok L rt \<Longrightarrow> rt_ok L (snd (update_peer L now now' p t rt))"
  using slot_Some [of L rt p t] rt_ok_put
  by (auto simp: update_peer_eq split: option.split)

lemma filed_shrink:
  assumes "filed L li k b" and "set (lhm_iter L m) \<subseteq> set (lhm_iter L (nodes b))"
    and "lhm_len L m \<le> lhm_len L (nodes b)"
  shows "filed L li k (b\<lparr>nodes := m\<rparr>)"
  using assms by (auto simp: filed_def list_all_iff bucket_size_def)

lemma rt_ok_remove_peer: "rt_ok L rt \<Longrightarrow> rt_ok L (snd (remove_peer checks L p rt))"
proof -
  assume ok: "rt_ok L rt"
  have "filed L (local_info rt) k (snd (bucket_remove_peer L p b))" if "hm_get (tree rt) k = Some b" for k b
  proof -
    have "snd (bucket_remove_peer L p b) = b\<lparr>nodes := snd (lhm_remove L (pi_id p) (nodes b))\<rparr>"
      by (simp add: bucket_remove_peer_def case_prod_unfold)
    moreover have "length (filter (\<lambda>e. fst e \<noteq> pi_id p) (lhm_iter L (nodes b))) \<le> length (lhm_iter L (nodes b))"
      by simp
    ultimately show ?thesis
      using filed_shrink [OF rt_ok_filed [OF ok that], of "snd (lhm_remove L (pi_id p) (nodes b))"]
      by (auto simp: remove_rest len_iter)
  qed
  with ok show "rt_ok L (snd (remove_peer checks L p rt))"
    by (auto simp: remove_peer_def rt_ok_insert split: sum.split option.split)
qed

lemma rt_ok_remove_lru: "rt_ok L rt \<Longrightarrow> rt_ok L (snd (remove_lru checks L k rt))"
proof -
  assume ok: "rt_ok L rt"
  have "filed L (local_info rt) k (snd (bucket_remove_lru L b))" if "hm_get (tree rt) k = Some b" for k b
    using filed_shrink [OF rt_ok_filed [OF ok that], of "snd (lhm_pop_front L (nodes b))"] rt_ok_filed [OF ok that]
    by (cases "lhm_iter L (nodes b)") (auto simp: remove_lru_eq pop_front_rest len_iter subset_insertI)
  with ok show "rt_ok L (snd (remove_lru checks L k rt))"
    by (auto simp: remove_lru_def split: sum.split option.split prod.split intro!: rt_ok_insert)
      (metis snd_conv)
qed

lemma rt_ok_step: "rt_ok L rt \<Longrightarrow> rt_ok L (rt_step checks L e rt)"
  by (simp add: rt_step_def rt_ok_update rt_ok_remove_lru rt_ok_remove_peer split: rt_event.split)

lemma routing_table_new_eq:
  "routing_table_new L now now' li = Inr \<lparr>tree = [(''0'', upsert L now' li (kbucket_new L now))], local_info = li\<rparr>"
proof -
  have "get_binary zero_key = replicate 32 CHR ''0''"
    by (simp add: get_binary_def fmt_byte_def zero_key_def arr_of.rep_eq get_key_def map_replicate_const
        concat_replicate_single)
  then show ?thesis
    by (simp add: routing_table_new_def get_prefix_eq slice_incl_def hm_insert_def kx.xor_self)
qed

end

section \<open>Sizes\<close>

lemma fold_sizes:
  "fold (\<lambda>(k, v) acc. acc + bucket_size L v) es n = n + sum_list (map (\<lambda>(k, v). bucket_size L v) es)"
  by (induction es arbitrary: n) auto

lemma total_peers_sum: "total_peers L rt = sum_list (map (\<lambda>(k, v). bucket_size L v) (tree rt))"
  by (simp add: total_peers_def fold_sizes)

lemma sizes_sub:
  assumes "hm_wf m" and "finite K" and "\<And>k. k \<in> K \<Longrightarrow> \<exists>b. hm_get m k = Some b \<and> c \<le> f b"
  shows "c * card K \<le> sum_list (map (\<lambda>(k, v). f v) m)"
proof -
  let ?g = "\<lambda>k. (k, the (hm_get m k))"
  have dist: "distinct m" using assms(1) by (simp add: hm_wf_def distinct_map)
  have "?g ` K \<subseteq> set m"
    using assms(3) hm_entries [OF assms(1)] by fastforce
  have "c * card K = (\<Sum>k\<in>K. c)" by simp
  also have "\<dots> \<le> (\<Sum>k\<in>K. case ?g k of (k, v) \<Rightarrow> f v)"
    by (rule sum_mono) (use assms(3) in force)
  also have "\<dots> = (\<Sum>e\<in>?g ` K. case e of (k, v) \<Rightarrow> f v)"
    by (subst sum.reindex) (auto simp: inj_on_def)
  also have "\<dots> \<le> (\<Sum>e\<in>set m. case e of (k, v) \<Rightarrow> f v)"
    by (rule sum_mono2) (use \<open>?g ` K \<subseteq> set m\<close> in auto)
  also have "\<dots> = sum_list (map (\<lambda>(k, v). f v) m)"
    by (rule sum.distinct_set_conv_list [OF dist])
  finally show ?thesis .
qed

lemma full_prefixes_total:
  assumes "hm_wf (tree rt)" and "m \<le> length d"
    and "\<And>n. n < m \<Longrightarrow> \<not> free_at L rt (take (Suc n) d)"
  shows "MAX_BUCKET_LEN * m \<le> total_peers L rt"
proof -
  have "inj_on (\<lambda>n. take (Suc n) d) {..<m}"
    by (rule inj_on_inverseI [of _ "\<lambda>s. length s - 1"]) (use assms(2) in simp)
  then have "card ((\<lambda>n. take (Suc n) d) ` {..<m}) = m" by (simp add: card_image)
  moreover have "MAX_BUCKET_LEN * card ((\<lambda>n. take (Suc n) d) ` {..<m}) \<le> total_peers L rt"
    unfolding total_peers_sum
    by (rule sizes_sub [OF assms(1)])
      (use assms(3) in \<open>fastforce simp: free_at_def is_full_def bucket_size_def split: option.splits\<close>)+
  ultimately show ?thesis by simp
qed

text \<open>Filing a peer cannot panic while fewer than 960 peers are known.\<close>

lemma slot_exists:
  assumes "hm_wf (tree rt)" and "total_peers L rt < 960"
  shows "\<exists>n. slot L rt p 0 = Some n \<and> n < 32"
proof -
  let ?d = "get_binary (distance rt p)"
  have len: "32 \<le> length ?d" by (rule get_binary_length)
  have "\<exists>n < 32. free_at L rt (take (Suc n) ?d)"
  proof (rule ccontr)
    assume "\<not> ?thesis"
    then have "MAX_BUCKET_LEN * 32 \<le> total_peers L rt"
      by (intro full_prefixes_total [OF assms(1) len]) blast
    with assms(2) show False by (simp add: MAX_BUCKET_LEN_def)
  qed
  then obtain n where n: "n < 32" "free_at L rt (take (Suc n) ?d)" by blast
  have "slot L rt p 0 \<noteq> None"
    using n len unfolding slot_def find_None_iff by fastforce
  then obtain m where m: "slot L rt p 0 = Some m" by blast
  with slot_Some(4) [OF m, of n] n have "m < 32" by (cases "n < m") auto
  with m show ?thesis by blast
qed

context linked_hash_map begin

lemma length_all_peers [simp]: "length (get_all_peers E L rt) = total_peers L rt"
  using sum_list_hm_iter [of "\<lambda>(k, v). bucket_size L v" "e_ord_prefix E" "tree rt"]
  by (simp add: get_all_peers_def total_peers_sum length_concat comp_def case_prod_unfold)

lemma total_put:
  assumes "hm_wf (tree rt)"
  shows "total_peers L (put_peer L now now' p k rt) = total_peers L rt +
    (case hm_get (tree rt) k of None \<Rightarrow> 1 | Some b \<Rightarrow> if contains L b p then 0 else 1)"
  using hm_sum_insert [OF assms, of "bucket_size L" k "upsert L now' p
       (case hm_get (tree rt) k of Some b \<Rightarrow> b | None \<Rightarrow> kbucket_new L now)"]
  by (cases "hm_get (tree rt) k") (auto simp: total_peers_sum put_peer_def size_upsert split: if_splits)

lemma is_new_iff:
  "hm_wf (tree rt) \<Longrightarrow> is_new L rt p \<longleftrightarrow> (\<forall>k b. hm_get (tree rt) k = Some b \<longrightarrow> \<not> contains L b p)"
  using hm_entries [of "tree rt" _ _ "\<lambda>_. 0"]
  by (force simp: is_new_def list_ex_iff)

lemma in_all_peers:
  "hm_wf (tree rt) \<Longrightarrow> p \<in> set (get_all_peers E L rt) \<longleftrightarrow>
     (\<exists>k b. hm_get (tree rt) k = Some b \<and> p \<in> set (get_nodes L b))"
  using hm_entries [of "tree rt" _ _ "e_ord_prefix E"]
  by (fastforce simp: get_all_peers_def)

lemma rt_dense_update:
  assumes "rt_dense L rt"
  shows "rt_dense L (snd (update_peer L now now' p 0 rt))"
proof (cases "slot L rt p 0")
  case (Some n)
  let ?d = "get_binary (distance rt p)" and ?rt = "snd (update_peer L now now' p 0 rt)"
  have rt: "?rt = put_peer L now now' p (take (Suc n) ?d) rt" by (simp add: update_peer_eq Some)
  have full: "\<not> free_at L ?rt j" if "\<not> free_at L rt j" for j
    using that by (auto simp: rt free_at_def full_upsert split: option.splits)
  have "\<not> free_at L ?rt (take m k)" if k: "hm_get (tree ?rt) k = Some b" and m: "0 < m" "m < length k" for k b m
  proof (cases "k = take (Suc n) ?d")
    case True
    with m have "m \<le> n" using slot_Some(2) [OF Some] by simp
    then have "\<not> free_at L rt (take (Suc (m - 1)) ?d)"
      by (intro slot_Some(4) [OF Some]) (use m in auto)
    moreover have "take (Suc (m - 1)) ?d = take m k" using True m \<open>m \<le> n\<close> by (simp add: min_def)
    ultimately show ?thesis using full by simp
  next
    case False
    with k m assms show ?thesis by (intro full) (auto simp: rt rt_dense_def)
  qed
  then show ?thesis unfolding rt_dense_def by blast
qed (simp add: update_peer_eq assms)

text \<open>Then the prefixes stay short enough for every distance.\<close>

lemma dense_short:
  assumes "rt_ok L rt" and "rt_dense L rt" and "total_peers L rt < 960" and "hm_get (tree rt) k = Some b"
  shows "length k \<le> 32"
proof -
  have "MAX_BUCKET_LEN * (length k - 1) \<le> total_peers L rt"
  proof (rule full_prefixes_total [of _ _ k])
    show "\<not> free_at L rt (take (Suc n) k)" if "n < length k - 1" for n
      using assms(2) [unfolded rt_dense_def, rule_format, of k b "Suc n"] assms(4) that by simp
  qed (use assms(1) in \<open>simp_all add: rt_ok_def\<close>)
  with assms(3) show ?thesis by (simp add: MAX_BUCKET_LEN_def)
qed

end

section \<open>The search for close peers\<close>

lemma retain_prefix_ok:
  "list_all (\<lambda>(k, b). k \<noteq> [] \<and> length k \<le> length (get_binary d)) es \<Longrightarrow>
   retain_prefix d es = Inr (filter (\<lambda>(k, b). take (length k) (get_binary d) = k) es)"
proof (induction es)
  case (Cons e es)
  obtain k b where e: "e = (k, b)" by fastforce
  have "get_prefix d (length k - 1) = Inr (take (length k) (get_binary d))"
    using Cons.prems e by (cases k) (auto simp: get_prefix_Inr)
  with Cons e show ?case by simp
qed simp

lemma extend_until_take:
  "\<exists>j. extend_until c ret rest = ret @ concat (map snd (take j rest)) \<and>
     (c \<le> length (extend_until c ret rest) \<or> j = length rest)"
proof (induction c ret rest rule: extend_until.induct)
  case (2 c ret k ns rest)
  show ?case
  proof (cases "length ret < c")
    case True
    with 2 obtain j where "extend_until c (ret @ ns) rest = (ret @ ns) @ concat (map snd (take j rest))"
      "c \<le> length (extend_until c (ret @ ns) rest) \<or> j = length rest" by blast
    with True show ?thesis by (intro exI [of _ "Suc j"]) simp
  qed (intro exI [of _ 0], simp)
qed simp

lemma extend_until_all:
  assumes "c \<le> length (ret @ concat (map snd rest))"
  shows "c \<le> length (extend_until c ret rest)"
    "mset (extend_until c ret rest) \<subseteq># mset (ret @ concat (map snd rest))"
proof -
  obtain j where j: "extend_until c ret rest = ret @ concat (map snd (take j rest))"
    "c \<le> length (extend_until c ret rest) \<or> j = length rest" using extend_until_take [of c ret rest] by blast
  then show "c \<le> length (extend_until c ret rest)" using assms by auto
  have "concat (map snd rest) = concat (map snd (take j rest)) @ concat (map snd (drop j rest))"
    by (metis append_take_drop_id concat_append map_append)
  then show "mset (extend_until c ret rest) \<subseteq># mset (ret @ concat (map snd rest))"
    by (simp add: j(1))
qed

lemma mset_concat_map_perm:
  assumes "mset xs = mset ys"
  shows "mset (concat (map f xs)) = mset (concat (map f ys))"
proof -
  have "mset (concat (map f zs)) = sum_mset (image_mset (\<lambda>z. mset (f z)) (mset zs))" for zs
    by (induction zs) simp_all
  then show ?thesis by (simp add: assms)
qed

lemma mset_concat_map_filter: "mset (concat (map f (filter P xs))) \<subseteq># mset (concat (map f xs))"
  by (induction xs) (auto intro: subset_mset.add_increasing)

definition peer_dist :: "peer_info \<Rightarrow> peer_info \<Rightarrow> key" where
  "peer_dist target p = key_xor (peer_get_key p) (peer_get_key target)"

lemma nearest_eq: "nearest target c ps = take c (sort_key (peer_dist target) ps)"
  by (simp add: nearest_def peer_dist_def [abs_def])

lemma nearest_sorted: "sorted (map (peer_dist target) (nearest target c ps))"
  by (simp add: nearest_eq sorted_wrt_take flip: take_map)

lemma nearest_length [simp]: "length (nearest target c ps) = min c (length ps)"
  by (simp add: nearest_eq min.commute)

lemma nearest_sub: "mset (nearest target c ps) \<subseteq># mset ps"
proof -
  have "mset (take c (sort_key (peer_dist target) ps)) \<subseteq># mset (sort_key (peer_dist target) ps)"
    by (metis append_take_drop_id mset_append mset_subset_eq_add_left)
  then show ?thesis by (simp add: nearest_eq)
qed

lemma nearest_least:
  assumes "q \<in> set (nearest target c ps)" and "p \<in># mset ps - mset (nearest target c ps)"
  shows "peer_dist target q \<le> peer_dist target p"
proof -
  let ?s = "sort_key (peer_dist target) ps"
  have "mset ps = mset (take c ?s) + mset (drop c ?s)"
    by (metis append_take_drop_id mset_append mset_sort)
  then have "p \<in> set (drop c ?s)" using assms(2) by (simp add: nearest_eq)
  moreover have "q \<in> set (take c ?s)" using assms(1) by (simp add: nearest_eq)
  moreover have "sorted (map (peer_dist target) (take c ?s) @ map (peer_dist target) (drop c ?s))"
    by (simp flip: map_append)
  ultimately show ?thesis unfolding sorted_append by auto
qed

text \<open>The buckets whose prefix begins the distance of the peer sought.\<close>

definition branch :: "'m routing_table \<Rightarrow> peer_info \<Rightarrow> (string \<times> 'm kbucket) list" where
  "branch rt peer = filter (\<lambda>(k, b). take (length k) (get_binary (distance rt peer)) = k) (tree rt)"

context linked_hash_map begin

lemma concat_nodes_iter:
  "mset (concat (map (\<lambda>(k, v). get_nodes L v) (hm_iter rank es))) = mset (concat (map (\<lambda>(k, v). get_nodes L v) es))"
  by (rule mset_concat_map_perm) (simp add: hm_iter_def)

text \<open>The search sorts a part of the known peers, or all of them, and cuts it off.\<close>

lemma get_closest_peers_eq:
  assumes ok: "rt_ok L rt" and dense: "rt_dense L rt" and few: "total_peers L rt < 960"
    and more: "c < total_peers L rt"
  shows "\<exists>ps. get_closest_peers E L rt peer c = Inr (nearest peer c ps) \<and> c \<le> length ps \<and>
    mset ps \<subseteq># mset (get_all_peers E L rt) \<and>
    (sum_list (map (\<lambda>(k, v). bucket_size L v) (branch rt peer)) < c \<longrightarrow> ps = get_all_peers E L rt)"
proof -
  let ?t = "sum_list (map (\<lambda>(k, v). bucket_size L v) (branch rt peer))"
  have wf: "hm_wf (tree rt)" using ok by (simp add: rt_ok_def)
  have "k \<noteq> [] \<and> length k \<le> length (get_binary (distance rt peer))" if "(k, b) \<in> set (tree rt)" for k b
  proof -
    have get: "hm_get (tree rt) k = Some b" using that wf hm_entries [of "tree rt" k b "\<lambda>_. 0"] by simp
    from dense_short [OF ok dense few get] get_binary_length(1) [of "distance rt peer"] rt_ok_filed [OF ok get]
    show ?thesis by (auto simp: filed_def)
  qed
  then have retain: "retain_prefix (distance rt peer) (tree rt) = Inr (branch rt peer)"
    unfolding branch_def by (intro retain_prefix_ok) (auto simp: list_all_iff)
  show ?thesis
  proof (cases "branch rt peer = [] \<or> ?t < c")
    case True
    with more retain show ?thesis
      by (intro exI [of _ "get_all_peers E L rt"]) (auto simp: get_closest_peers_def fold_sizes)
  next
    case False
    let ?cl = "rev (sort_key (\<lambda>(k, v). length k)
      (map (\<lambda>(k, v). (k, get_nodes L v)) (hm_iter (e_ord_prefix E) (branch rt peer))))"
    have "length ?cl = length (branch rt peer)" by simp
    then obtain k ns rest where cl: "?cl = (k, ns) # rest"
      using False by (cases ?cl) auto
    have "mset (concat (map snd ?cl)) = mset (concat (map (\<lambda>(k, v). get_nodes L v) (branch rt peer)))"
      unfolding mset_concat_map_perm [OF mset_rev] mset_concat_map_perm [OF mset_sort]
      by (simp add: comp_def case_prod_unfold concat_nodes_iter [unfolded case_prod_unfold])
    then have nodes: "mset (ns @ concat (map snd rest)) =
        mset (concat (map (\<lambda>(k, v). get_nodes L v) (branch rt peer)))" by (simp add: cl)
    have "length (ns @ concat (map snd rest)) = ?t"
      using arg_cong [OF nodes, of size] by (simp add: length_concat comp_def case_prod_unfold)
    then have ext: "c \<le> length (extend_until c ns rest)"
      "mset (extend_until c ns rest) \<subseteq># mset (ns @ concat (map snd rest))"
      using False extend_until_all [of c ns rest] by auto
    have "mset (concat (map (\<lambda>(k, v). get_nodes L v) (branch rt peer))) \<subseteq>#
        mset (concat (map (\<lambda>(k, v). get_nodes L v) (tree rt)))"
      unfolding branch_def by (rule mset_concat_map_filter)
    then have "mset (extend_until c ns rest) \<subseteq># mset (get_all_peers E L rt)"
      using ext(2) unfolding nodes get_all_peers_def concat_nodes_iter by (rule subset_mset.trans [rotated])
    with False more retain ext(1) cl show ?thesis
      by (intro exI [of _ "extend_until c ns rest"]) (auto simp: get_closest_peers_def fold_sizes)
  qed
qed

end

section \<open>An instance of the linked hash map\<close>

setup_lifting type_definition_alist

lift_definition lru_insert :: "peer_id \<Rightarrow> peer_info \<Rightarrow> (peer_id, peer_info) alist \<Rightarrow> (peer_id, peer_info) alist"
  is "\<lambda>k v xs. filter (\<lambda>e. fst e \<noteq> k) xs @ [(k, v)]"
  by (auto simp: distinct_map_filter)

lift_definition lru_delete :: "peer_id \<Rightarrow> (peer_id, peer_info) alist \<Rightarrow> (peer_id, peer_info) alist"
  is "\<lambda>k xs. filter (\<lambda>e. fst e \<noteq> k) xs"
  by (auto simp: distinct_map_filter)

lift_definition lru_rest :: "(peer_id, peer_info) alist \<Rightarrow> (peer_id, peer_info) alist" is tl
  by (auto simp: map_tl distinct_tl)

definition lru :: "(peer_id, peer_info) alist lhm" where
  "lru = \<lparr>lhm_new = DAList.empty, lhm_insert = lru_insert,
     lhm_contains = (\<lambda>m k. list_ex (\<lambda>e. fst e = k) (DAList.impl_of m)),
     lhm_remove = (\<lambda>k m. (map_of (DAList.impl_of m) k, lru_delete k m)),
     lhm_pop_front = (\<lambda>m. (case DAList.impl_of m of [] \<Rightarrow> None | e # _ \<Rightarrow> Some e, lru_rest m)),
     lhm_len = (\<lambda>m. length (DAList.impl_of m)), lhm_iter = DAList.impl_of\<rparr>"

interpretation lru: linked_hash_map lru
  by unfold_locales
    (auto simp: lru_def empty.rep_eq lru_insert.rep_eq lru_delete.rep_eq lru_rest.rep_eq list_ex_iff)

section \<open>Tables that are built from the local peer\<close>

definition distance_of :: "peer_info \<Rightarrow> peer_info \<Rightarrow> key" where
  "distance_of li p = key_xor (peer_get_key li) (peer_get_key p)"

text \<open>The first digit of a key tells whether its first byte is zero.\<close>

lemma first_digit:
  "take (Suc 0) (get_binary k) = [if arr_list (get_key k) ! 0 = 0 then CHR ''0'' else CHR ''1'']"
  using get_binary_hd [of k] by (cases "get_binary k") (auto simp: get_key_def bin_char_def)

context linked_hash_map begin

lemma table_new:
  assumes "routing_table_new L now now' li = Inr rt"
  shows "rt_ok L rt" "rt_dense L rt" "total_peers L rt = 1" "local_info rt = li"
proof -
  have rt: "rt = \<lparr>tree = [(''0'', upsert L now' li (kbucket_new L now))], local_info = li\<rparr>"
    using assms by (simp add: routing_table_new_eq)
  have "take (Suc 0) (get_binary zero_key) = ''0''" by (simp add: first_digit get_key_def)
  then have "filed L li ''0'' (upsert L now' li (kbucket_new L now))"
    by (intro filed_upsert [of _ _ _ _ now]) (simp_all add: kx.xor_self)
  then show "rt_ok L rt" by (auto simp: rt rt_ok_def hm_wf_def hm_get_def)
  show "rt_dense L rt" by (auto simp: rt rt_dense_def hm_get_def split: if_splits)
  show "total_peers L rt = 1" by (simp add: rt total_peers_def size_upsert)
  show "local_info rt = li" by (simp add: rt)
qed

text \<open>A peer whose distance has a non-zero first byte opens the second bucket.\<close>

lemma second_bucket:
  assumes "routing_table_new L t0 t1 li = Inr rt" and "arr_list (get_key (distance_of li p)) ! 0 \<noteq> 0"
  shows "update_peer L t2 t3 p 0 rt =
    (Inr True, rt\<lparr>tree := tree rt @ [(''1'', upsert L t3 p (kbucket_new L t2))]\<rparr>)"
proof -
  let ?d = "get_binary (distance_of li p)"
  have rt: "rt = \<lparr>tree = [(''0'', upsert L t1 li (kbucket_new L t0))], local_info = li\<rparr>"
    using assms(1) by (simp add: routing_table_new_eq)
  have hd: "take (Suc 0) ?d = ''1''" using assms(2) by (simp add: first_digit)
  have "distance rt p = distance_of li p" by (simp add: rt distance_def distance_of_def)
  moreover have "slot L rt p 0 = Some 0"
    using hd calculation by (subst slot_rec) (simp add: free_at_def rt hm_get_def)
  ultimately show ?thesis
    using hd by (simp add: update_peer_eq put_peer_def rt hm_get_def hm_insert_def)
qed

lemma iter_fold_upsert:
  assumes "distinct (map pi_id ps)" and "list_all (\<lambda>p. \<not> contains L b p) ps"
  shows "lhm_iter L (nodes (fold (upsert L now) ps b)) = lhm_iter L (nodes b) @ map (\<lambda>p. (pi_id p, p)) ps"
  using assms
proof (induction ps arbitrary: b)
  case (Cons a ps)
  have "pi_id p \<noteq> pi_id a" if "p \<in> set ps" for p
    using Cons.prems(1) imageI [OF that, of pi_id] by auto
  then have "list_all (\<lambda>p. \<not> contains L (upsert L now a b) p) ps"
    using Cons.prems(2) by (simp add: list_all_iff)
  moreover have "filter (\<lambda>e. fst e \<noteq> pi_id a) (lhm_iter L (nodes b)) = lhm_iter L (nodes b)"
    using Cons.prems(2) by (force simp: filter_id_conv contains_def contains_iter)
  ultimately show ?case
    using Cons by (simp add: upsert_def Let_def iter_insert)
qed simp

lemma others_kept:
  assumes ok: "rt_ok L rt" and q: "pi_id q \<noteq> pi_id p"
  shows "q \<in> set (get_all_peers E L (put_peer L now now' p j rt)) \<longleftrightarrow> q \<in> set (get_all_peers E L rt)"
proof -
  have wf: "hm_wf (tree rt)" using ok by (simp add: rt_ok_def)
  have old: "q \<in> set (get_nodes L (upsert L now' p b)) \<longleftrightarrow> q \<in> set (get_nodes L b)"
    if b: "hm_get (tree rt) k = Some b" for k b
  proof -
    have own: "i = pi_id x" if "(i, x) \<in> set (lhm_iter L (nodes b))" for i x
      using rt_ok_filed [OF ok b] that by (auto simp: filed_def list_all_iff)
    show ?thesis using q own by (fastforce simp: set_insert get_nodes_def upsert_def Let_def)
  qed
  have new: "q \<notin> set (get_nodes L (upsert L now' p (kbucket_new L now)))"
    using q by (auto simp: set_insert get_nodes_def upsert_def kbucket_new_def Let_def iter_new)
  have "(\<exists>b. hm_get (tree (put_peer L now now' p j rt)) k = Some b \<and> q \<in> set (get_nodes L b)) \<longleftrightarrow>
      (\<exists>b. hm_get (tree rt) k = Some b \<and> q \<in> set (get_nodes L b))" for k
    using old new by (auto split: option.split)
  then show ?thesis by (simp add: in_all_peers wf del: tree_put)
qed

lemma table_run:
  assumes "routing_table_new L now now' li = Inr rt"
  shows "rt_ok L (fold (rt_step checks L) es rt)"
proof -
  have "step_system (rt_step checks L) (rt_ok L)"
    by unfold_locales (rule rt_ok_step)
  then show ?thesis using table_new(1) [OF assms] by (rule step_system.inv_run)
qed

end

section \<open>Properties\<close>

text \<open>
  C36: filing a peer tries the prefixes of its distance by length and puts the peer
  into the bucket of the first one that has no full bucket, opening it if need be; it panics
  exactly when the bucket of every prefix is full.
\<close>

theorem filing_first_free:
  "update_peer L now now' p t rt =
     (case slot L rt p t of
        None \<Rightarrow> (Inl SliceOutOfRange, rt)
      | Some n \<Rightarrow> (Inr True, put_peer L now now' p (take (Suc n) (get_binary (distance rt p))) rt)) \<and>
   (fst (update_peer L now now' p 0 rt) = Inl SliceOutOfRange \<longleftrightarrow>
     list_all (\<lambda>n. \<not> free_at L rt (take (Suc n) (get_binary (distance rt p))))
       [0..<length (get_binary (distance rt p))])"
proof -
  have "slot L rt p 0 = None \<longleftrightarrow> list_all (\<lambda>n. \<not> free_at L rt (take (Suc n) (get_binary (distance rt p))))
       [0..<length (get_binary (distance rt p))]"
    by (auto simp: slot_def find_None_iff list_all_iff)
  moreover have "fst (update_peer L now now' p 0 rt) = Inl SliceOutOfRange \<longleftrightarrow> slot L rt p 0 = None"
    by (simp add: update_peer_eq split: option.split)
  ultimately show ?thesis by (simp add: update_peer_eq)
qed

text \<open>
  C11: in a table of fewer than 960 peers filing a peer succeeds: the peer is known
  afterwards, the peers with other ids are the same as before, at most one entry more is
  present and the invariant is kept.
\<close>

theorem update_peer_files:
  assumes "linked_hash_map L" and "rt_ok L rt" and "total_peers L rt < 960"
  shows "case update_peer L now now' p 0 rt of (r, rt') \<Rightarrow>
    r = Inr True \<and> rt_ok L rt' \<and> \<not> is_new L rt' p \<and> p \<in> set (get_all_peers E L rt') \<and>
    {q \<in> set (get_all_peers E L rt'). pi_id q \<noteq> pi_id p} = {q \<in> set (get_all_peers E L rt). pi_id q \<noteq> pi_id p} \<and>
    total_peers L rt' \<le> total_peers L rt + 1 \<and> local_info rt' = local_info rt"
proof -
  note lhm = assms(1)
  have wf: "hm_wf (tree rt)" using assms(2) by (simp add: rt_ok_def)
  obtain n where n: "slot L rt p 0 = Some n" using slot_exists [OF wf assms(3)] by blast
  let ?k = "take (Suc n) (get_binary (distance rt p))"
  let ?rt = "put_peer L now now' p ?k rt"
  have u: "update_peer L now now' p 0 rt = (Inr True, ?rt)" by (simp add: update_peer_eq n)
  have ok: "rt_ok L ?rt"
    using linked_hash_map.rt_ok_put [OF lhm assms(2) slot_Some(2,3) [OF n]] .
  then have wf': "hm_wf (tree ?rt)" by (simp add: rt_ok_def)
  have get: "hm_get (tree ?rt) ?k = Some (upsert L now' p
      (case hm_get (tree rt) ?k of Some b \<Rightarrow> b | None \<Rightarrow> kbucket_new L now))" by simp
  have "\<not> is_new L ?rt p"
    using get linked_hash_map.is_new_iff [OF lhm wf'] linked_hash_map.contains_upsert [OF lhm] by blast
  moreover have "p \<in> set (get_all_peers E L ?rt)"
    using get linked_hash_map.in_all_peers [OF lhm wf'] linked_hash_map.in_upsert [OF lhm] by blast
  moreover note linked_hash_map.others_kept [OF lhm assms(2), where p = p and now = now and now' = now' and j = ?k and E = E]
  moreover have "total_peers L ?rt \<le> total_peers L rt + 1"
    using linked_hash_map.total_put [OF lhm wf, of now now' p ?k] by (simp split: option.splits)
  ultimately show ?thesis using ok by (auto simp: u)
qed

text \<open>
  C20: from a new table, after any sequence of filings, removals of a least
  recently used peer and removals of a peer, panics included, the prefixes are unique and not
  empty, every bucket holds at most 30 peers, and every peer lies under its own id in a bucket
  whose prefix begins the digits of its distance.
\<close>

theorem routing_run_invariant:
  assumes "linked_hash_map L" and "routing_table_new L now now' li = Inr rt"
  shows "rt_ok L (fold (rt_step checks L) es rt)"
  by (rule linked_hash_map.table_run [OF assms])

text \<open>
  C19: the search in a well-formed table of fewer than 960 peers, whose buckets were filled without
  gaps, never panics. If the table knows more peers than asked for it returns that many of
  them, no entry twice, in the order of their distance from the peer sought; otherwise it returns
  all peers of the table, in the order of the iteration and not sorted.
\<close>

theorem closest_peers_spec:
  assumes "linked_hash_map L" and "rt_ok L rt" and "rt_dense L rt" and "total_peers L rt < 960"
  shows "case get_closest_peers E L rt target c of
      Inl e \<Rightarrow> False
    | Inr ps \<Rightarrow> length ps = min c (total_peers L rt) \<and> mset ps \<subseteq># mset (get_all_peers E L rt) \<and>
        (if c < total_peers L rt then sorted (map (peer_dist target) ps) else ps = get_all_peers E L rt)"
proof (cases "c < total_peers L rt")
  case True
  from linked_hash_map.get_closest_peers_eq [OF assms True, of E target] obtain ps where
    r: "get_closest_peers E L rt target c = Inr (nearest target c ps)" "c \<le> length ps"
    "mset ps \<subseteq># mset (get_all_peers E L rt)" by blast
  have "mset (nearest target c ps) \<subseteq># mset (get_all_peers E L rt)"
    using nearest_sub r(3) by (rule subset_mset.trans)
  with r True nearest_sorted [of target c ps] show ?thesis by simp
next
  case False
  with linked_hash_map.length_all_peers [OF assms(1), of E rt] show ?thesis
    by (simp add: get_closest_peers_def)
qed

text \<open>
  When the buckets on the path of the distance hold fewer peers than
  asked for, what the search returns really are the closest peers: no peer left out is closer
  than one returned.
\<close>

theorem closest_when_branch_small:
  assumes "linked_hash_map L" and "rt_ok L rt" and "rt_dense L rt" and "total_peers L rt < 960"
    and "sum_list (map (\<lambda>(k, b). bucket_size L b) (branch rt target)) < c"
    and "get_closest_peers E L rt target c = Inr ps"
    and "q \<in> set ps" and "p \<in># mset (get_all_peers E L rt) - mset ps"
  shows "peer_dist target q \<le> peer_dist target p"
proof (cases "c < total_peers L rt")
  case True
  from linked_hash_map.get_closest_peers_eq [OF assms(1-4) True, of E target] assms(5,6)
  have "ps = nearest target c (get_all_peers E L rt)" by auto
  with assms(7,8) show ?thesis by (auto intro: nearest_least)
next
  case False
  with assms(6,8) show ?thesis by (simp add: get_closest_peers_def)
qed

text \<open>
  C38: updating a known peer whose bucket is full does not refresh that entry but
  files the peer a second time, under a longer prefix.
\<close>

theorem duplicate_filing:
  assumes "linked_hash_map L" and "rt_ok L rt" and "total_peers L rt < 960"
    and "hm_get (tree rt) (take 1 (get_binary (distance rt p))) = Some b" and "is_full L b"
    and "p \<in> set (get_nodes L b)"
  shows "2 \<le> count (mset (get_all_peers E L (snd (update_peer L now now' p 0 rt)))) p"
proof -
  note lhm = assms(1)
  have wf: "hm_wf (tree rt)" using assms(2) by (simp add: rt_ok_def)
  obtain n where n: "slot L rt p 0 = Some n" using slot_exists [OF wf assms(3)] by blast
  let ?d = "get_binary (distance rt p)"
  let ?rt = "put_peer L now now' p (take (Suc n) ?d) rt"
  have "n \<noteq> 0"
  proof
    assume "n = 0"
    with slot_Some(3) [OF n] assms(4,5) show False by (simp add: free_at_def)
  qed
  then have "length (take 1 ?d) \<noteq> length (take (Suc n) ?d)" using slot_Some(2) [OF n] by simp
  then have ne: "take 1 ?d \<noteq> take (Suc n) ?d" by metis
  have "1 * card {take 1 ?d, take (Suc n) ?d} \<le>
      sum_list (map (\<lambda>(k, b). count (mset (get_nodes L b)) p) (tree ?rt))"
  proof (rule sizes_sub)
    show "hm_wf (tree ?rt)" using wf by simp
    show "\<exists>b. hm_get (tree ?rt) k = Some b \<and> 1 \<le> count (mset (get_nodes L b)) p"
      if "k \<in> {take 1 ?d, take (Suc n) ?d}" for k
      using that ne assms(4,6) linked_hash_map.in_upsert [OF lhm]
      by (auto simp: Suc_le_eq simp del: One_nat_def)
  qed simp
  moreover have "count (mset (concat (map f es))) p = sum_list (map (\<lambda>e. count (mset (f e)) p) es)"
    for f and es :: "(string \<times> 'a kbucket) list" by (induction es) simp_all
  ultimately show ?thesis
    using ne by (simp add: update_peer_eq n get_all_peers_def sum_list_hm_iter case_prod_unfold
        del: One_nat_def)
qed

text \<open>
  C39: a peer filed in a new table whose distance has a non-zero first byte with at
  least one leading zero bit is known, yet its removal leaves the table unchanged: the removal
  looks for the bucket at the number of leading zero bits of the distance.
\<close>

theorem removal_misses:
  assumes "linked_hash_map L" and "routing_table_new L t0 t1 li = Inr rt"
    and "arr_list (get_key (distance_of li p)) ! 0 \<noteq> 0" and "0 < leading_zeros (distance_of li p)"
  shows "case update_peer L t2 t3 p 0 rt of (r, rt') \<Rightarrow>
    r = Inr True \<and> \<not> is_new L rt' p \<and> remove_peer checks L p rt' = (Inr (), rt')"
proof -
  let ?rt = "rt\<lparr>tree := tree rt @ [(''1'', upsert L t3 p (kbucket_new L t2))]\<rparr>"
  have rt: "rt = \<lparr>tree = [(''0'', upsert L t1 li (kbucket_new L t0))], local_info = li\<rparr>"
    using assms(2) by (simp add: linked_hash_map.routing_table_new_eq [OF assms(1)])
  have d: "distance ?rt p = distance_of li p" by (simp add: rt distance_def distance_of_def)
  have len: "length (take 2 (get_binary (distance_of li p))) = 2"
    using get_binary_length(1) [of "distance_of li p"] by simp
  have "usize_pred checks (length (tree ?rt)) = Inr 1" by (simp add: rt usize_pred_def)
  moreover have "min (leading_zeros (distance_of li p)) 1 = 1" using assms(4) by simp
  ultimately have "removal_prefix checks (distance_of li p) ?rt = Inr (take 2 (get_binary (distance_of li p)))"
    using len by (simp add: removal_prefix_def get_prefix_eq slice_incl_def numeral_2_eq_2)
  moreover have "hm_get (tree ?rt) (take 2 (get_binary (distance_of li p))) = None"
    using len by (cases "take 2 (get_binary (distance_of li p))") (auto simp: rt hm_get_def)
  ultimately have "remove_peer checks L p ?rt = (Inr (), ?rt)" by (simp add: remove_peer_def d)
  moreover have "\<not> is_new L ?rt p"
    using linked_hash_map.contains_upsert [OF assms(1)] by (simp add: is_new_def)
  ultimately show ?thesis by (simp add: linked_hash_map.second_bucket [OF assms(1-3)])
qed

section \<open>Concrete instances\<close>

definition demo_peer :: "string \<Rightarrow> u8 list \<Rightarrow> peer_info" where
  "demo_peer i bs = \<lparr>pi_id = PeerId i, pi_key = key_new (arr_of bs), pi_ip = addr_ip demo_addr,
     pi_port = 9292, pi_address = demo_addr\<rparr>"

definition demo_local :: peer_info where
  "demo_local = demo_peer ''local'' []"

definition demo_table :: "(peer_id, peer_info) alist routing_table" where
  "demo_table = \<lparr>tree = [(''0'', upsert lru 1 demo_local (kbucket_new lru 0))], local_info = demo_local\<rparr>"

lemma demo_table_new: "routing_table_new lru 0 1 demo_local = Inr demo_table"
  by (simp add: lru.routing_table_new_eq demo_table_def)

lemmas demo_table_facts = lru.table_new [OF demo_table_new]

lemma xor_zero_left [simp]: "key_xor zero_key k = k"
  using kx.xor_commute [of zero_key k] by (simp add: kx.xor_zero)

lemma demo_key_simps [simp]:
  "peer_get_key (demo_peer i bs) = Key (arr_of bs)" "peer_get_key demo_local = zero_key"
  "distance_of demo_local (demo_peer i bs) = Key (arr_of bs)"
  "local_info demo_table = demo_local"
  by (simp_all add: peer_get_key_def demo_peer_def demo_local_def key_new_def zero_key_def
      distance_of_def demo_table_def flip: zero_key_def)

lemma demo_first_byte: "arr_list (get_key (Key (arr_of (b # bs)))) ! 0 = b"
  by (simp add: get_key_def arr_of.rep_eq)

text \<open>
  C37: the local node with key 0 knows itself and a peer whose key begins with
  the byte 128; asked for the one peer closest to a key beginning with the byte 1 it answers with
  the other peer, although it is itself closer: both distances print with the first digit 1.
\<close>

theorem closest_not_nearest:
  "case update_peer lru 2 3 (demo_peer ''far'' [128]) 0 demo_table of (r, rt) \<Rightarrow>
     get_closest_peers E lru rt (demo_peer ''target'' [1]) 1 = Inr [demo_peer ''far'' [128]] \<and>
     demo_local \<in> set (get_all_peers E lru rt) \<and>
     peer_dist (demo_peer ''target'' [1]) demo_local < peer_dist (demo_peer ''target'' [1]) (demo_peer ''far'' [128])"
proof -
  let ?A = "demo_peer ''far'' [128]" and ?T = "demo_peer ''target'' [1]"
  let ?rt = "demo_table\<lparr>tree := tree demo_table @ [(''1'', upsert lru 3 ?A (kbucket_new lru 2))]\<rparr>"
  have u: "update_peer lru 2 3 ?A 0 demo_table = (Inr True, ?rt)"
    by (rule lru.second_bucket [OF demo_table_new]) (simp add: demo_first_byte)
  let ?d = "Key (arr_of [1])"
  have d: "distance ?rt ?T = ?d" by (simp add: distance_def)
  have hd: "take (Suc 0) (get_binary ?d) = ''1''" by (simp add: first_digit demo_first_byte)
  have total: "total_peers lru ?rt = 2"
    by (simp add: total_peers_def demo_table_def lru.size_upsert)
  have "retain_prefix ?d (tree ?rt) = Inr [(''1'', upsert lru 3 ?A (kbucket_new lru 2))]"
    using hd by (simp add: demo_table_def get_prefix_eq slice_incl_def)
  then have "get_closest_peers E lru ?rt ?T 1 = Inr [?A]"
    using total by (simp add: get_closest_peers_def d lru.size_upsert hm_iter_def lru.nodes_upsert_new
        nearest_def)
  moreover have "demo_local \<in> set (get_all_peers E lru ?rt)"
    by (auto simp: get_all_peers_def demo_table_def lru.nodes_upsert_new)
  moreover have "peer_dist ?T demo_local < peer_dist ?T ?A"
    by (simp add: peer_dist_def key_less_iff key_val_def key_bytes_xor arr_of.rep_eq)
  ultimately show ?thesis by (simp add: u)
qed

theorem update_peer_files_witness:
  "case update_peer lru 2 3 (demo_peer ''far'' [128]) 0 demo_table of (r, rt) \<Rightarrow>
     r = Inr True \<and> demo_peer ''far'' [128] \<in> set (get_all_peers ref_env lru rt)"
  using update_peer_files [OF lru.linked_hash_map_axioms demo_table_facts(1),
      where p = "demo_peer ''far'' [128]" and now = 2 and now' = 3 and E = ref_env]
  by (simp add: demo_table_facts(3) case_prod_unfold)

theorem routing_run_invariant_witness:
  "rt_ok lru (fold (rt_step True lru)
     [Update_peer 2 3 (demo_peer ''far'' [128]) 0, Remove_lru (arr_of []), Remove_peer demo_local] demo_table)"
  by (rule routing_run_invariant [OF lru.linked_hash_map_axioms demo_table_new])

theorem removal_misses_witness:
  "case update_peer lru 2 3 (demo_peer ''near'' [1]) 0 demo_table of (r, rt) \<Rightarrow>
     \<not> is_new lru rt (demo_peer ''near'' [1]) \<and>
     remove_peer True lru (demo_peer ''near'' [1]) rt = (Inr (), rt)"
proof -
  have "0 < leading_zeros (Key (arr_of [1]))"
    by (simp add: leading_zeros_def get_key_def arr_of.rep_eq u8_leading_zeros_def)
  with removal_misses [OF lru.linked_hash_map_axioms demo_table_new, where p = "demo_peer ''near'' [1]" and checks = True and ?t2.0 = 2 and ?t3.0 = 3]
  show ?thesis by (simp add: demo_first_byte case_prod_unfold)
qed

text \<open>Two peers on the other branch.\<close>

definition demo_three :: "(peer_id, peer_info) alist routing_table" where
  "demo_three = demo_table\<lparr>tree := tree demo_table @
     [(''1'', upsert lru 5 (demo_peer ''far2'' [192]) (upsert lru 3 (demo_peer ''far'' [128]) (kbucket_new lru 2)))]\<rparr>"

lemma demo_three_facts:
  "rt_ok lru demo_three" "rt_dense lru demo_three" "total_peers lru demo_three = 3"
proof -
  let ?b = "upsert lru 3 (demo_peer ''far'' [128]) (kbucket_new lru 2)"
  have "\<not> is_full lru ?b"
    using lru.size_upsert [of 3 "demo_peer ''far'' [128]" "kbucket_new lru 2"] lru.size_new [of 2]
    by (simp add: is_full_def bucket_size_def MAX_BUCKET_LEN_def)
  moreover have "filed lru demo_local ''1'' ?b"
    by (rule lru.filed_upsert [of _ _ _ _ 2]) (simp_all add: first_digit demo_first_byte)
  ultimately have "filed lru demo_local ''1'' (upsert lru 5 (demo_peer ''far2'' [192]) ?b)"
    by (intro lru.filed_upsert [of _ _ _ _ 2]) (simp_all add: first_digit demo_first_byte)
  then show "rt_ok lru demo_three"
    using demo_table_facts(1)
    by (auto simp: rt_ok_def demo_three_def demo_table_def hm_wf_def hm_get_def split: if_splits)
  show "rt_dense lru demo_three"
    by (auto simp: rt_dense_def demo_three_def demo_table_def hm_get_def split: if_splits)
  show "total_peers lru demo_three = 3"
    by (simp add: total_peers_def demo_three_def demo_table_def lru.size_upsert demo_peer_def)
qed

theorem closest_peers_spec_witness:
  "case get_closest_peers ref_env lru demo_three (demo_peer ''target'' [1]) 1 of
     Inl e \<Rightarrow> False | Inr ps \<Rightarrow> length ps = 1 \<and> set ps \<subseteq> set (get_all_peers ref_env lru demo_three)"
  using closest_peers_spec [OF lru.linked_hash_map_axioms demo_three_facts(1,2),
      where E = ref_env and target = "demo_peer ''target'' [1]" and c = 1]
  by (auto simp: demo_three_facts(3) split: sum.splits dest!: set_mset_mono)

theorem closest_when_branch_small_witness:
  "\<exists>ps q p. get_closest_peers ref_env lru demo_three demo_local 2 = Inr ps \<and> q \<in> set ps \<and>
     p \<in># mset (get_all_peers ref_env lru demo_three) - mset ps \<and>
     peer_dist demo_local q \<le> peer_dist demo_local p"
proof -
  have branch: "branch demo_three demo_local = [(''0'', upsert lru 1 demo_local (kbucket_new lru 0))]"
    by (simp add: branch_def demo_three_def demo_table_def distance_def first_digit get_key_def)
  obtain ps where ps: "get_closest_peers ref_env lru demo_three demo_local 2 = Inr (nearest demo_local 2 ps)"
    "2 \<le> length ps" "branch demo_three demo_local \<noteq> [] \<Longrightarrow> ps = get_all_peers ref_env lru demo_three"
    using lru.get_closest_peers_eq [OF demo_three_facts(1,2), of 2 ref_env demo_local]
    by (auto simp: demo_three_facts(3) branch lru.size_upsert)
  let ?r = "nearest demo_local 2 ps" and ?all = "get_all_peers ref_env lru demo_three"
  have "length ?r = 2" using ps(2) by simp
  then obtain q where q: "q \<in> set ?r" by (cases ?r) auto
  have "size (mset ?r) \<noteq> size (mset ?all)" using \<open>length ?r = 2\<close> by (simp add: demo_three_facts(3))
  then have "mset ?r \<noteq> mset ?all" by metis
  moreover have "mset ?r \<subseteq># mset ?all" using ps(3) nearest_sub [of demo_local 2 ps] by (simp add: branch)
  ultimately have "mset ?all - mset ?r \<noteq> {#}" by (metis Diff_eq_empty_iff_mset subset_mset.antisym)
  then obtain p where p: "p \<in># mset ?all - mset ?r" by (meson multiset_nonemptyE)
  have "peer_dist demo_local q \<le> peer_dist demo_local p"
    by (rule closest_when_branch_small [OF lru.linked_hash_map_axioms demo_three_facts(1,2) _ _ ps(1) q p])
      (simp_all add: demo_three_facts(3) branch lru.size_upsert)
  with ps(1) p q show ?thesis by blast
qed

text \<open>Thirty peers with the key of the local node fill its bucket.\<close>

definition demo_crowd :: "peer_info list" where
  "demo_crowd = map (\<lambda>i. demo_peer (replicate i CHR ''x'') []) [0..<30]"

definition demo_full_bucket :: "(peer_id, peer_info) alist kbucket" where
  "demo_full_bucket = fold (upsert lru 1) demo_crowd (kbucket_new lru 0)"

definition demo_full_table :: "(peer_id, peer_info) alist routing_table" where
  "demo_full_table = \<lparr>tree = [(''0'', demo_full_bucket)], local_info = demo_local\<rparr>"

lemma demo_crowd_iter: "lhm_iter lru (nodes demo_full_bucket) = map (\<lambda>p. (pi_id p, p)) demo_crowd"
proof -
  have "distinct (map pi_id demo_crowd)"
    by (simp add: demo_crowd_def distinct_map inj_on_def demo_peer_def)
  then show ?thesis
    unfolding demo_full_bucket_def
    by (subst lru.iter_fold_upsert) (simp_all add: list_all_iff, simp add: kbucket_new_def lru.iter_new)
qed

lemma demo_full_size: "lhm_len lru (nodes demo_full_bucket) = 30"
  by (simp add: lru.len_iter demo_crowd_iter demo_crowd_def)

lemma demo_full_ok: "rt_ok lru demo_full_table"
proof -
  have "take (Suc 0) (get_binary (Key (arr_of []))) = ''0''"
    by (simp add: first_digit get_key_def arr_of.rep_eq)
  then have "filed lru demo_local ''0'' demo_full_bucket"
    unfolding filed_def demo_crowd_iter bucket_size_def demo_full_size
    by (simp add: MAX_BUCKET_LEN_def list_all_iff demo_crowd_def)
  then show ?thesis
    by (simp add: rt_ok_def demo_full_table_def hm_wf_def hm_get_def)
qed

theorem duplicate_filing_witness:
  "2 \<le> count (mset (get_all_peers ref_env lru
     (snd (update_peer lru 2 3 (demo_peer [] []) 0 demo_full_table)))) (demo_peer [] [])"
proof (rule duplicate_filing [OF lru.linked_hash_map_axioms demo_full_ok])
  show "total_peers lru demo_full_table < 960"
    by (simp add: total_peers_def demo_full_table_def bucket_size_def demo_full_size)
  show "hm_get (tree demo_full_table) (take 1 (get_binary (distance demo_full_table (demo_peer [] [])))) =
      Some demo_full_bucket"
    by (simp add: demo_full_table_def hm_get_def distance_def first_digit get_key_def arr_of.rep_eq)
  show "is_full lru demo_full_bucket" by (simp add: is_full_def demo_full_size MAX_BUCKET_LEN_def)
  have "0 \<in> set [0..<30 :: nat]" by simp
  then have "demo_peer (replicate 0 CHR ''x'') [] \<in> set demo_crowd"
    unfolding demo_crowd_def set_map by (rule imageI)
  then show "demo_peer [] [] \<in> set (get_nodes lru demo_full_bucket)"
    by (simp add: get_nodes_def demo_crowd_iter)
qed

end
