(* ===== verification/Kad.thy ===== *)
theory Kad
  imports Routing
begin

text \<open>
  Peer discovery (\<open>src/discovery/kad.rs\<close>): the handler of requests and responses,
  which keeps the routing table and queues messages for the transport layer. A state is the struct
  together with a counter of the readings of the clock and the random source
  (\<open>Instant::now\<close>, \<open>timestamp_now\<close>, \<open>rand::random\<close>); the
  counter is not part of the program. Proved: what each request and response does, which messages
  they send and to whom; that no message changes the local peer or the pending set or withdraws a
  queued message, and the invariant of the table; that the two handlers, which call each other,
  need no more than two frames; which messages make the handler panic.
\<close>

section \<open>State\<close>

record 'm kademlia =
  kd_table :: "'m routing_table"
  kd_to_transport :: "(socket_addr \<times> message) chan"
  kd_from_transport :: "(socket_addr \<times> kad_message) chan"
  kd_pending :: "message_key hset"
  kd_interval :: nat
  kd_ping_pong :: nat

type_synonym 'm kads = "'m kademlia \<times> nat"

definition kademlia_new ::
    "'m routing_table \<Rightarrow> (socket_addr \<times> message) chan \<Rightarrow> (socket_addr \<times> kad_message) chan \<Rightarrow>
     message_key hset \<Rightarrow> nat \<Rightarrow> nat \<Rightarrow> 'm kademlia" where
  "kademlia_new rt tt ft pend interval ping_pong =
     \<lparr>kd_table = rt, kd_to_transport = tt, kd_from_transport = ft, kd_pending = pend,
      kd_interval = interval, kd_ping_pong = ping_pong\<rparr>"

text \<open>The local peer, a fresh random key, and a message for the transport layer.\<close>

definition get_local :: "('m kads, peer_info) act" where
  "get_local = act_get (\<lambda>(kd, t). local_info (kd_table kd))"

definition draw_key :: "env \<Rightarrow> ('m kads, message_key) act" where
  "draw_key E = act_bind (act_get (\<lambda>(kd, t). message_key_rand (e_rand E) t)) (\<lambda>k.
     act_then (act_modify (\<lambda>(kd, t). (kd, t + 32))) (act_ret k))"

definition to_transport :: "socket_addr \<Rightarrow> message \<Rightarrow> ('m kads, unit) act" where
  "to_transport a m =
     act_modify (\<lambda>(kd, t). (kd\<lparr>kd_to_transport := chan_send (a, m) (kd_to_transport kd)\<rparr>, t))"

section \<open>Preparing messages\<close>

fun unwrap_all :: "('a \<Rightarrow> 'b option) \<Rightarrow> 'a list \<Rightarrow> ('s, 'b list) act" where
  "unwrap_all f [] = act_ret []"
| "unwrap_all f (x # xs) =
     act_bind (act_unwrap (f x)) (\<lambda>b. act_bind (unwrap_all f xs) (\<lambda>bs. act_ret (b # bs)))"

definition request_message :: "env \<Rightarrow> req \<Rightarrow> ('s, message) act" where
  "request_message E r =
     act_bind (act_unwrap (as_bytes (e_req E) r)) (\<lambda>b.
     act_bind (act_unwrap (as_bytes (e_kad E) (KadRequest b))) (\<lambda>m.
     act_ret \<lparr>head = Request, msg = m\<rparr>))"

definition response_message :: "env \<Rightarrow> resp \<Rightarrow> ('s, message) act" where
  "response_message E r =
     act_bind (act_unwrap (as_bytes (e_resp E) r)) (\<lambda>b.
     act_bind (act_unwrap (as_bytes (e_kad E) (KadResponse b))) (\<lambda>m.
     act_ret \<lparr>head = Response, msg = m\<rparr>))"

text \<open>The part shared by the requests of the local node: a fresh id, the local peer, the call.\<close>

definition own_request :: "env \<Rightarrow> rpc \<Rightarrow> ('m kads, message_key \<times> message) act" where
  "own_request E rpc =
     act_bind get_local (\<lambda>li.
     act_bind (draw_key E) (\<lambda>k.
     act_bind (act_unwrap (as_bytes (e_peer E) li)) (\<lambda>sender.
     act_bind (act_unwrap (as_bytes (e_rpc E) rpc)) (\<lambda>payload.
     let r = \<lparr>req_id = inner k, req_sender = sender, req_payload = payload\<rparr> in
     act_bind (request_message E r) (\<lambda>m. act_ret (from_inner (req_id r), m))))))"

definition prepare_nodes_response_message ::
    "env \<Rightarrow> req \<Rightarrow> peer_info list \<Rightarrow> ('m kads, message) act" where
  "prepare_nodes_response_message E r ns =
     act_bind (unwrap_all (as_bytes (e_peer E)) ns) (\<lambda>nodes_vec.
     act_bind get_local (\<lambda>li.
     act_bind (act_unwrap (as_bytes (e_req E) r)) (\<lambda>request.
     act_bind (act_unwrap (as_bytes (e_peer E) li)) (\<lambda>receiver.
     act_bind (act_unwrap (as_bytes (e_rpc E) (Nodes nodes_vec))) (\<lambda>payload.
     response_message E \<lparr>resp_request = request, resp_receiver = receiver, resp_payload = payload\<rparr>)))))"

definition prepare_find_node_message ::
    "env \<Rightarrow> peer_info \<Rightarrow> req option \<Rightarrow> ('m kads, message_key \<times> message) act" where
  "prepare_find_node_message E peer opt =
     (case opt of
        Some r \<Rightarrow> act_bind (request_message E r) (\<lambda>m. act_ret (from_inner (req_id r), m))
      | None \<Rightarrow> act_bind (act_unwrap (as_bytes (e_peer E) peer)) (\<lambda>b. own_request E (FindNode b)))"

definition prepare_new_peer_message :: "env \<Rightarrow> peer_info \<Rightarrow> ('m kads, message_key \<times> message) act" where
  "prepare_new_peer_message E peer =
     act_bind (act_unwrap (as_bytes (e_peer E) peer)) (\<lambda>b. own_request E (NewPeer b))"

definition prepare_ping_message :: "env \<Rightarrow> ('m kads, message_key \<times> message) act" where
  "prepare_ping_message E = own_request E Ping"

definition prepare_pong_response :: "env \<Rightarrow> peer_info \<Rightarrow> req \<Rightarrow> ('m kads, message) act" where
  "prepare_pong_response E peer r =
     act_bind get_local (\<lambda>li.
     act_bind (act_unwrap (as_bytes (e_peer E) li)) (\<lambda>b.
     act_bind (act_unwrap (as_bytes (e_req E) r)) (\<lambda>request.
     act_bind (act_unwrap (as_bytes (e_peer E) peer)) (\<lambda>receiver.
     act_bind (act_unwrap (as_bytes (e_rpc E) (Pong b))) (\<lambda>payload.
     response_message E \<lparr>resp_request = request, resp_receiver = receiver, resp_payload = payload\<rparr>)))))"

section \<open>Operations\<close>

text \<open>Filing a peer reads the clock at most twice.\<close>

definition kad_update :: "env \<Rightarrow> 'm lhm \<Rightarrow> peer_info \<Rightarrow> ('m kads, unit) act" where
  "kad_update E L p = (\<lambda>(kd, t).
     case update_peer L (e_now E t) (e_now E (t + 1)) p 0 (kd_table kd) of
       (r, rt) \<Rightarrow> (map_sum id (\<lambda>_. ()) r, (kd\<lparr>kd_table := rt\<rparr>, t + 2)))"

definition add_peer :: "env \<Rightarrow> 'm lhm \<Rightarrow> bytes \<Rightarrow> ('m kads, unit) act" where
  "add_peer E L peer = act_bind (act_unwrap (from_bytes (e_peer E) peer)) (kad_update E L)"

definition bootstrap :: "env \<Rightarrow> 'm lhm \<Rightarrow> socket_addr \<Rightarrow> ('m kads, unit) act" where
  "bootstrap E L addr =
     act_bind get_local (\<lambda>li.
     act_bind (prepare_find_node_message E li None) (\<lambda>(k, message).
     act_then (to_transport addr message)
    (act_bind get_local (\<lambda>li.
     act_bind (act_unwrap (as_bytes (e_peer E) li)) (add_peer E L)))))"

definition kad_closest :: "env \<Rightarrow> 'm lhm \<Rightarrow> peer_info \<Rightarrow> ('m kads, peer_info list) act" where
  "kad_closest E L node =
     act_bind (act_get (\<lambda>(kd, t). get_closest_peers E L (kd_table kd) node DEFAULT_N_PEERS)) act_lift"

definition lookup_node :: "env \<Rightarrow> 'm lhm \<Rightarrow> peer_info \<Rightarrow> req \<Rightarrow> ('m kads, unit) act" where
  "lookup_node E L node r =
     act_bind (kad_closest E L node) (\<lambda>closest_peers.
     act_then (case as_bytes (e_peer E) node of Some b \<Rightarrow> add_peer E L b | None \<Rightarrow> act_ret ())
    (act_bind (prepare_new_peer_message E node) (\<lambda>(k, m).
     act_bind (prepare_nodes_response_message E r closest_peers) (\<lambda>resp_msg.
     act_then (to_transport (pi_address node) resp_msg)
       (act_each closest_peers (\<lambda>peer. to_transport (get_address peer) m))))))"

text \<open>The body of the loop over the peers of a response.\<close>

definition handle_node :: "env \<Rightarrow> 'm lhm \<Rightarrow> bytes \<Rightarrow> ('m kads, unit) act" where
  "handle_node E L peer =
     (case from_bytes (e_peer E) peer of
        None \<Rightarrow> act_ret ()
      | Some info \<Rightarrow>
          act_bind (act_get (\<lambda>(kd, t). is_new L (kd_table kd) info)) (\<lambda>new.
          act_then (add_peer E L peer)
            (if new then bootstrap E L (get_address info) else act_ret ())))"

text \<open>
  The two handlers call each other on the same bytes. The first argument is the number of frames
  the stack has room for.
\<close>

fun handle_request :: "nat \<Rightarrow> env \<Rightarrow> 'm lhm \<Rightarrow> bytes \<Rightarrow> ('m kads, unit) act"
  and handle_response :: "nat \<Rightarrow> env \<Rightarrow> 'm lhm \<Rightarrow> bytes \<Rightarrow> ('m kads, unit) act"
where
  "handle_request 0 E L b = act_panic StackOverflow"
| "handle_request (Suc d) E L b =
     (case from_bytes (e_req E) b of
        None \<Rightarrow> act_ret ()
      | Some request \<Rightarrow>
          (case req_to_components E request of (k, sender, rpc) \<Rightarrow>
            act_bind (act_unwrap sender) (\<lambda>s.
            act_bind (act_unwrap (as_bytes (e_peer E) s)) (\<lambda>sb.
            act_then (add_peer E L sb)
           (act_bind (act_unwrap rpc) (\<lambda>rpc.
            case rpc of
              FindNode node \<Rightarrow>
                (case from_bytes (e_peer E) node of
                   Some peer \<Rightarrow> lookup_node E L peer request
                 | None \<Rightarrow> act_ret ())
            | NewPeer peer \<Rightarrow> add_peer E L peer
            | FindValue v \<Rightarrow> act_ret ()
            | Store k v \<Rightarrow> act_ret ()
            | Ping \<Rightarrow>
                act_bind (prepare_pong_response E s request) (\<lambda>resp_msg.
                to_transport (pi_address s) resp_msg)
            | _ \<Rightarrow> handle_response d E L b))))))"
| "handle_response 0 E L b = act_panic StackOverflow"
| "handle_response (Suc d) E L b =
     (case from_bytes (e_resp E) b of
        None \<Rightarrow> act_ret ()
      | Some rm \<Rightarrow>
          (case resp_to_components E rm of (request, receiver, rpc) \<Rightarrow>
            (case request of
               None \<Rightarrow> act_ret ()
             | Some r \<Rightarrow>
                 act_bind (act_unwrap rpc) (\<lambda>rpc.
                 case rpc of
                   Nodes ns \<Rightarrow> act_each ns (handle_node E L)
                 | Value v \<Rightarrow> act_ret ()
                 | Saved k \<Rightarrow> act_ret ()
                 | Pong peer \<Rightarrow> add_peer E L peer
                 | _ \<Rightarrow> handle_request d E L b))))"

definition kad_handle_message :: "nat \<Rightarrow> env \<Rightarrow> 'm lhm \<Rightarrow> kad_message \<Rightarrow> ('m kads, unit) act" where
  "kad_handle_message d E L m =
     (case m of
        KadRequest b \<Rightarrow> handle_request d E L b
      | KadResponse b \<Rightarrow> handle_response d E L b
      | Kill \<Rightarrow> act_ret ())"

definition kad_recv :: "nat \<Rightarrow> env \<Rightarrow> 'm lhm \<Rightarrow> ('m kads, unit) act" where
  "kad_recv d E L =
     act_bind (act_get (\<lambda>(kd, t). chan_try_recv (kd_from_transport kd))) (\<lambda>(x, c).
     act_then (act_modify (\<lambda>(kd, t). (kd\<lparr>kd_from_transport := c\<rparr>, t)))
    (act_then
      (case x of Some (src, m) \<Rightarrow> kad_handle_message d E L m | None \<Rightarrow> act_ret ())
    (act_bind (act_get (\<lambda>(kd, t). kd_interval kd < e_now E t - kd_ping_pong kd)) (\<lambda>due.
     act_then (act_modify (\<lambda>(kd, t). (kd, t + 1)))
       (if due then act_ret () else act_ret ())))))"

section \<open>What no message changes\<close>

text \<open>
  The local peer, the pending set, the receiving channel and the timer stay; messages for the
  transport layer are only added; the invariants of the table are kept.
\<close>

definition kad_keeps :: "'m lhm \<Rightarrow> 'm kads \<Rightarrow> 'm kads \<Rightarrow> bool" where
  "kad_keeps L s s' \<longleftrightarrow>
     (case (s, s') of ((kd, t), (kd', t')) \<Rightarrow>
        local_info (kd_table kd') = local_info (kd_table kd) \<and> kd_pending kd' = kd_pending kd \<and>
        kd_from_transport kd' = kd_from_transport kd \<and> kd_interval kd' = kd_interval kd \<and>
        kd_ping_pong kd' = kd_ping_pong kd \<and> ch_open (kd_to_transport kd') = ch_open (kd_to_transport kd) \<and>
        prefix (ch_queue (kd_to_transport kd)) (ch_queue (kd_to_transport kd')) \<and>
        (rt_ok L (kd_table kd) \<longrightarrow> rt_ok L (kd_table kd')) \<and>
        (rt_dense L (kd_table kd) \<longrightarrow> rt_dense L (kd_table kd')))"

interpretation kdf: frame "kad_keeps L" for L :: "'m lhm"
  by unfold_locales (auto simp: kad_keeps_def split: prod.splits)

text \<open>A reception also takes a message from the channel.\<close>

definition kad_turn_keeps :: "'m lhm \<Rightarrow> 'm kads \<Rightarrow> 'm kads \<Rightarrow> bool" where
  "kad_turn_keeps L s s' \<longleftrightarrow>
     (case (s, s') of ((kd, t), (kd', t')) \<Rightarrow>
        local_info (kd_table kd') = local_info (kd_table kd) \<and> kd_pending kd' = kd_pending kd \<and>
        ch_open (kd_from_transport kd') = ch_open (kd_from_transport kd) \<and>
        ch_open (kd_to_transport kd') = ch_open (kd_to_transport kd) \<and>
        prefix (ch_queue (kd_to_transport kd)) (ch_queue (kd_to_transport kd')) \<and>
        (rt_ok L (kd_table kd) \<longrightarrow> rt_ok L (kd_table kd')) \<and>
        (rt_dense L (kd_table kd) \<longrightarrow> rt_dense L (kd_table kd')))"

interpretation ktf: frame "kad_turn_keeps L" for L :: "'m lhm"
  by unfold_locales (auto simp: kad_turn_keeps_def split: prod.splits)

lemma kad_keeps_turn: "kad_keeps L s s' \<Longrightarrow> kad_turn_keeps L s s'"
  by (auto simp: kad_keeps_def kad_turn_keeps_def split: prod.splits)

lemma framed_kad_turn: "framed (kad_keeps L) m \<Longrightarrow> framed (kad_turn_keeps L) m"
  by (simp add: framed_def kad_keeps_turn)

section \<open>Computations that depend on the rest of the state only\<close>

definition with_pending :: "message_key hset \<Rightarrow> 'm kads \<Rightarrow> 'm kads" where
  "with_pending x = (\<lambda>(kd, t). (kd\<lparr>kd_pending := x\<rparr>, t))"

definition no_overflow :: "('s, 'a) act \<Rightarrow> bool" where
  "no_overflow m \<longleftrightarrow> (\<forall>s. fst (m s) \<noteq> Inl StackOverflow)"

lemma no_overflow_ret: "no_overflow (act_ret a)"
  by (simp add: no_overflow_def act_apply)

lemma no_overflow_get: "no_overflow (act_get g)"
  by (simp add: no_overflow_def act_apply)

lemma no_overflow_panic: "p \<noteq> StackOverflow \<Longrightarrow> no_overflow (act_panic p)"
  by (simp add: no_overflow_def act_apply)

lemma no_overflow_modify: "no_overflow (act_modify h)"
  by (simp add: no_overflow_def act_apply)

lemma no_overflow_unwrap: "no_overflow (act_unwrap x)"
  by (cases x) (simp_all add: no_overflow_def act_apply)

lemma no_overflow_bind:
  "no_overflow m \<Longrightarrow> (\<And>a. no_overflow (k a)) \<Longrightarrow> no_overflow (act_bind m k)"
  unfolding no_overflow_def act_bind_def by (auto split: prod.split sum.split) (metis fst_conv)

lemma no_overflow_then: "no_overflow m \<Longrightarrow> no_overflow k \<Longrightarrow> no_overflow (act_then m k)"
  unfolding act_then_def by (rule no_overflow_bind)

lemma no_overflow_each: "(\<And>x. no_overflow (g x)) \<Longrightarrow> no_overflow (act_each xs g)"
  by (induction xs) (auto intro: no_overflow_ret no_overflow_then)

lemmas no_overflow_rules =
  no_overflow_ret no_overflow_get no_overflow_modify no_overflow_unwrap no_overflow_bind no_overflow_then
  no_overflow_each

text \<open>
  The three properties together, which all operations of the node have: the frame is kept, the
  pending set is not consulted, the stack suffices.
\<close>

definition tame :: "'m lhm \<Rightarrow> message_key hset \<Rightarrow> ('m kads, 'a) act \<Rightarrow> bool" where
  "tame L x m \<longleftrightarrow> framed (kad_keeps L) m \<and> commutes (with_pending x) m \<and> no_overflow m"

lemma tame_ret: "tame L x (act_ret a)"
  by (simp add: tame_def kdf.framed_ret commutes_ret no_overflow_ret)

lemma tame_unwrap: "tame L x (act_unwrap v)"
  by (simp add: tame_def kdf.framed_unwrap commutes_unwrap no_overflow_unwrap)

lemma tame_bind: "tame L x m \<Longrightarrow> (\<And>a. tame L x (k a)) \<Longrightarrow> tame L x (act_bind m k)"
  by (simp add: tame_def kdf.framed_bind commutes_bind no_overflow_bind)

lemma tame_then: "tame L x m \<Longrightarrow> tame L x k \<Longrightarrow> tame L x (act_then m k)"
  by (simp add: tame_def kdf.framed_then commutes_then no_overflow_then)

lemma tame_each: "(\<And>v. tame L x (g v)) \<Longrightarrow> tame L x (act_each vs g)"
  by (simp add: tame_def kdf.framed_each commutes_each no_overflow_each)

lemma tame_get: "(\<And>s. g (with_pending x s) = g s) \<Longrightarrow> tame L x (act_get g)"
  by (simp add: tame_def kdf.framed_get commutes_get no_overflow_get)

lemma tame_modify:
  "(\<And>s. kad_keeps L s (h s)) \<Longrightarrow> (\<And>s. h (with_pending x s) = with_pending x (h s)) \<Longrightarrow>
   tame L x (act_modify h)"
  by (simp add: tame_def kdf.framed_modify commutes_modify no_overflow_modify)

lemmas tame_rules = tame_ret tame_unwrap tame_bind tame_then tame_each

lemma retain_prefix_Inl: "retain_prefix d es = Inl p \<Longrightarrow> p = SliceOutOfRange"
proof (induction es)
  case (Cons e es)
  then show ?case
    by (cases e; cases "retain_prefix d es")
      (auto simp: get_prefix_eq slice_incl_def split: if_splits)
qed simp

lemma get_closest_Inl: "get_closest_peers E L rt p c = Inl q \<Longrightarrow> q = SliceOutOfRange"
  using retain_prefix_Inl [of "distance rt p" "tree rt"]
  by (cases "retain_prefix (distance rt p) (tree rt)")
    (auto simp: get_closest_peers_def Let_def split: if_splits prod.splits)

lemma tame_basic:
  "tame L x get_local"
  "tame L x (draw_key E)"
  "tame L x (to_transport a m)"
  "tame L x (unwrap_all f vs)"
  "tame L x (kad_closest E L node)"
  "tame L x (act_get (\<lambda>(kd, t). is_new L (kd_table kd) info))"
proof -
  show "tame L x (unwrap_all f vs)" by (induction vs) (auto intro: tame_rules)
  have "no_overflow (kad_closest E L node)"
    by (auto simp: no_overflow_def kad_closest_def act_simps split: prod.split dest: get_closest_Inl)
  then show "tame L x (kad_closest E L node)"
    unfolding tame_def kad_closest_def
    by (auto simp: with_pending_def intro!: kdf.framed_rules commutes_rules commutes_get split: prod.split)
  show "tame L x (draw_key E)" unfolding draw_key_def
    by (intro tame_rules tame_get tame_modify)
      (auto simp: kad_keeps_def with_pending_def split: prod.splits)
  show "tame L x (to_transport a m)" unfolding to_transport_def
    by (intro tame_modify) (auto simp: kad_keeps_def with_pending_def split: prod.splits)
qed (auto simp: get_local_def with_pending_def intro!: tame_get)

lemma tame_prepare:
  "tame L x (request_message E r)"
  "tame L x (response_message E q)"
  "tame L x (own_request E rpc)"
  "tame L x (prepare_nodes_response_message E r ns)"
  "tame L x (prepare_find_node_message E peer opt)"
  "tame L x (prepare_new_peer_message E peer)"
  "tame L x (prepare_ping_message E)"
  "tame L x (prepare_pong_response E peer r)"
proof -
  show r: "tame L x (request_message E r)" for r
    unfolding request_message_def by (intro tame_rules)
  show q: "tame L x (response_message E q)" for q
    unfolding response_message_def by (intro tame_rules)
  show o: "tame L x (own_request E rpc)" for rpc
    unfolding own_request_def Let_def by (intro tame_rules tame_basic r)
  then show "tame L x (prepare_ping_message E)" by (simp add: prepare_ping_message_def)
  show "tame L x (prepare_nodes_response_message E r ns)"
    unfolding prepare_nodes_response_message_def by (intro tame_rules tame_basic q)
  show "tame L x (prepare_find_node_message E peer opt)"
    unfolding prepare_find_node_message_def by (cases opt) (auto intro!: tame_rules r o)
  show "tame L x (prepare_new_peer_message E peer)"
    unfolding prepare_new_peer_message_def by (intro tame_rules o)
  show "tame L x (prepare_pong_response E peer r)"
    unfolding prepare_pong_response_def by (intro tame_rules tame_basic q)
qed

text \<open>The results of calls; on calls that belong to one handler the other is not called.\<close>

definition is_answer :: "rpc \<Rightarrow> bool" where
  "is_answer rpc = (case rpc of Nodes ns \<Rightarrow> True | Value v \<Rightarrow> True | Saved k \<Rightarrow> True | Pong p \<Rightarrow> True | _ \<Rightarrow> False)"

context linked_hash_map begin

lemma tame_update: "tame L x (kad_update E L p)"
proof -
  have "framed (kad_keeps L) (kad_update E L p)"
  proof (rule framedI)
    fix s :: "'m kads"
    obtain kd t where s: "s = (kd, t)" by (cases s)
    let ?u = "update_peer L (e_now E t) (e_now E (t + 1)) p 0 (kd_table kd)"
    have "local_info (snd ?u) = local_info (kd_table kd)"
      by (simp add: update_peer_eq split: option.split)
    then show "kad_keeps L s (snd (kad_update E L p s))"
      using rt_ok_update [of "kd_table kd"] rt_dense_update [of "kd_table kd"]
      by (simp add: s kad_keeps_def kad_update_def case_prod_unfold)
  qed
  moreover have "commutes (with_pending x) (kad_update E L p)"
    by (auto simp: commutes_def kad_update_def with_pending_def split: prod.splits)
  moreover have "no_overflow (kad_update E L p)"
    by (auto simp: no_overflow_def kad_update_def update_peer_eq split: prod.split option.split)
  ultimately show ?thesis by (simp add: tame_def)
qed

lemma tame_operations:
  "tame L x (add_peer E L b)"
  "tame L x (bootstrap E L a)"
  "tame L x (handle_node E L b)"
  "tame L x (lookup_node E L node r)"
proof -
  show add: "tame L x (add_peer E L b)" for b
    unfolding add_peer_def by (intro tame_rules tame_update)
  show boot: "tame L x (bootstrap E L a)" for a
    unfolding bootstrap_def
    by (auto intro!: tame_rules tame_basic tame_prepare add split: prod.split)
  show "tame L x (handle_node E L b)"
    unfolding handle_node_def by (auto intro!: tame_rules tame_basic add boot split: option.split)
  show "tame L x (lookup_node E L node r)"
    unfolding lookup_node_def
    by (auto intro!: tame_rules tame_basic tame_prepare add split: option.split prod.split)
qed

lemmas framed_operations =
  tame_operations [unfolded tame_def, THEN conjunct1]
  tame_prepare(8) [unfolded tame_def, THEN conjunct1]
  tame_basic(3) [unfolded tame_def, THEN conjunct1]

lemmas pending_operations =
  tame_operations [unfolded tame_def, THEN conjunct2, THEN conjunct1]
  tame_prepare(8) [unfolded tame_def, THEN conjunct2, THEN conjunct1]
  tame_basic(3) [unfolded tame_def, THEN conjunct2, THEN conjunct1]

lemmas no_overflow_operations =
  tame_operations [unfolded tame_def, THEN conjunct2, THEN conjunct2]
  tame_prepare(8) [unfolded tame_def, THEN conjunct2, THEN conjunct2]
  tame_basic(3) [unfolded tame_def, THEN conjunct2, THEN conjunct2]

text \<open>Whatever the depth, the handlers keep the frame and do not consult the pending set.\<close>

lemma framed_handlers:
  "framed (kad_keeps L) (handle_request d E L b) \<and> framed (kad_keeps L) (handle_response d E L b)"
proof (induction d arbitrary: b)
  case (Suc d)
  then show ?case
    by (auto intro!: kdf.framed_rules framed_operations split: option.split prod.split rpc.split)
qed (auto intro: kdf.framed_rules)

lemma pending_handlers:
  "commutes (with_pending x) (handle_request d E L b) \<and> commutes (with_pending x) (handle_response d E L b)"
proof (induction d arbitrary: b)
  case (Suc d)
  then show ?case
    by (auto intro!: commutes_rules pending_operations split: option.split prod.split rpc.split)
qed (auto intro: commutes_rules)

lemma framed_handle_message: "framed (kad_keeps L) (kad_handle_message d E L m)"
  unfolding kad_handle_message_def
  by (auto simp: framed_handlers intro: kdf.framed_rules split: kad_message.split)

lemma pending_handle_message: "commutes (with_pending x) (kad_handle_message d E L m)"
  unfolding kad_handle_message_def
  by (auto simp: pending_handlers intro: commutes_rules split: kad_message.split)

lemma framed_kad_recv: "framed (kad_turn_keeps L) (kad_recv d E L)"
  unfolding kad_recv_def
  by (rule ktf.framed_take)
    (auto intro!: ktf.framed_rules ktf.framed_modify framed_kad_turn [OF framed_handle_message]
      simp: kad_turn_keeps_def split: prod.split option.split)

lemma no_overflow_request:
  assumes "\<And>r rpc. from_bytes (e_req E) b = Some r \<Longrightarrow> from_bytes (e_rpc E) (req_payload r) = Some rpc \<Longrightarrow>
      is_answer rpc \<Longrightarrow> no_overflow (handle_response d E L b)"
  shows "no_overflow (handle_request (Suc d) E L b)"
proof (cases "from_bytes (e_req E) b")
  case (Some r)
  show ?thesis
  proof (cases "from_bytes (e_rpc E) (req_payload r)")
    case (Some rpc)
    then show ?thesis
      using assms [OF \<open>from_bytes (e_req E) b = Some r\<close> Some] \<open>from_bytes (e_req E) b = Some r\<close>
      by (auto simp: req_to_components_def is_answer_def intro!: no_overflow_rules no_overflow_operations
          split: rpc.split option.split)
  qed (auto simp: Some req_to_components_def intro!: no_overflow_rules no_overflow_operations no_overflow_panic)
qed (simp add: no_overflow_ret)

lemma no_overflow_response:
  assumes "\<And>r rpc. from_bytes (e_resp E) b = Some r \<Longrightarrow> from_bytes (e_rpc E) (resp_payload r) = Some rpc \<Longrightarrow>
      \<not> is_answer rpc \<Longrightarrow> no_overflow (handle_request d E L b)"
  shows "no_overflow (handle_response (Suc d) E L b)"
proof (cases "from_bytes (e_resp E) b")
  case (Some r)
  show ?thesis
  proof (cases "from_bytes (e_rpc E) (resp_payload r)")
    case (Some rpc)
    then show ?thesis
      using assms [OF \<open>from_bytes (e_resp E) b = Some r\<close> Some] \<open>from_bytes (e_resp E) b = Some r\<close>
      by (auto simp: resp_to_components_def is_answer_def intro!: no_overflow_rules no_overflow_operations
          split: rpc.split option.split)
  qed (auto simp: Some resp_to_components_def intro!: no_overflow_rules no_overflow_operations
      no_overflow_panic split: option.split)
qed (simp add: no_overflow_ret)

end

text \<open>
  \<open>payload_shared E\<close>: bytes that decode both as a request and as a response carry one
  payload (in JSON the two structs have one field of that name, and a duplicate field is an
  error).
\<close>

definition payload_shared :: "env \<Rightarrow> bool" where
  "payload_shared E \<longleftrightarrow> (\<forall>b r q. from_bytes (e_req E) b = Some r \<longrightarrow> from_bytes (e_resp E) b = Some q \<longrightarrow>
     req_payload r = resp_payload q)"

lemma two_frames:
  assumes "linked_hash_map L" and "payload_shared E"
  shows "no_overflow (handle_request (Suc (Suc d)) E L b)" "no_overflow (handle_response (Suc (Suc d)) E L b)"
proof -
  note req = linked_hash_map.no_overflow_request [OF assms(1)]
  note resp = linked_hash_map.no_overflow_response [OF assms(1)]
  have same: "req_payload r = resp_payload q"
    if "from_bytes (e_req E) b = Some r" "from_bytes (e_resp E) b = Some q" for r q
    using assms(2) that by (simp add: payload_shared_def)
  show "no_overflow (handle_request (Suc (Suc d)) E L b)"
    by (rule req, rule resp) (use same in auto)
  show "no_overflow (handle_response (Suc (Suc d)) E L b)"
    by (rule resp, rule req) (use same in auto)
qed

section \<open>Messages\<close>

text \<open>What the messages of a node say: a call under an id, and the answer to a request.\<close>

definition query :: "env \<Rightarrow> peer_info \<Rightarrow> inner_key \<Rightarrow> rpc \<Rightarrow> message" where
  "query E li i rpc =
     \<lparr>head = Request, msg = the (as_bytes (e_kad E) (KadRequest (the (as_bytes (e_req E)
        \<lparr>req_id = i, req_sender = the (as_bytes (e_peer E) li), req_payload = the (as_bytes (e_rpc E) rpc)\<rparr>))))\<rparr>"

definition answer :: "env \<Rightarrow> req \<Rightarrow> peer_info \<Rightarrow> rpc \<Rightarrow> message" where
  "answer E r receiver rpc =
     \<lparr>head = Response, msg = the (as_bytes (e_kad E) (KadResponse (the (as_bytes (e_resp E)
        \<lparr>resp_request = the (as_bytes (e_req E) r), resp_receiver = the (as_bytes (e_peer E) receiver),
         resp_payload = the (as_bytes (e_rpc E) rpc)\<rparr>))))\<rparr>"

definition peer_bytes :: "env \<Rightarrow> peer_info \<Rightarrow> bytes" where
  "peer_bytes E p = the (as_bytes (e_peer E) p)"

section \<open>Known peers\<close>

definition known_ids :: "'m lhm \<Rightarrow> 'm routing_table \<Rightarrow> peer_id set" where
  "known_ids L rt = {i. \<exists>k b. hm_get (tree rt) k = Some b \<and> lhm_contains L (nodes b) i}"

definition rt_peers :: "'m lhm \<Rightarrow> 'm routing_table \<Rightarrow> peer_info set" where
  "rt_peers L rt = {p. \<exists>k b. hm_get (tree rt) k = Some b \<and> p \<in> set (get_nodes L b)}"

text \<open>A table with room for \<open>n\<close> more peers that knows the local one.\<close>

definition healthy :: "'m lhm \<Rightarrow> nat \<Rightarrow> 'm routing_table \<Rightarrow> bool" where
  "healthy L n rt \<longleftrightarrow> rt_ok L rt \<and> rt_dense L rt \<and> total_peers L rt + n \<le> 960 \<and>
     pi_id (local_info rt) \<in> known_ids L rt"

lemma healthy_less: "healthy L n rt \<Longrightarrow> m \<le> n \<Longrightarrow> healthy L m rt"
  by (auto simp: healthy_def)

context linked_hash_map begin

lemma is_new_known: "hm_wf (tree rt) \<Longrightarrow> is_new L rt p \<longleftrightarrow> pi_id p \<notin> known_ids L rt"
  by (auto simp: is_new_iff known_ids_def contains_def)

lemma known_put:
  assumes "hm_wf (tree rt)"
  shows "known_ids L (put_peer L now now' p k rt) = insert (pi_id p) (known_ids L rt)"
proof -
  have new: "\<not> lhm_contains L (lhm_new L) i" for i by (simp add: contains_iter iter_new)
  have "(\<exists>b. hm_get (tree (put_peer L now now' p k rt)) j = Some b \<and> lhm_contains L (nodes b) i) \<longleftrightarrow>
      (j = k \<and> i = pi_id p) \<or> (\<exists>b. hm_get (tree rt) j = Some b \<and> lhm_contains L (nodes b) i)" for i j
    by (auto simp: upsert_def kbucket_new_def Let_def new split: option.splits)
  then show ?thesis unfolding known_ids_def by blast
qed

lemma update_healthy:
  assumes "healthy L (Suc n) rt"
  shows "\<exists>rt'. update_peer L now now' p 0 rt = (Inr True, rt') \<and> healthy L n rt' \<and>
    known_ids L rt' = insert (pi_id p) (known_ids L rt) \<and> local_info rt' = local_info rt \<and>
    p \<in> rt_peers L rt' \<and> total_peers L rt' \<le> Suc (total_peers L rt)"
proof -
  have wf: "hm_wf (tree rt)" and "total_peers L rt < 960"
    using assms by (auto simp: healthy_def rt_ok_def)
  then obtain k where k: "slot L rt p 0 = Some k" using slot_exists by blast
  let ?rt = "put_peer L now now' p (take (Suc k) (get_binary (distance rt p))) rt"
  have u: "update_peer L now now' p 0 rt = (Inr True, ?rt)" by (simp add: update_peer_eq k)
  moreover have "rt_ok L ?rt" "rt_dense L ?rt"
    using rt_ok_update [of rt now now' p 0] rt_dense_update [of rt now now' p] assms
    by (simp_all add: u healthy_def)
  moreover have "total_peers L ?rt \<le> Suc (total_peers L rt)"
    using total_put [OF wf, of now now' p] by (simp split: option.splits)
  moreover have "p \<in> rt_peers L ?rt" using wf in_upsert by (auto simp: rt_peers_def)
  ultimately show ?thesis using assms known_put [OF wf] by (auto simp: healthy_def)
qed

lemma kad_update_ok:
  assumes "healthy L (Suc n) (kd_table kd)"
  shows "\<exists>rt. kad_update E L p (kd, t) = (Inr (), (kd\<lparr>kd_table := rt\<rparr>, t + 2)) \<and> healthy L n rt \<and>
    known_ids L rt = insert (pi_id p) (known_ids L (kd_table kd)) \<and>
    local_info rt = local_info (kd_table kd) \<and>
    rt = snd (update_peer L (e_now E t) (e_now E (t + 1)) p 0 (kd_table kd)) \<and>
    p \<in> rt_peers L rt \<and> total_peers L rt \<le> Suc (total_peers L (kd_table kd))"
proof -
  obtain rt where "update_peer L (e_now E t) (e_now E (t + 1)) p 0 (kd_table kd) = (Inr True, rt)"
    "healthy L n rt" "known_ids L rt = insert (pi_id p) (known_ids L (kd_table kd))"
    "local_info rt = local_info (kd_table kd)" "p \<in> rt_peers L rt"
    "total_peers L rt \<le> Suc (total_peers L (kd_table kd))"
    using update_healthy [OF assms, of "e_now E t" "e_now E (t + 1)" p] by metis
  then show ?thesis by (intro exI [of _ rt]) (simp add: kad_update_def)
qed

lemma closest_ok:
  assumes "healthy L (Suc n) rt"
  shows "\<exists>ps. get_closest_peers E L rt p c = Inr ps"
proof (cases "c < total_peers L rt")
  case True
  with assms get_closest_peers_eq [of rt c E p] show ?thesis by (auto simp: healthy_def)
qed (simp add: get_closest_peers_def)

end

section \<open>What the operations do\<close>

locale kad_node = wire E + linked_hash_map L for E :: env and L :: "'m lhm"
begin

lemma unwrap_all_ok: "unwrap_all (as_bytes (e_peer E)) ps = act_ret (map (peer_bytes E) ps)"
  by (induction ps) (simp_all add: peer_bytes_def peer.unwrap_enc)

lemma own_request_eq:
  "own_request E rpc (kd, t) =
     (Inr (MessageKey (rand_arr (e_rand E) t), query E (local_info (kd_table kd)) (rand_arr (e_rand E) t) rpc),
      (kd, t + 32))"
  by (simp add: own_request_def get_local_def draw_key_def request_message_def act_bind_apply
      act_then_apply act_apply peer.unwrap_enc rpc.unwrap_enc req.unwrap_enc kad.unwrap_enc
      message_key_rand_def from_inner_def query_def)

lemma response_message_eq:
  "response_message E \<lparr>resp_request = the (as_bytes (e_req E) r),
     resp_receiver = the (as_bytes (e_peer E) p), resp_payload = the (as_bytes (e_rpc E) rpc)\<rparr> s =
   (Inr (answer E r p rpc), s)"
  by (simp add: response_message_def act_bind_apply act_apply resp.unwrap_enc kad.unwrap_enc answer_def)

lemma pong_eq:
  "prepare_pong_response E p r (kd, t) =
     (Inr (answer E r p (Pong (peer_bytes E (local_info (kd_table kd))))), (kd, t))"
  by (simp add: prepare_pong_response_def get_local_def act_bind_apply act_apply peer.unwrap_enc
      rpc.unwrap_enc req.unwrap_enc response_message_eq peer_bytes_def)

lemma nodes_response_eq:
  "prepare_nodes_response_message E r ps (kd, t) =
     (Inr (answer E r (local_info (kd_table kd)) (Nodes (map (peer_bytes E) ps))), (kd, t))"
  by (simp add: prepare_nodes_response_message_def get_local_def unwrap_all_ok act_bind_apply act_apply
      peer.unwrap_enc rpc.unwrap_enc req.unwrap_enc response_message_eq)

lemma new_peer_eq:
  "prepare_new_peer_message E p (kd, t) =
     (Inr (MessageKey (rand_arr (e_rand E) t),
           query E (local_info (kd_table kd)) (rand_arr (e_rand E) t) (NewPeer (peer_bytes E p))),
      (kd, t + 32))"
  by (simp add: prepare_new_peer_message_def peer.unwrap_enc own_request_eq peer_bytes_def)

lemma find_node_eq:
  "prepare_find_node_message E p None (kd, t) =
     (Inr (MessageKey (rand_arr (e_rand E) t),
           query E (local_info (kd_table kd)) (rand_arr (e_rand E) t) (FindNode (peer_bytes E p))),
      (kd, t + 32))"
  by (simp add: prepare_find_node_message_def peer.unwrap_enc own_request_eq peer_bytes_def)

lemma add_peer_decoded: "from_bytes (e_peer E) b = Some p \<Longrightarrow> add_peer E L b = kad_update E L p"
  by (simp add: add_peer_def)

lemma add_peer_encoded: "add_peer E L (the (as_bytes (e_peer E) p)) = kad_update E L p"
  by (simp add: add_peer_decoded)

text \<open>Sending several messages.\<close>

lemma each_to_transport:
  "act_each xs (\<lambda>x. to_transport (f x) (g x)) (kd, t) =
     (Inr (), (kd\<lparr>kd_to_transport := fold chan_send (map (\<lambda>x. (f x, g x)) xs) (kd_to_transport kd)\<rparr>, t))"
proof (induction xs arbitrary: kd)
  case (Cons x xs)
  then show ?case by (simp add: to_transport_def act_then_apply act_apply)
qed (simp add: act_apply)

text \<open>A new peer asks each peer it hears of for the first time for the peers near itself.\<close>

lemma bootstrap_ok:
  assumes "healthy L (Suc n) (kd_table kd)"
  shows "\<exists>rt. bootstrap E L a (kd, t) = (Inr (), (kd\<lparr>kd_table := rt,
      kd_to_transport := chan_send (a, query E (local_info (kd_table kd)) (rand_arr (e_rand E) t)
        (FindNode (peer_bytes E (local_info (kd_table kd))))) (kd_to_transport kd)\<rparr>, t + 34)) \<and>
    healthy L n rt \<and> known_ids L rt = known_ids L (kd_table kd) \<and> local_info rt = local_info (kd_table kd)"
proof -
  let ?kd = "kd\<lparr>kd_to_transport := chan_send (a, query E (local_info (kd_table kd)) (rand_arr (e_rand E) t)
        (FindNode (peer_bytes E (local_info (kd_table kd))))) (kd_to_transport kd)\<rparr>"
  obtain rt where rt: "kad_update E L (local_info (kd_table kd)) (?kd, t + 32) = (Inr (), (?kd\<lparr>kd_table := rt\<rparr>, t + 32 + 2))"
    "healthy L n rt" "known_ids L rt = insert (pi_id (local_info (kd_table kd))) (known_ids L (kd_table kd))"
    "local_info rt = local_info (kd_table kd)"
    using kad_update_ok [of n ?kd E "local_info (kd_table kd)" "t + 32"] assms by auto
  have "pi_id (local_info (kd_table kd)) \<in> known_ids L (kd_table kd)" using assms by (simp add: healthy_def)
  with rt show ?thesis
    by (intro exI [of _ rt]) (simp add: bootstrap_def get_local_def act_bind_apply act_then_apply act_apply
        find_node_eq to_transport_def peer.unwrap_enc add_peer_encoded insert_absorb)
qed

definition hello :: "peer_info \<Rightarrow> socket_addr \<times> message \<Rightarrow> bool" where
  "hello li = (\<lambda>(a, m). \<exists>i. m = query E li i (FindNode (peer_bytes E li)))"

lemma handle_node_ok:
  assumes "healthy L (Suc (Suc n)) (kd_table kd)" and "from_bytes (e_peer E) b = Some p"
  shows "\<exists>rt ms t'. handle_node E L b (kd, t) = (Inr (), (kd\<lparr>kd_table := rt,
      kd_to_transport := fold chan_send ms (kd_to_transport kd)\<rparr>, t')) \<and>
    healthy L n rt \<and> known_ids L rt = insert (pi_id p) (known_ids L (kd_table kd)) \<and>
    local_info rt = local_info (kd_table kd) \<and> list_all (hello (local_info rt)) ms \<and>
    map fst ms = (if pi_id p \<in> known_ids L (kd_table kd) then [] else [pi_address p])"
proof -
  have wf: "hm_wf (tree (kd_table kd))" using assms(1) by (simp add: healthy_def rt_ok_def)
  obtain rt where rt: "kad_update E L p (kd, t) = (Inr (), (kd\<lparr>kd_table := rt\<rparr>, t + 2))"
    "healthy L (Suc n) rt" "known_ids L rt = insert (pi_id p) (known_ids L (kd_table kd))"
    "local_info rt = local_info (kd_table kd)"
    using kad_update_ok [OF assms(1), of E p t] by blast
  show ?thesis
  proof (cases "pi_id p \<in> known_ids L (kd_table kd)")
    case True
    with rt assms(2) healthy_less [OF rt(2), of n] show ?thesis
      by (intro exI [of _ rt] exI [of _ "[]"] exI [of _ "t + 2"])
        (simp add: handle_node_def act_bind_apply act_then_apply act_apply add_peer_decoded
          is_new_known [OF wf])
  next
    case False
    obtain rt' where rt': "bootstrap E L (pi_address p) (kd\<lparr>kd_table := rt\<rparr>, t + 2) = (Inr (), (kd\<lparr>kd_table := rt',
        kd_to_transport := chan_send (pi_address p, query E (local_info rt) (rand_arr (e_rand E) (t + 2))
          (FindNode (peer_bytes E (local_info rt)))) (kd_to_transport kd)\<rparr>, t + 2 + 34))"
      "healthy L n rt'" "known_ids L rt' = known_ids L rt" "local_info rt' = local_info rt"
      using bootstrap_ok [of n "kd\<lparr>kd_table := rt\<rparr>" "pi_address p" "t + 2"] rt(2) by auto
    let ?m = "(pi_address p, query E (local_info rt) (rand_arr (e_rand E) (t + 2))
          (FindNode (peer_bytes E (local_info rt))))"
    have "hello (local_info rt) ?m" by (auto simp: hello_def)
    with False rt rt' assms(2) show ?thesis
      by (intro exI [of _ rt'] exI [of _ "[?m]"] exI [of _ "t + 2 + 34"])
        (simp add: handle_node_def act_bind_apply act_then_apply act_apply add_peer_decoded
          is_new_known [OF wf] get_address_def)
  qed
qed

end

text \<open>The first occurrences of the peers that are not among the known ones.\<close>

fun fresh_peers :: "peer_id set \<Rightarrow> peer_info list \<Rightarrow> peer_info list" where
  "fresh_peers K [] = []"
| "fresh_peers K (p # ps) =
     (if pi_id p \<in> K then fresh_peers K ps else p # fresh_peers (insert (pi_id p) K) ps)"

fun decode_peers :: "env \<Rightarrow> bytes list \<Rightarrow> peer_info list" where
  "decode_peers E [] = []"
| "decode_peers E (b # bs) =
     (case from_bytes (e_peer E) b of None \<Rightarrow> decode_peers E bs | Some p \<Rightarrow> p # decode_peers E bs)"

context kad_node begin

lemma handle_nodes_ok:
  "healthy L (n + 2 * length ns) (kd_table kd) \<Longrightarrow>
   \<exists>rt ms t'. act_each ns (handle_node E L) (kd, t) = (Inr (), (kd\<lparr>kd_table := rt,
      kd_to_transport := fold chan_send ms (kd_to_transport kd)\<rparr>, t')) \<and>
    healthy L n rt \<and> known_ids L rt = known_ids L (kd_table kd) \<union> pi_id ` set (decode_peers E ns) \<and>
    local_info rt = local_info (kd_table kd) \<and> list_all (hello (local_info rt)) ms \<and>
    map fst ms = map pi_address (fresh_peers (known_ids L (kd_table kd)) (decode_peers E ns))"
proof (induction ns arbitrary: kd t)
  case Nil
  then show ?case
    by (intro exI [of _ "kd_table kd"] exI [of _ "[]"] exI [of _ t]) (simp add: act_apply)
next
  case (Cons b ns)
  show ?case
  proof (cases "from_bytes (e_peer E) b")
    case None
    have "healthy L (n + 2 * length ns) (kd_table kd)" using Cons.prems by (rule healthy_less) simp
    from Cons.IH [OF this, of t] None show ?thesis
      by (simp add: handle_node_def)
  next
    case (Some p)
    have "healthy L (Suc (Suc (n + 2 * length ns))) (kd_table kd)" using Cons.prems by simp
    from handle_node_ok [OF this Some, of t] obtain rt ms t' where
      1: "handle_node E L b (kd, t) = (Inr (), (kd\<lparr>kd_table := rt,
            kd_to_transport := fold chan_send ms (kd_to_transport kd)\<rparr>, t'))"
      "healthy L (n + 2 * length ns) rt" "known_ids L rt = insert (pi_id p) (known_ids L (kd_table kd))"
      "local_info rt = local_info (kd_table kd)" "list_all (hello (local_info rt)) ms"
      "map fst ms = (if pi_id p \<in> known_ids L (kd_table kd) then [] else [pi_address p])" by blast
    let ?kd = "kd\<lparr>kd_table := rt, kd_to_transport := fold chan_send ms (kd_to_transport kd)\<rparr>"
    from Cons.IH [of ?kd t'] 1(2) obtain rt' ms' t'' where
      2: "act_each ns (handle_node E L) (?kd, t') = (Inr (), (?kd\<lparr>kd_table := rt',
            kd_to_transport := fold chan_send ms' (fold chan_send ms (kd_to_transport kd))\<rparr>, t''))"
      "healthy L n rt'" "known_ids L rt' = known_ids L rt \<union> pi_id ` set (decode_peers E ns)"
      "local_info rt' = local_info rt" "list_all (hello (local_info rt')) ms'"
      "map fst ms' = map pi_address (fresh_peers (known_ids L rt) (decode_peers E ns))" by auto
    have "insert (pi_id p) (known_ids L (kd_table kd)) = known_ids L (kd_table kd)"
      if "pi_id p \<in> known_ids L (kd_table kd)" using that by blast
    with 1 2 Some show ?thesis
      by (intro exI [of _ rt'] exI [of _ "ms @ ms'"] exI [of _ t'']) (auto simp: act_then_apply)
  qed
qed

lemma ping_ok:
  assumes "from_bytes (e_req E) b = Some r" and "from_bytes (e_peer E) (req_sender r) = Some s"
    and "from_bytes (e_rpc E) (req_payload r) = Some Ping" and "healthy L (Suc n) (kd_table kd)"
  shows "\<exists>rt. handle_request (Suc d) E L b (kd, t) = (Inr (), (kd\<lparr>kd_table := rt,
      kd_to_transport := chan_send (pi_address s, answer E r s (Pong (peer_bytes E (local_info (kd_table kd)))))
        (kd_to_transport kd)\<rparr>, t + 2)) \<and>
    healthy L n rt \<and> known_ids L rt = insert (pi_id s) (known_ids L (kd_table kd))"
proof -
  obtain rt where rt: "kad_update E L s (kd, t) = (Inr (), (kd\<lparr>kd_table := rt\<rparr>, t + 2))" "healthy L n rt"
    "known_ids L rt = insert (pi_id s) (known_ids L (kd_table kd))" "local_info rt = local_info (kd_table kd)"
    using kad_update_ok [OF assms(4), of E s t] by blast
  with assms(1-3) show ?thesis
    by (intro exI [of _ rt]) (simp add: req_to_components_def peer.unwrap_enc add_peer_encoded
        act_then_apply act_bind_apply pong_eq to_transport_def act_apply)
qed

lemma lookup_node_ok:
  assumes "healthy L (Suc n) (kd_table kd)"
    and ps: "get_closest_peers E L (kd_table kd) node DEFAULT_N_PEERS = Inr ps"
  shows "\<exists>rt. lookup_node E L node r (kd, t) = (Inr (), (kd\<lparr>kd_table := rt, kd_to_transport := fold chan_send
      ((pi_address node, answer E r (local_info (kd_table kd)) (Nodes (map (peer_bytes E) ps))) #
       map (\<lambda>p. (pi_address p, query E (local_info (kd_table kd)) (rand_arr (e_rand E) (t + 2))
         (NewPeer (peer_bytes E node)))) ps) (kd_to_transport kd)\<rparr>, t + 2 + 32)) \<and>
    healthy L n rt \<and> known_ids L rt = insert (pi_id node) (known_ids L (kd_table kd)) \<and>
    node \<in> rt_peers L rt \<and> total_peers L rt \<le> Suc (total_peers L (kd_table kd))"
proof -
  obtain rt where rt: "kad_update E L node (kd, t) = (Inr (), (kd\<lparr>kd_table := rt\<rparr>, t + 2))" "healthy L n rt"
    "known_ids L rt = insert (pi_id node) (known_ids L (kd_table kd))" "local_info rt = local_info (kd_table kd)"
    "node \<in> rt_peers L rt" "total_peers L rt \<le> Suc (total_peers L (kd_table kd))"
    using kad_update_ok [OF assms(1), of E node t] by blast
  have closest: "kad_closest E L node (kd, t) = (Inr ps, (kd, t))"
    by (simp add: kad_closest_def act_bind_apply act_apply ps)
  have "as_bytes (e_peer E) node = Some (peer_bytes E node)" using peer.enc_Some by (simp add: peer_bytes_def)
  moreover have "add_peer E L (peer_bytes E node) = kad_update E L node" by (simp add: peer_bytes_def add_peer_encoded)
  ultimately show ?thesis using rt
    by (intro exI [of _ rt]) (simp add: lookup_node_def act_bind_apply act_then_apply closest new_peer_eq
        nodes_response_eq to_transport_def [of "pi_address node"] act_apply each_to_transport get_address_def
        del: add_2_eq_Suc add_2_eq_Suc')
qed

lemma find_node_ok:
  assumes "from_bytes (e_req E) b = Some r" and "from_bytes (e_peer E) (req_sender r) = Some s"
    and "from_bytes (e_rpc E) (req_payload r) = Some (FindNode nb)" and "from_bytes (e_peer E) nb = Some node"
    and "healthy L (Suc (Suc n)) (kd_table kd)"
  shows "\<exists>rt ps. get_closest_peers E L (snd (update_peer L (e_now E t) (e_now E (t + 1)) s 0 (kd_table kd)))
      node DEFAULT_N_PEERS = Inr ps \<and>
    handle_request (Suc d) E L b (kd, t) = (Inr (), (kd\<lparr>kd_table := rt, kd_to_transport := fold chan_send
      ((pi_address node, answer E r (local_info (kd_table kd)) (Nodes (map (peer_bytes E) ps))) #
       map (\<lambda>p. (pi_address p, query E (local_info (kd_table kd)) (rand_arr (e_rand E) (t + 2 + 2))
         (NewPeer (peer_bytes E node)))) ps) (kd_to_transport kd)\<rparr>, t + 2 + 2 + 32)) \<and>
    healthy L n rt \<and> known_ids L rt = known_ids L (kd_table kd) \<union> {pi_id s, pi_id node} \<and>
    node \<in> rt_peers L rt \<and> total_peers L rt \<le> Suc (Suc (total_peers L (kd_table kd)))"
proof -
  obtain rt where rt: "kad_update E L s (kd, t) = (Inr (), (kd\<lparr>kd_table := rt\<rparr>, t + 2))" "healthy L (Suc n) rt"
    "known_ids L rt = insert (pi_id s) (known_ids L (kd_table kd))" "local_info rt = local_info (kd_table kd)"
    "rt = snd (update_peer L (e_now E t) (e_now E (t + 1)) s 0 (kd_table kd))"
    "total_peers L rt \<le> Suc (total_peers L (kd_table kd))"
    using kad_update_ok [OF assms(5), of E s t] by blast
  obtain ps where ps: "get_closest_peers E L rt node DEFAULT_N_PEERS = Inr ps"
    using closest_ok [OF rt(2)] by blast
  let ?kd = "kd\<lparr>kd_table := rt\<rparr>"
  from lookup_node_ok [of n ?kd node ps r "t + 2"] rt(2) ps obtain rt' where
    l: "lookup_node E L node r (?kd, t + 2) = (Inr (), (?kd\<lparr>kd_table := rt', kd_to_transport := fold chan_send
      ((pi_address node, answer E r (local_info (kd_table ?kd)) (Nodes (map (peer_bytes E) ps))) #
       map (\<lambda>p. (pi_address p, query E (local_info (kd_table ?kd)) (rand_arr (e_rand E) (t + 2 + 2))
         (NewPeer (peer_bytes E node)))) ps) (kd_to_transport ?kd)\<rparr>, t + 2 + 2 + 32))"
    and k: "healthy L n rt'" "known_ids L rt' = insert (pi_id node) (known_ids L rt)"
      "node \<in> rt_peers L rt'" "total_peers L rt' \<le> Suc (total_peers L rt)" by auto
  have "handle_request (Suc d) E L b (kd, t) = lookup_node E L node r (?kd, t + 2)"
    using assms(1-4) rt(1) by (simp add: req_to_components_def peer.unwrap_enc add_peer_encoded act_then_apply)
  moreover have "total_peers L rt' \<le> Suc (Suc (total_peers L (kd_table kd)))" using k(4) rt(6) by simp
  ultimately show ?thesis using l k(1-3) ps rt(3,4,5)
    by (intro exI [of _ rt'] exI [of _ ps]) (simp del: add_2_eq_Suc add_2_eq_Suc', blast)
qed

text \<open>A request whose call, or whose new peer, cannot be decoded, and one that can be carried out.\<close>

lemma request_unreadable:
  assumes "from_bytes (e_req E) b = Some r" and "from_bytes (e_peer E) (req_sender r) = Some s"
    and "case from_bytes (e_rpc E) (req_payload r) of
      None \<Rightarrow> True | Some (NewPeer p) \<Rightarrow> from_bytes (e_peer E) p = None | Some rpc \<Rightarrow> False"
    and "kad_update E L s (kd, t) = (Inr (), s')"
  shows "handle_request (Suc d) E L b (kd, t) = (Inl UnwrapNone, s')"
proof -
  note step = assms(1,2,4) req_to_components_def peer.unwrap_enc add_peer_encoded act_then_apply act_bind_apply act_apply
  show ?thesis
  proof (cases "from_bytes (e_rpc E) (req_payload r)")
    case (Some rpc)
    have "from_bytes (e_peer E) p = None \<Longrightarrow> add_peer E L p = act_panic UnwrapNone" for p
      by (simp add: add_peer_def)
    with assms(3) Some show ?thesis by (cases rpc) (simp_all add: step)
  qed (simp add: step)
qed

lemma request_carried_out:
  assumes "from_bytes (e_req E) b = Some r" and "from_bytes (e_resp E) b = None"
    and "from_bytes (e_peer E) (req_sender r) = Some s" and rpc: "from_bytes (e_rpc E) (req_payload r) = Some rpc"
    and "\<And>p. rpc = NewPeer p \<Longrightarrow> from_bytes (e_peer E) p \<noteq> None"
    and "healthy L (Suc (Suc n)) (kd_table kd)"
  shows "\<exists>kd' t'. handle_request (Suc (Suc d)) E L b (kd, t) = (Inr (), (kd', t')) \<and>
    insert (pi_id s) (known_ids L (kd_table kd)) \<subseteq> known_ids L (kd_table kd')"
proof -
  obtain rt where rt: "kad_update E L s (kd, t) = (Inr (), (kd\<lparr>kd_table := rt\<rparr>, t + 2))" "healthy L (Suc n) rt"
    "known_ids L rt = insert (pi_id s) (known_ids L (kd_table kd))"
    using kad_update_ok [OF assms(6), of E s t] by blast
  note step = assms(1,3) rpc rt(1,3) req_to_components_def peer.unwrap_enc add_peer_encoded add_peer_decoded
    act_then_apply act_bind_apply act_apply
  show ?thesis
  proof (cases rpc)
    case Ping
    from ping_ok [OF assms(1,3) rpc [unfolded Ping] assms(6), of "Suc d" t]
    show ?thesis by (elim exE conjE) (simp del: handle_request.simps, blast)
  next
    case (FindNode nb)
    show ?thesis
    proof (cases "from_bytes (e_peer E) nb")
      case (Some node)
      from find_node_ok [OF assms(1,3) rpc [unfolded FindNode] Some assms(6), of t "Suc d"]
      show ?thesis by (elim exE conjE) (simp del: handle_request.simps, blast)
    qed (auto simp: step FindNode)
  next
    case (NewPeer p)
    with assms(5) obtain q where q: "from_bytes (e_peer E) p = Some q" by auto
    from kad_update_ok [of n "kd\<lparr>kd_table := rt\<rparr>" E q "t + 2"] rt(2) NewPeer q show ?thesis by (auto simp: step)
  qed (auto simp: step assms(2))
qed

end

section \<open>Properties\<close>

text \<open>
  The messages of a node decode to what they were made of: a request to its
  id, the local peer and the call, an answer to the request it answers, the receiver and the
  result.
\<close>

theorem kad_messages_decode:
  assumes "wire E"
  shows "(case from_bytes (e_kad E) (msg (query E li i rpc)) of
      Some (KadRequest b) \<Rightarrow>
        (case from_bytes (e_req E) b of
           Some r \<Rightarrow> req_to_components E r = (MessageKey i, Some li, Some rpc) | None \<Rightarrow> False)
    | _ \<Rightarrow> False) \<and>
    (case from_bytes (e_kad E) (msg (answer E q receiver rpc)) of
      Some (KadResponse b) \<Rightarrow>
        (case from_bytes (e_resp E) b of
           Some r \<Rightarrow> resp_to_components E r = (Some q, Some receiver, Some rpc) | None \<Rightarrow> False)
    | _ \<Rightarrow> False)"
proof -
  have "codec (as_bytes (e_kad E)) (from_bytes (e_kad E))" "codec (as_bytes (e_req E)) (from_bytes (e_req E))"
    "codec (as_bytes (e_resp E)) (from_bytes (e_resp E))" "codec (as_bytes (e_peer E)) (from_bytes (e_peer E))"
    "codec (as_bytes (e_rpc E)) (from_bytes (e_rpc E))"
    using assms by (simp_all add: wire_def serde_codec)
  note dec = this [THEN codec.dec_the_enc]
  show ?thesis
    by (simp add: query_def answer_def dec req_to_components_def resp_to_components_def from_inner_def)
qed

text \<open>
  C23: a ping files its sender and is answered by exactly one message, to the address
  in the sender's peer information, which carries the ping and the local peer.
\<close>

theorem ping_answered:
  assumes "kad_node E L" and "from_bytes (e_req E) b = Some r"
    and "from_bytes (e_peer E) (req_sender r) = Some s" and "from_bytes (e_rpc E) (req_payload r) = Some Ping"
    and "healthy L (Suc n) (kd_table kd)" and "ch_open (kd_to_transport kd)"
  shows "case handle_request (Suc d) E L b (kd, t) of (res, kd', t') \<Rightarrow>
    res = Inr () \<and> healthy L n (kd_table kd') \<and>
    known_ids L (kd_table kd') = insert (pi_id s) (known_ids L (kd_table kd)) \<and>
    ch_queue (kd_to_transport kd') = ch_queue (kd_to_transport kd) @
      [(pi_address s, answer E r s (Pong (peer_bytes E (local_info (kd_table kd)))))]"
proof -
  obtain rt where "handle_request (Suc d) E L b (kd, t) = (Inr (), (kd\<lparr>kd_table := rt,
      kd_to_transport := chan_send (pi_address s, answer E r s (Pong (peer_bytes E (local_info (kd_table kd)))))
        (kd_to_transport kd)\<rparr>, t + 2))"
    "healthy L n rt" "known_ids L rt = insert (pi_id s) (known_ids L (kd_table kd))"
    using kad_node.ping_ok [OF assms(1-5), of d t] by (elim exE conjE)
  then show ?thesis using assms(6) by (simp only: prod.case) simp
qed

text \<open>
  C22: a search files its sender, then looks up the peers closest to the peer
  sought, files that one too, and sends the peers found to the address of the peer sought (not
  to the sender), and to each of them the news of that peer.
\<close>

theorem find_node_answered:
  assumes "kad_node E L" and "from_bytes (e_req E) b = Some r"
    and "from_bytes (e_peer E) (req_sender r) = Some s"
    and "from_bytes (e_rpc E) (req_payload r) = Some (FindNode nb)"
    and "from_bytes (e_peer E) nb = Some node"
    and "healthy L (Suc (Suc n)) (kd_table kd)" and "ch_open (kd_to_transport kd)"
  shows "case (handle_request (Suc d) E L b (kd, t),
      get_closest_peers E L (snd (update_peer L (e_now E t) (e_now E (t + 1)) s 0 (kd_table kd)))
        node DEFAULT_N_PEERS) of
      ((res, kd', t'), Inr ps) \<Rightarrow>
        res = Inr () \<and> healthy L n (kd_table kd') \<and>
        known_ids L (kd_table kd') = known_ids L (kd_table kd) \<union> {pi_id s, pi_id node} \<and>
        ch_queue (kd_to_transport kd') = ch_queue (kd_to_transport kd) @
          (pi_address node, answer E r (local_info (kd_table kd)) (Nodes (map (peer_bytes E) ps))) #
          map (\<lambda>p. (pi_address p, query E (local_info (kd_table kd)) (rand_arr (e_rand E) (t + 4))
            (NewPeer (peer_bytes E node)))) ps
    | (_, Inl p) \<Rightarrow> False"
proof -
  have "t + 2 + 2 = t + 4" by simp
  moreover obtain rt ps where
    "get_closest_peers E L (snd (update_peer L (e_now E t) (e_now E (t + 1)) s 0 (kd_table kd)))
      node DEFAULT_N_PEERS = Inr ps"
    "handle_request (Suc d) E L b (kd, t) = (Inr (), (kd\<lparr>kd_table := rt, kd_to_transport := fold chan_send
      ((pi_address node, answer E r (local_info (kd_table kd)) (Nodes (map (peer_bytes E) ps))) #
       map (\<lambda>p. (pi_address p, query E (local_info (kd_table kd)) (rand_arr (e_rand E) (t + 2 + 2))
         (NewPeer (peer_bytes E node)))) ps) (kd_to_transport kd)\<rparr>, t + 2 + 2 + 32))"
    "healthy L n rt" "known_ids L rt = known_ids L (kd_table kd) \<union> {pi_id s, pi_id node}"
    using kad_node.find_node_ok [OF assms(1-6), of t d] by (elim exE conjE)
  ultimately show ?thesis
    using assms(7) by (simp only: prod.case sum.case) (simp add: fold_chan_send_queue)
qed

text \<open>
  C21: a response that lists peers makes every decodable one of them known, and the
  node asks each that it did not know, once and in order, for the peers near the local one.
\<close>

theorem nodes_learned:
  assumes "kad_node E L" and "from_bytes (e_resp E) b = Some q"
    and "from_bytes (e_req E) (resp_request q) = Some r"
    and "from_bytes (e_rpc E) (resp_payload q) = Some (Nodes ns)"
    and "healthy L (n + 2 * length ns) (kd_table kd)" and "ch_open (kd_to_transport kd)"
  shows "case handle_response (Suc d) E L b (kd, t) of (res, kd', t') \<Rightarrow>
    res = Inr () \<and> healthy L n (kd_table kd') \<and>
    known_ids L (kd_table kd') = known_ids L (kd_table kd) \<union> pi_id ` set (decode_peers E ns) \<and>
    (\<exists>is. length is = length (fresh_peers (known_ids L (kd_table kd)) (decode_peers E ns)) \<and>
      ch_queue (kd_to_transport kd') = ch_queue (kd_to_transport kd) @
        map2 (\<lambda>p i. (pi_address p, query E (local_info (kd_table kd)) i
            (FindNode (peer_bytes E (local_info (kd_table kd))))))
          (fresh_peers (known_ids L (kd_table kd)) (decode_peers E ns)) is)"
proof -
  let ?f = "fresh_peers (known_ids L (kd_table kd)) (decode_peers E ns)" and ?li = "local_info (kd_table kd)"
  obtain rt ms t' where r: "act_each ns (handle_node E L) (kd, t) = (Inr (), (kd\<lparr>kd_table := rt,
      kd_to_transport := fold chan_send ms (kd_to_transport kd)\<rparr>, t'))" "healthy L n rt"
    "known_ids L rt = known_ids L (kd_table kd) \<union> pi_id ` set (decode_peers E ns)" "local_info rt = ?li"
    "list_all (kad_node.hello E (local_info rt)) ms" "map fst ms = map pi_address ?f"
    using kad_node.handle_nodes_ok [OF assms(1,5), of t] by blast
  have "\<forall>m \<in> set ms. \<exists>i. snd m = query E ?li i (FindNode (peer_bytes E ?li))"
    using r(4,5) by (auto simp: list_all_iff kad_node.hello_def [OF assms(1)])
  then obtain g where g: "\<And>m. m \<in> set ms \<Longrightarrow> snd m = query E ?li (g m) (FindNode (peer_bytes E ?li))" by metis
  have len: "length ms = length ?f" using arg_cong [OF r(6), of length] by simp
  have "ms = map2 (\<lambda>p i. (pi_address p, query E ?li i (FindNode (peer_bytes E ?li)))) ?f (map g ms)"
  proof (rule nth_equalityI)
    fix j assume j: "j < length ms"
    have "fst (ms ! j) = pi_address (?f ! j)" using arg_cong [OF r(6), of "\<lambda>xs. xs ! j"] j len by simp
    with g [of "ms ! j"] j len
    show "ms ! j = map2 (\<lambda>p i. (pi_address p, query E ?li i (FindNode (peer_bytes E ?li)))) ?f (map g ms) ! j"
      by (simp add: prod_eq_iff)
  qed (simp add: len)
  moreover have "handle_response (Suc d) E L b (kd, t) = act_each ns (handle_node E L) (kd, t)"
    using assms(2-4) by (simp add: resp_to_components_def)
  ultimately show ?thesis
    using r(1-3) len assms(6) by (auto simp: fold_chan_send_queue intro!: exI [of _ "map g ms"])
qed

text \<open>
  Whatever messages arrive, and whether or not their handling panics, the local peer,
  the pending set and the timer never change, no queued message is withdrawn or altered, and the
  invariants of the routing table are kept.
\<close>

theorem node_frame:
  assumes "linked_hash_map L"
  shows "kad_keeps L s (fold (\<lambda>m s. snd (kad_handle_message d E L m s)) ms s)"
proof (induction ms arbitrary: s)
  case Nil
  show ?case by (simp add: kdf.frame_refl)
next
  case (Cons m ms)
  have "kad_keeps L s (snd (kad_handle_message d E L m s))"
    using linked_hash_map.framed_handle_message [OF assms, of d E m, unfolded framed_def] by (rule spec)
  then show ?case unfolding fold_simps by (rule kdf.frame_trans) (rule Cons.IH)
qed

text \<open>
  The set of pending requests decides nothing: with another set every message is
  handled the same way, so responses to requests that were never sent are accepted.
\<close>

theorem pending_ignored:
  assumes "linked_hash_map L"
  shows "kad_handle_message d E L m (kd\<lparr>kd_pending := x\<rparr>, t) =
    (case kad_handle_message d E L m (kd, t) of (r, kd', t') \<Rightarrow> (r, kd'\<lparr>kd_pending := x\<rparr>, t'))"
  using linked_hash_map.pending_handle_message [OF assms, of x d E m]
  by (simp add: commutes_def with_pending_def split: prod.splits)

text \<open>
  C31: the handlers of requests and responses call each other on the same bytes, but never more
  than one call deep: two stack frames suffice for every message, provided that bytes that decode
  both as a request and as a response carry the same payload.
\<close>

theorem two_frames_suffice:
  assumes "linked_hash_map L" and "payload_shared E"
  shows "fst (kad_handle_message (Suc (Suc d)) E L m s) \<noteq> Inl StackOverflow"
  using two_frames(1) [OF assms, unfolded no_overflow_def, rule_format, of d _ s]
    two_frames(2) [OF assms, unfolded no_overflow_def, rule_format, of d _ s]
  by (cases m) (simp_all add: kad_handle_message_def act_apply del: handle_request.simps handle_response.simps)

text \<open>
  C35: which requests make the node panic, for bytes that decode as a request and not as a response
  too, at a node with room for two more peers. If the sender cannot be decoded the node panics at
  once and nothing is changed. Otherwise it panics exactly when the call cannot be decoded, or
  is \<open>NewPeer\<close> with a peer that cannot be decoded; the sender is filed in every case, and in
  these cases nothing else happens.
\<close>

theorem malformed_request_panics:
  assumes "kad_node E L" and "from_bytes (e_req E) b = Some r" and "from_bytes (e_resp E) b = None"
    and "healthy L (Suc (Suc n)) (kd_table kd)"
  shows "case handle_request (Suc (Suc d)) E L b (kd, t) of (res, kd', t') \<Rightarrow>
    (case from_bytes (e_peer E) (req_sender r) of
       None \<Rightarrow> res = Inl UnwrapNone \<and> kd' = kd
     | Some s \<Rightarrow>
         (isl res \<longleftrightarrow> (case from_bytes (e_rpc E) (req_payload r) of
            None \<Rightarrow> True | Some (NewPeer p) \<Rightarrow> from_bytes (e_peer E) p = None | Some rpc \<Rightarrow> False)) \<and>
         insert (pi_id s) (known_ids L (kd_table kd)) \<subseteq> known_ids L (kd_table kd') \<and>
         (isl res \<longrightarrow> res = Inl UnwrapNone \<and>
            kd' = kd\<lparr>kd_table := snd (update_peer L (e_now E t) (e_now E (t + 1)) s 0 (kd_table kd))\<rparr>))"
proof (cases "from_bytes (e_peer E) (req_sender r)")
  case None
  with assms(2) show ?thesis by (simp add: req_to_components_def act_apply)
next
  case (Some s)
  have "linked_hash_map L" using assms(1) by (simp add: kad_node_def)
  from linked_hash_map.kad_update_ok [OF this assms(4), of E s t] obtain rt where
    rt: "kad_update E L s (kd, t) = (Inr (), (kd\<lparr>kd_table := rt\<rparr>, t + 2))"
      "known_ids L rt = insert (pi_id s) (known_ids L (kd_table kd))"
      "rt = snd (update_peer L (e_now E t) (e_now E (t + 1)) s 0 (kd_table kd))" by blast
  show ?thesis
  proof (cases "case from_bytes (e_rpc E) (req_payload r) of
      None \<Rightarrow> True | Some (NewPeer p) \<Rightarrow> from_bytes (e_peer E) p = None | Some rpc \<Rightarrow> False")
    case True
    from kad_node.request_unreadable [OF assms(1,2) Some this rt(1), of "Suc d"] True rt(2,3) Some
    show ?thesis by (simp only: prod.case option.case) auto
  next
    case False
    then obtain rpc where rpc: "from_bytes (e_rpc E) (req_payload r) = Some rpc" by (auto split: option.splits)
    have new: "from_bytes (e_peer E) p \<noteq> None" if "rpc = NewPeer p" for p using False rpc that by simp
    from kad_node.request_carried_out [OF assms(1-3) Some rpc new assms(4)]
    obtain kd' t' where "handle_request (Suc (Suc d)) E L b (kd, t) = (Inr (), (kd', t'))"
      "insert (pi_id s) (known_ids L (kd_table kd)) \<subseteq> known_ids L (kd_table kd')" by blast
    with False Some show ?thesis by (auto simp del: handle_request.simps)
  qed
qed

section \<open>Concrete instances\<close>

interpretation demo_node: kad_node ref_env lru
  by unfold_locales

definition demo_kad :: "(peer_id, peer_info) alist kademlia" where
  "demo_kad = kademlia_new demo_table chan_new chan_new [] 0 0"

definition demo_far :: peer_info where
  "demo_far = demo_peer ''far'' [128]"

definition demo_call :: "rpc \<Rightarrow> req" where
  "demo_call rpc = \<lparr>req_id = arr_of [9], req_sender = peer_bytes ref_env demo_far,
     req_payload = the (as_bytes (e_rpc ref_env) rpc)\<rparr>"

definition demo_reply :: "rpc \<Rightarrow> resp" where
  "demo_reply rpc = \<lparr>resp_request = the (as_bytes (e_req ref_env) (demo_call Ping)),
     resp_receiver = peer_bytes ref_env demo_local, resp_payload = the (as_bytes (e_rpc ref_env) rpc)\<rparr>"

lemma demo_decodes [simp]:
  "from_bytes (e_peer ref_env) (peer_bytes ref_env p) = Some p"
  "from_bytes (e_peer ref_env) (req_sender (demo_call rpc)) = Some demo_far"
  "from_bytes (e_rpc ref_env) (req_payload (demo_call rpc)) = Some rpc"
  "from_bytes (e_rpc ref_env) (resp_payload (demo_reply rpc)) = Some rpc"
  "from_bytes (e_req ref_env) (resp_request (demo_reply rpc)) = Some (demo_call Ping)"
  by (simp_all add: demo_call_def demo_reply_def peer_bytes_def)

lemma demo_healthy: "healthy lru 900 (kd_table demo_kad)"
proof -
  have "pi_id demo_local \<in> known_ids lru demo_table"
    unfolding known_ids_def demo_table_def
    by (auto simp: hm_get_def upsert_def kbucket_new_def Let_def)
  then show ?thesis
    using demo_table_facts by (simp add: healthy_def demo_kad_def kademlia_new_def)
qed

lemma demo_kad_open [simp]: "ch_open (kd_to_transport demo_kad)" "ch_queue (kd_to_transport demo_kad) = []"
  by (simp_all add: demo_kad_def kademlia_new_def)

theorem kad_messages_decode_witness:
  "case from_bytes (e_kad ref_env) (msg (query ref_env demo_local (arr_of [1]) Ping)) of
     Some (KadRequest b) \<Rightarrow>
       (case from_bytes (e_req ref_env) b of
          Some r \<Rightarrow> req_to_components ref_env r = (MessageKey (arr_of [1]), Some demo_local, Some Ping)
        | None \<Rightarrow> False)
   | _ \<Rightarrow> False"
  by (rule kad_messages_decode [OF ref.wire_axioms, THEN conjunct1])

theorem ping_answered_witness:
  "case handle_request (Suc 1) ref_env lru (the (as_bytes (e_req ref_env) (demo_call Ping))) (demo_kad, 0) of
     (res, kd', t') \<Rightarrow> res = Inr () \<and> healthy lru 899 (kd_table kd') \<and>
     known_ids lru (kd_table kd') = insert (pi_id demo_far) (known_ids lru (kd_table demo_kad)) \<and>
     ch_queue (kd_to_transport kd') = ch_queue (kd_to_transport demo_kad) @
       [(pi_address demo_far, answer ref_env (demo_call Ping) demo_far
          (Pong (peer_bytes ref_env (local_info (kd_table demo_kad)))))]"
  by (rule ping_answered [OF demo_node.kad_node_axioms ref.req.dec_the_enc demo_decodes(2,3)])
    (use demo_healthy in simp_all)

theorem find_node_answered_witness:
  "case (handle_request (Suc 1) ref_env lru
      (the (as_bytes (e_req ref_env) (demo_call (FindNode (peer_bytes ref_env demo_far))))) (demo_kad, 0),
      get_closest_peers ref_env lru (snd (update_peer lru (e_now ref_env 0) (e_now ref_env (0 + 1)) demo_far 0
        (kd_table demo_kad))) demo_far DEFAULT_N_PEERS) of
      ((res, kd', t'), Inr ps) \<Rightarrow>
        res = Inr () \<and> healthy lru 898 (kd_table kd') \<and>
        known_ids lru (kd_table kd') = known_ids lru (kd_table demo_kad) \<union> {pi_id demo_far, pi_id demo_far} \<and>
        ch_queue (kd_to_transport kd') = ch_queue (kd_to_transport demo_kad) @
          (pi_address demo_far, answer ref_env (demo_call (FindNode (peer_bytes ref_env demo_far)))
            (local_info (kd_table demo_kad)) (Nodes (map (peer_bytes ref_env) ps))) #
          map (\<lambda>p. (pi_address p, query ref_env (local_info (kd_table demo_kad)) (rand_arr (e_rand ref_env) (0 + 4))
            (NewPeer (peer_bytes ref_env demo_far)))) ps
    | (_, Inl p) \<Rightarrow> False"
  by (rule find_node_answered [OF demo_node.kad_node_axioms ref.req.dec_the_enc demo_decodes(2,3,1)])
    (use demo_healthy in simp_all)

theorem nodes_learned_witness:
  "case handle_response (Suc 1) ref_env lru
      (the (as_bytes (e_resp ref_env) (demo_reply (Nodes [peer_bytes ref_env demo_far, [0]])))) (demo_kad, 0) of
     (res, kd', t') \<Rightarrow> res = Inr () \<and> healthy lru 896 (kd_table kd') \<and>
     known_ids lru (kd_table kd') = known_ids lru (kd_table demo_kad) \<union>
       pi_id ` set (decode_peers ref_env [peer_bytes ref_env demo_far, [0]]) \<and>
     (\<exists>is. length is = length (fresh_peers (known_ids lru (kd_table demo_kad))
           (decode_peers ref_env [peer_bytes ref_env demo_far, [0]])) \<and>
       ch_queue (kd_to_transport kd') = ch_queue (kd_to_transport demo_kad) @
         map2 (\<lambda>p i. (pi_address p, query ref_env (local_info (kd_table demo_kad)) i
             (FindNode (peer_bytes ref_env (local_info (kd_table demo_kad))))))
           (fresh_peers (known_ids lru (kd_table demo_kad)) (decode_peers ref_env [peer_bytes ref_env demo_far, [0]])) is)"
  by (rule nodes_learned [OF demo_node.kad_node_axioms ref.resp.dec_the_enc demo_decodes(5,4)])
    (use demo_healthy in simp_all)

theorem node_frame_witness:
  "kad_keeps lru (demo_kad, 0) (fold (\<lambda>m s. snd (kad_handle_message 2 ref_env lru m s))
     [KadRequest [1], KadResponse [2], Kill] (demo_kad, 0))"
  by (rule node_frame [OF lru.linked_hash_map_axioms])

theorem pending_ignored_witness:
  "fst (kad_handle_message 2 ref_env lru m (demo_kad\<lparr>kd_pending := [MessageKey (arr_of [1])]\<rparr>, 0)) =
   fst (kad_handle_message 2 ref_env lru m (demo_kad, 0))"
  by (simp add: pending_ignored [OF lru.linked_hash_map_axioms] case_prod_unfold)

lemma demo_req_no_resp: "from_bytes (e_req ref_env) b = None \<or> from_bytes (e_resp ref_env) b = None"
  by (cases b) (auto simp: from_bytes_def ref_env_def pc_req_def pc_resp_def pc_serde_def pc_tag_def
      split: option.split)

lemma demo_payload_shared: "payload_shared ref_env"
  unfolding payload_shared_def using demo_req_no_resp by (metis option.distinct(1))

text \<open>
  An environment in which, as in JSON, an object with the fields of both structs decodes as a
  request and as a response: the bytes of its five fields, under a tag of its own.
\<close>

definition both_code :: "(arr32 \<times> bytes \<times> bytes \<times> bytes \<times> bytes) pcode" where
  "both_code = pc_tag 3 (pc_pair pc_arr (pc_pair pc_bytes (pc_pair pc_bytes (pc_pair pc_bytes pc_bytes))))"

definition both_or :: "'a serde \<Rightarrow> (arr32 \<times> bytes \<times> bytes \<times> bytes \<times> bytes \<Rightarrow> 'a) \<Rightarrow> 'a serde" where
  "both_or sd f = sd\<lparr>sd_from_slice := (\<lambda>v. case sd_from_slice (pc_serde both_code) v of
     Some x \<Rightarrow> Some (f x) | None \<Rightarrow> sd_from_slice sd v)\<rparr>"

definition both_env :: env where
  "both_env = ref_env
     \<lparr>e_req := both_or (e_req ref_env) (\<lambda>(i, sender, request, receiver, payload).
        \<lparr>req_id = i, req_sender = sender, req_payload = payload\<rparr>),
      e_resp := both_or (e_resp ref_env) (\<lambda>(i, sender, request, receiver, payload).
        \<lparr>resp_request = request, resp_receiver = receiver, resp_payload = payload\<rparr>)\<rparr>"

text \<open>A call of the kind the handler of requests leaves to that of responses.\<close>

definition demo_both :: bytes where
  "demo_both = pe both_code (arr_of [9], peer_bytes ref_env demo_far,
     the (as_bytes (e_req ref_env) (demo_call Ping)), peer_bytes ref_env demo_local,
     the (as_bytes (e_rpc ref_env) (Nodes [])))"

lemma demo_both_decodes:
  "sd_from_slice (pc_serde both_code) demo_both = Some (arr_of [9], peer_bytes ref_env demo_far,
     the (as_bytes (e_req ref_env) (demo_call Ping)), peer_bytes ref_env demo_local,
     the (as_bytes (e_rpc ref_env) (Nodes [])))"
proof -
  have "pc_ok both_code" unfolding both_code_def by (auto intro!: pc_ok_intros)
  from pc_okD [OF this, of _ "[]"] show ?thesis by (simp add: pc_serde_def demo_both_def)
qed

lemma both_payload_shared: "payload_shared both_env"
proof -
  have "req_payload r = resp_payload q"
    if "from_bytes (e_req both_env) b = Some r" "from_bytes (e_resp both_env) b = Some q" for b r q
  proof (cases "sd_from_slice (pc_serde both_code) b")
    case None
    with that have "from_bytes (e_req ref_env) b = Some r" "from_bytes (e_resp ref_env) b = Some q"
      by (simp_all add: both_env_def both_or_def from_bytes_def)
    with demo_payload_shared show ?thesis by (simp add: payload_shared_def)
  next
    case (Some x)
    with that show ?thesis by (cases x) (auto simp: both_env_def both_or_def from_bytes_def)
  qed
  then show ?thesis by (simp add: payload_shared_def)
qed

theorem two_frames_suffice_witness:
  "fst (kad_handle_message 1 both_env lru (KadRequest demo_both) (demo_kad, 0)) = Inl StackOverflow \<and>
   fst (kad_handle_message (Suc (Suc 0)) both_env lru (KadRequest demo_both) (demo_kad, 0)) \<noteq> Inl StackOverflow"
proof
  obtain rt where rt: "kad_update both_env lru demo_far (demo_kad, 0) = (Inr (), (demo_kad\<lparr>kd_table := rt\<rparr>, 0 + 2))"
    using lru.kad_update_ok [of 899 demo_kad both_env demo_far 0] demo_healthy by auto
  have same: "e_peer both_env = e_peer ref_env" "e_rpc both_env = e_rpc ref_env" by (simp_all add: both_env_def)
  have "from_bytes (e_req both_env) demo_both = Some \<lparr>req_id = arr_of [9], req_sender = peer_bytes ref_env demo_far,
      req_payload = the (as_bytes (e_rpc ref_env) (Nodes []))\<rparr>"
    by (simp add: both_env_def both_or_def from_bytes_def demo_both_decodes)
  then show "fst (kad_handle_message 1 both_env lru (KadRequest demo_both) (demo_kad, 0)) = Inl StackOverflow"
    using rt
    by (simp add: ref.peer.unwrap_enc kad_handle_message_def req_to_components_def same add_peer_def act_then_apply act_bind_apply act_apply)
qed (rule two_frames_suffice [OF lru.linked_hash_map_axioms both_payload_shared])

text \<open>A request to file a new peer that is none: the sender is filed, then the node panics.\<close>

theorem malformed_request_panics_witness:
  "case handle_request (Suc (Suc 0)) ref_env lru (the (as_bytes (e_req ref_env) (demo_call (NewPeer [0])))) (demo_kad, 0) of
     (res, kd', t') \<Rightarrow> res = Inl UnwrapNone \<and> pi_id demo_far \<in> known_ids lru (kd_table kd')"
proof -
  let ?b = "the (as_bytes (e_req ref_env) (demo_call (NewPeer [0])))"
  have req: "from_bytes (e_req ref_env) ?b = Some (demo_call (NewPeer [0]))" by (rule ref.req.dec_the_enc)
  have resp: "from_bytes (e_resp ref_env) ?b = None"
    using demo_req_no_resp [of ?b] req by auto
  have none: "from_bytes (e_peer ref_env) [0] = None"
    by (simp add: from_bytes_def ref_env_def pc_serde_def pc_peer_def) code_simp
  from malformed_request_panics [OF demo_node.kad_node_axioms req resp, of 898 demo_kad 0 0] demo_healthy none
  show ?thesis by (auto split: prod.splits simp del: handle_request.simps)
qed

end
