(* ===== verification/Gossip.thy ===== *)
theory Gossip
  imports Kad
begin

text \<open>
  The gossip service (\<open>src/gossip/gossip.rs\<close>): it passes each message on to the
  application once, forwards it to a sample of the known peers, keeps it in a cache and forwards
  it again at every heartbeat for a while. A state is the struct together with the counter of the
  readings of the clock and of the random source. The type \<open>f64\<close> is not modelled: the
  field \<open>gc_factor\<close> is the function that takes a number of peers \<open>n\<close> to
  \<open>(n as f64 * factor) as usize\<close>. Proved: to whom a message is forwarded, that a
  cached message is not delivered again, how long it is kept and forwarded, that the cache holds a
  message under its own id, and that the service does not change the routing table.
\<close>

section \<open>State\<close>

record gossip_config =
  gc_id :: string
  gc_history_len :: nat
  gc_history_gossip :: nat
  gc_target :: nat
  gc_low :: nat
  gc_high :: nat
  gc_min_gossip :: nat
  gc_factor :: "nat \<Rightarrow> nat"
  gc_interval :: nat
  gc_check :: nat

definition gossip_config_new ::
    "string \<Rightarrow> nat \<Rightarrow> nat \<Rightarrow> nat \<Rightarrow> nat \<Rightarrow> nat \<Rightarrow> nat \<Rightarrow> (nat \<Rightarrow> nat) \<Rightarrow> nat \<Rightarrow> nat \<Rightarrow> gossip_config" where
  "gossip_config_new i hl hg target low high mg factor interval check =
     \<lparr>gc_id = i, gc_history_len = hl, gc_history_gossip = hg, gc_target = target, gc_low = low,
      gc_high = high, gc_min_gossip = mg, gc_factor = factor, gc_interval = interval, gc_check = check\<rparr>"

definition config_min :: "gossip_config \<Rightarrow> nat" where
  "config_min c = gc_min_gossip c"

definition config_max :: "gossip_config \<Rightarrow> nat" where
  "config_max c = gc_high c"

type_synonym gossip_cache = "(message_key, message \<times> nat) hmap"

record 'm gossip_service =
  gs_address :: socket_addr
  gs_public_ip :: socket_addr
  gs_to_gossip_rx :: "(socket_addr \<times> message) chan"
  gs_to_transport_tx :: "(socket_addr \<times> message) chan"
  gs_to_app_tx :: "gossip_message chan"
  gs_kad :: "'m kademlia"
  gs_cache :: gossip_cache
  gs_config :: gossip_config
  gs_heartbeat :: nat
  gs_ping_pong :: nat

type_synonym 'm gss = "'m gossip_service \<times> nat"

definition gossip_service_new ::
    "socket_addr \<Rightarrow> socket_addr \<Rightarrow> (socket_addr \<times> message) chan \<Rightarrow> (socket_addr \<times> message) chan \<Rightarrow>
     gossip_message chan \<Rightarrow> 'm kademlia \<Rightarrow> gossip_config \<Rightarrow> nat \<Rightarrow> nat \<Rightarrow> 'm gossip_service" where
  "gossip_service_new address public_ip rx tx app kad config heartbeat ping_pong =
     \<lparr>gs_address = address, gs_public_ip = public_ip, gs_to_gossip_rx = rx, gs_to_transport_tx = tx,
      gs_to_app_tx = app, gs_kad = kad, gs_cache = [], gs_config = config, gs_heartbeat = heartbeat,
      gs_ping_pong = ping_pong\<rparr>"

definition get_pub_ip :: "'m gossip_service \<Rightarrow> socket_addr" where
  "get_pub_ip gs = gs_public_ip gs"

section \<open>Clock and durations\<close>

text \<open>\<open>Instant::now()\<close>.\<close>

definition read_clock :: "env \<Rightarrow> ('m gss, nat) act" where
  "read_clock E = act_bind (act_get (\<lambda>(gs, t). e_now E t)) (\<lambda>now.
     act_then (act_modify (\<lambda>(gs, t). (gs, t + 1))) (act_ret now))"

text \<open>
  \<open>Duration * u32\<close>: the product in nanoseconds, a panic when its seconds exceed 64
  bits; the factor is cut off to 32 bits (\<open>as u32\<close>).
\<close>

definition dur_mul :: "nat \<Rightarrow> nat \<Rightarrow> panic + nat" where
  "dur_mul d k =
     (let p = d * (k mod 2 ^ 32) in if p < 2 ^ 64 * 10 ^ 9 then Inr p else Inl ArithOverflow)"

section \<open>Operations\<close>

definition heartbeat :: "env \<Rightarrow> ('m gss, bool) act" where
  "heartbeat E =
     act_bind (read_clock E) (\<lambda>now.
     act_bind (act_get (\<lambda>(gs, t). gc_interval (gs_config gs) < now - gs_heartbeat gs)) (\<lambda>due.
     if due
     then act_then (act_modify (\<lambda>(gs, t). (gs\<lparr>gs_heartbeat := now\<rparr>, t))) (act_ret True)
     else act_ret False))"

text \<open>Drawing \<open>n\<close> of the peers at random; the local address and the source are left out.\<close>

fun draw_sample ::
    "env \<Rightarrow> socket_addr \<Rightarrow> socket_addr \<Rightarrow> peer_info list \<Rightarrow> nat \<Rightarrow> nat \<Rightarrow> socket_addr hset \<Rightarrow>
     panic + socket_addr hset" where
  "draw_sample E src local peers t 0 sample = Inr sample"
| "draw_sample E src local peers t (Suc n) sample =
     res_bind (vec_index peers (e_gen_range E t (length peers))) (\<lambda>peer.
     let address = get_address peer in
     draw_sample E src local peers (t + 1) n
       (if address \<noteq> src \<and> address \<noteq> local then hs_insert address sample else sample))"

definition all_addresses :: "socket_addr \<Rightarrow> peer_info list \<Rightarrow> socket_addr hset" where
  "all_addresses local peers =
     fold (\<lambda>peer sample. if get_address peer \<noteq> local then hs_insert (get_address peer) sample else sample) peers []"

definition choose_peers :: "env \<Rightarrow> 'm lhm \<Rightarrow> socket_addr \<Rightarrow> ('m gss, socket_addr hset) act" where
  "choose_peers E L src =
     act_bind (act_get (\<lambda>(gs, t). (gs, t))) (\<lambda>(gs, t).
     let rt = kd_table (gs_kad gs) in
     act_bind (act_lift (get_closest_peers E L rt (local_info rt) 30)) (\<lambda>peers.
     if 7 < length peers
     then let n_peers = gc_factor (gs_config gs) (length peers) in
          act_then (act_modify (\<lambda>(gs, t). (gs, t + n_peers)))
            (act_lift (draw_sample E src (gs_address gs) peers t n_peers []))
     else act_ret (all_addresses (gs_address gs) peers)))"

definition forward :: "socket_addr \<Rightarrow> message \<Rightarrow> ('m gss, unit) act" where
  "forward a m =
     act_modify (\<lambda>(gs, t). (gs\<lparr>gs_to_transport_tx := chan_send (a, m) (gs_to_transport_tx gs)\<rparr>, t))"

definition publish :: "env \<Rightarrow> 'm lhm \<Rightarrow> socket_addr \<Rightarrow> message \<Rightarrow> ('m gss, unit) act" where
  "publish E L src m =
     act_bind (choose_peers E L src) (\<lambda>gossip_to.
     act_each (hs_iter (e_ord_addr E) gossip_to) (\<lambda>peer.
       if peer \<noteq> src then forward peer m else act_ret ()))"

text \<open>\<open>cache.entry(key).or_insert((msg, Instant::now()))\<close>.\<close>

definition remember :: "env \<Rightarrow> message_key \<Rightarrow> message \<Rightarrow> ('m gss, unit) act" where
  "remember E key m =
     act_bind (read_clock E) (\<lambda>now.
     act_modify (\<lambda>(gs, t). (gs\<lparr>gs_cache := hm_or_insert key (m, now) (gs_cache gs)\<rparr>, t)))"

definition gossip_handle_message ::
    "env \<Rightarrow> 'm lhm \<Rightarrow> socket_addr \<Rightarrow> message \<Rightarrow> ('m gss, gossip_message option) act" where
  "gossip_handle_message E L src m =
     (case from_bytes (e_gossip E) (msg m) of
        None \<Rightarrow> act_ret None
      | Some message \<Rightarrow>
          let key = from_inner (gm_id message) in
          act_bind (act_get (\<lambda>(gs, t). (hm_contains (gs_cache gs) key, gs_address gs))) (\<lambda>(cached, local).
          if \<not> cached
          then if src \<noteq> local
               then act_then (act_modify (\<lambda>(gs, t).
                         (gs\<lparr>gs_to_app_tx := chan_send message (gs_to_app_tx gs)\<rparr>, t)))
                   (act_then (publish E L src m)
                   (act_then (remember E key m) (act_ret (Some message))))
               else act_then (remember E key m) (act_ret None)
          else act_ret None))"

text \<open>The argument \<open>tx\<close> of \<open>recv\<close> is another channel to the application, returned extended.\<close>

definition gossip_recv ::
    "env \<Rightarrow> 'm lhm \<Rightarrow> gossip_message chan \<Rightarrow> ('m gss, gossip_message chan) act" where
  "gossip_recv E L tx =
     act_bind (act_get (\<lambda>(gs, t). chan_try_recv (gs_to_gossip_rx gs))) (\<lambda>(x, c).
     act_then (act_modify (\<lambda>(gs, t). (gs\<lparr>gs_to_gossip_rx := c\<rparr>, t)))
      (case x of
         None \<Rightarrow> act_ret tx
       | Some (src, m) \<Rightarrow>
           act_bind (gossip_handle_message E L src m) (\<lambda>r.
           case r of Some message \<Rightarrow> act_ret (chan_send message tx) | None \<Rightarrow> act_ret tx)))"

text \<open>One entry of the cache at a heartbeat.\<close>

definition gossip_entry ::
    "env \<Rightarrow> 'm lhm \<Rightarrow> nat \<Rightarrow> message_key \<times> message \<times> nat \<Rightarrow> ('m gss, unit) act" where
  "gossip_entry E L now = (\<lambda>(key, message, expires).
     act_bind (act_get (\<lambda>(gs, t). gs_config gs)) (\<lambda>config.
     act_bind (act_lift (dur_mul (gc_interval config) (gc_history_gossip config))) (\<lambda>gossip_until.
     act_then
       (if now - expires < gossip_until
        then case from_bytes (e_gossip E) (msg message) of
               Some gossip_message \<Rightarrow> publish E L (gm_sender gossip_message) message
             | None \<Rightarrow> act_ret ()
        else act_ret ())
    (act_bind (act_lift (dur_mul (gc_interval config) (gc_history_len config))) (\<lambda>keep_until.
       if keep_until < now - expires
       then act_modify (\<lambda>(gs, t). (gs\<lparr>gs_cache := hm_remove key (gs_cache gs)\<rparr>, t))
       else act_ret ())))))"

definition gossip :: "env \<Rightarrow> 'm lhm \<Rightarrow> ('m gss, unit) act" where
  "gossip E L =
     act_bind (read_clock E) (\<lambda>now.
     act_bind (act_get (\<lambda>(gs, t). gs_cache gs)) (\<lambda>cache_clone.
     act_bind (heartbeat E) (\<lambda>due.
     if due
     then act_then (act_each (hm_iter (\<lambda>k. e_ord_key E (inner k)) cache_clone) (gossip_entry E L now))
         (act_bind (act_get (\<lambda>(gs, t). gs_config gs)) (\<lambda>config.
          act_bind (act_lift (dur_mul (gc_interval config) (gc_check config))) (\<lambda>ping_after.
          act_ret ())))
     else act_ret ())))"

text \<open>One round of the endless loop of \<open>start\<close>: discovery, reception, gossip.\<close>

definition gossip_round ::
    "nat \<Rightarrow> env \<Rightarrow> 'm lhm \<Rightarrow> gossip_message chan \<Rightarrow> ('m gss, gossip_message chan) act" where
  "gossip_round d E L tx =
     act_then (act_zoom (\<lambda>(gs, t). (gs_kad gs, t)) (\<lambda>(kd, t) (gs, _). (gs\<lparr>gs_kad := kd\<rparr>, t)) (kad_recv d E L))
    (act_bind (gossip_recv E L tx) (\<lambda>tx.
     act_then (gossip E L) (act_ret tx)))"

section \<open>The peers chosen\<close>

text \<open>\<open>gen_range(0..n)\<close> lies below \<open>n\<close>.\<close>

definition gen_range_ok :: "env \<Rightarrow> bool" where
  "gen_range_ok E \<longleftrightarrow> (\<forall>t n. 0 < n \<longrightarrow> e_gen_range E t n < n)"

lemma draw_sample_ok:
  assumes "gen_range_ok E" and "peers \<noteq> []" and "distinct sample"
  shows "\<exists>s. draw_sample E src local peers t n sample = Inr s \<and> distinct s \<and>
    set s \<subseteq> set sample \<union> (pi_address ` set peers - {src, local}) \<and> length s \<le> length sample + n"
  using assms(3)
proof (induction n arbitrary: t sample)
  case (Suc n)
  let ?p = "peers ! e_gen_range E t (length peers)"
  let ?s = "if pi_address ?p \<noteq> src \<and> pi_address ?p \<noteq> local then hs_insert (pi_address ?p) sample else sample"
  have i: "e_gen_range E t (length peers) < length peers"
    using assms(1,2) by (simp add: gen_range_ok_def)
  have "distinct ?s" using Suc.prems by simp
  from Suc.IH [OF this, of "t + 1"] obtain s where
    s: "draw_sample E src local peers (t + 1) n ?s = Inr s" "distinct s"
    "set s \<subseteq> set ?s \<union> (pi_address ` set peers - {src, local})" "length s \<le> length ?s + n" by blast
  moreover have "set ?s \<subseteq> set sample \<union> (pi_address ` set peers - {src, local})" using i by auto
  moreover have "length ?s \<le> Suc (length sample)" by (simp add: hs_insert_def)
  ultimately show ?case using i by (auto simp: vec_index_def get_address_def Let_def)
qed simp

lemma all_addresses_set:
  "set (all_addresses local peers) = pi_address ` set peers - {local} \<and> distinct (all_addresses local peers)"
proof -
  have "set (fold (\<lambda>peer sample. if get_address peer \<noteq> local then hs_insert (get_address peer) sample else sample) peers s) =
      set s \<union> (pi_address ` set peers - {local}) \<and>
    (distinct s \<longrightarrow> distinct (fold (\<lambda>peer sample. if get_address peer \<noteq> local then hs_insert (get_address peer) sample
      else sample) peers s))" for s
    by (induction peers arbitrary: s) (auto simp: get_address_def)
  from this [of "[]"] show ?thesis by (simp add: all_addresses_def)
qed

text \<open>The destinations of a message: chosen, then iterated without the source.\<close>

definition destinations :: "env \<Rightarrow> socket_addr \<Rightarrow> socket_addr hset \<Rightarrow> socket_addr list" where
  "destinations E src chosen = filter (\<lambda>a. a \<noteq> src) (hs_iter (e_ord_addr E) chosen)"

definition forwarded :: "message \<Rightarrow> socket_addr list \<Rightarrow> 'm gossip_service \<Rightarrow> 'm gossip_service" where
  "forwarded m as gs =
     gs\<lparr>gs_to_transport_tx := fold chan_send (map (\<lambda>a. (a, m)) as) (gs_to_transport_tx gs)\<rparr>"

lemma forwarded_Nil [simp]: "forwarded m [] gs = gs"
  by (simp add: forwarded_def)

lemma forwarded_sel [simp]:
  "gs_address (forwarded m as gs) = gs_address gs" "gs_kad (forwarded m as gs) = gs_kad gs"
  "gs_cache (forwarded m as gs) = gs_cache gs" "gs_config (forwarded m as gs) = gs_config gs"
  "gs_to_app_tx (forwarded m as gs) = gs_to_app_tx gs"
  "gs_heartbeat (forwarded m as gs) = gs_heartbeat gs"
  "ch_open (gs_to_transport_tx (forwarded m as gs)) = ch_open (gs_to_transport_tx gs)"
  "ch_queue (gs_to_transport_tx (forwarded m as gs)) =
     ch_queue (gs_to_transport_tx gs) @ (if ch_open (gs_to_transport_tx gs) then map (\<lambda>a. (a, m)) as else [])"
  by (simp_all add: forwarded_def fold_chan_send_queue)

lemma act_each_forward:
  "act_each as (\<lambda>a. if a \<noteq> src then forward a m else act_ret ()) (gs, t) =
     (Inr (), (forwarded m (filter (\<lambda>a. a \<noteq> src) as) gs, t))"
proof (induction as arbitrary: gs)
  case (Cons a as)
  then show ?case by (simp add: act_then_apply act_apply forward_def forwarded_def)
qed (simp add: act_apply)

lemma publish_eq:
  "publish E L src m s =
     (case choose_peers E L src s of
        (Inl p, s') \<Rightarrow> (Inl p, s')
      | (Inr chosen, (gs', t')) \<Rightarrow> (Inr (), (forwarded m (destinations E src chosen) gs', t')))"
  by (auto simp: publish_def act_bind_apply act_each_forward destinations_def split: prod.split sum.split)

text \<open>A fair choice: of the known peers, without the source and the local node, all of up to seven.\<close>

definition fair_choice ::
    "env \<Rightarrow> 'm lhm \<Rightarrow> socket_addr \<Rightarrow> 'm gossip_service \<Rightarrow> socket_addr list \<Rightarrow> bool" where
  "fair_choice E L src gs as \<longleftrightarrow>
     (let rt = kd_table (gs_kad gs); known = pi_address ` set (get_all_peers E L rt) - {src, gs_address gs} in
      distinct as \<and> set as \<subseteq> known \<and>
      (if total_peers L rt \<le> 7 then set as = known
       else length as \<le> gc_factor (gs_config gs) (min 30 (total_peers L rt))))"

context linked_hash_map begin

lemma choose_peers_ok:
  assumes "healthy L n (kd_table (gs_kad gs))" and "gen_range_ok E"
    and "total_peers L (kd_table (gs_kad gs)) < 960"
  shows "\<exists>chosen t'. choose_peers E L src (gs, t) = (Inr chosen, (gs, t')) \<and>
    fair_choice E L src gs (destinations E src chosen)"
proof -
  let ?rt = "kd_table (gs_kad gs)"
  have ok: "rt_ok L ?rt" "rt_dense L ?rt" using assms(1) by (auto simp: healthy_def)
  have "case get_closest_peers E L ?rt (local_info ?rt) 30 of Inl e \<Rightarrow> False
    | Inr ps \<Rightarrow> length ps = min 30 (total_peers L ?rt) \<and> mset ps \<subseteq># mset (get_all_peers E L ?rt) \<and>
        (total_peers L ?rt \<le> 30 \<longrightarrow> ps = get_all_peers E L ?rt)"
  proof (cases "30 < total_peers L ?rt")
    case True
    with get_closest_peers_eq [OF ok assms(3) True, of E "local_info ?rt"] nearest_sub show ?thesis
      by (fastforce intro: subset_mset.trans)
  qed (simp add: get_closest_peers_def)
  then obtain ps where ps: "get_closest_peers E L ?rt (local_info ?rt) 30 = Inr ps"
    "length ps = min 30 (total_peers L ?rt)" "mset ps \<subseteq># mset (get_all_peers E L ?rt)"
    "total_peers L ?rt \<le> 30 \<Longrightarrow> ps = get_all_peers E L ?rt" by (auto split: sum.splits)
  have sub: "set ps \<subseteq> set (get_all_peers E L ?rt)" using set_mset_mono [OF ps(3)] by simp
  show ?thesis
  proof (cases "7 < length ps")
    case True
    then have "ps \<noteq> []" by auto
    from draw_sample_ok [OF assms(2) this, of "[]" src "gs_address gs" t
        "gc_factor (gs_config gs) (length ps)"] obtain s where
      s: "draw_sample E src (gs_address gs) ps t (gc_factor (gs_config gs) (length ps)) [] = Inr s" "distinct s"
      "set s \<subseteq> pi_address ` set ps - {src, gs_address gs}"
      "length s \<le> gc_factor (gs_config gs) (length ps)" by auto
    have "length (destinations E src s) \<le> length s"
      using length_filter_le [of "\<lambda>a. a \<noteq> src" "hs_iter (e_ord_addr E) s"] by (simp add: destinations_def)
    then have "fair_choice E L src gs (destinations E src s)"
      using s(2-4) sub True ps(2) by (auto simp: fair_choice_def destinations_def Let_def)
    with True s(1) ps(1) show ?thesis
      by (simp add: choose_peers_def act_bind_apply act_then_apply act_apply Let_def)
  next
    case False
    then have few: "total_peers L ?rt \<le> 7" using ps(2) by simp
    let ?s = "all_addresses (gs_address gs) ps"
    have "fair_choice E L src gs (destinations E src ?s)"
      using few ps(4) all_addresses_set [of "gs_address gs" ps]
      by (auto simp: fair_choice_def destinations_def Let_def)
    with False ps(1) show ?thesis
      by (simp add: choose_peers_def act_bind_apply act_apply Let_def)
  qed
qed

lemma publish_ok:
  assumes "healthy L n (kd_table (gs_kad gs))" and "gen_range_ok E"
    and "total_peers L (kd_table (gs_kad gs)) < 960"
  shows "\<exists>as t'. publish E L src m (gs, t) = (Inr (), (forwarded m as gs, t')) \<and> fair_choice E L src gs as"
  using choose_peers_ok [OF assms, of src t] by (auto simp: publish_eq)

end

section \<open>What the service keeps\<close>

text \<open>A cached message lies under the id it carries.\<close>

definition cache_ok :: "env \<Rightarrow> gossip_cache \<Rightarrow> bool" where
  "cache_ok E c \<longleftrightarrow> hm_wf c \<and> (\<forall>k m e. hm_get c k = Some (m, e) \<longrightarrow>
     (case from_bytes (e_gossip E) (msg m) of Some g \<Rightarrow> from_inner (gm_id g) = k | None \<Rightarrow> False))"

definition gs_keeps :: "env \<Rightarrow> 'm gss \<Rightarrow> 'm gss \<Rightarrow> bool" where
  "gs_keeps E s s' \<longleftrightarrow>
     (case (s, s') of ((gs, t), (gs', t')) \<Rightarrow>
        gs_address gs' = gs_address gs \<and> gs_public_ip gs' = gs_public_ip gs \<and>
        gs_config gs' = gs_config gs \<and> gs_kad gs' = gs_kad gs \<and>
        ch_open (gs_to_transport_tx gs') = ch_open (gs_to_transport_tx gs) \<and>
        ch_open (gs_to_gossip_rx gs') = ch_open (gs_to_gossip_rx gs) \<and>
        ch_open (gs_to_app_tx gs') = ch_open (gs_to_app_tx gs) \<and>
        prefix (ch_queue (gs_to_transport_tx gs)) (ch_queue (gs_to_transport_tx gs')) \<and>
        prefix (ch_queue (gs_to_app_tx gs)) (ch_queue (gs_to_app_tx gs')) \<and>
        (cache_ok E (gs_cache gs) \<longrightarrow> cache_ok E (gs_cache gs')))"

interpretation gsf: frame "gs_keeps E" for E :: env
  by unfold_locales (auto simp: gs_keeps_def split: prod.splits)

lemma cache_ok_remove: "cache_ok E c \<Longrightarrow> cache_ok E (hm_remove k c)"
  by (auto simp: cache_ok_def hm_get_remove hm.wf_rem split: if_splits)

lemma cache_ok_insert:
  "cache_ok E c \<Longrightarrow> from_bytes (e_gossip E) (msg m) = Some g \<Longrightarrow>
   cache_ok E (hm_or_insert (from_inner (gm_id g)) (m, e) c)"
  by (auto simp: cache_ok_def hm_get_or_insert split: if_splits option.splits)

lemma framed_read_clock: "framed (gs_keeps E) (read_clock E')"
  unfolding read_clock_def
  by (intro gsf.framed_rules gsf.framed_modify) (auto simp: gs_keeps_def split: prod.splits)

lemma framed_forward: "framed (gs_keeps E) (forward a m)"
  unfolding forward_def
  by (intro gsf.framed_modify) (auto simp: gs_keeps_def chan_send_def split: prod.splits)

lemma framed_publish: "framed (gs_keeps E) (publish E' L src m)"
  unfolding publish_def choose_peers_def Let_def
  by (auto intro!: gsf.framed_rules gsf.framed_modify framed_forward simp: gs_keeps_def split: prod.splits)

lemma framed_heartbeat: "framed (gs_keeps E) (heartbeat E')"
  unfolding heartbeat_def
  by (auto intro!: gsf.framed_rules gsf.framed_modify framed_read_clock simp: gs_keeps_def split: prod.splits)

lemma framed_remember:
  "from_bytes (e_gossip E) (msg m) = Some g \<Longrightarrow> framed (gs_keeps E) (remember E' (from_inner (gm_id g)) m)"
  unfolding remember_def
  by (intro gsf.framed_rules gsf.framed_modify framed_read_clock)
    (auto simp: gs_keeps_def cache_ok_insert split: prod.splits)

lemma framed_gossip_handle: "framed (gs_keeps E) (gossip_handle_message E L src m)"
proof (cases "from_bytes (e_gossip E) (msg m)")
  case (Some g)
  have app: "framed (gs_keeps E) (act_modify (\<lambda>(gs, t). (gs\<lparr>gs_to_app_tx := chan_send g (gs_to_app_tx gs)\<rparr>, t)))"
    by (intro gsf.framed_modify) (auto simp: gs_keeps_def chan_send_def split: prod.splits)
  show ?thesis unfolding gossip_handle_message_def Some
    by (auto intro!: gsf.framed_rules framed_publish framed_remember [OF Some] app simp: Let_def split: prod.split)
qed (simp add: gossip_handle_message_def gsf.framed_ret)

lemma framed_gossip_entry: "framed (gs_keeps E) (gossip_entry E' L now e)"
  unfolding gossip_entry_def
  by (auto intro!: gsf.framed_rules gsf.framed_modify framed_publish simp: gs_keeps_def cache_ok_remove
      split: prod.splits option.split)

lemma framed_gossip: "framed (gs_keeps E) (gossip E' L)"
  unfolding gossip_def
  by (auto intro!: gsf.framed_rules framed_read_clock framed_heartbeat framed_gossip_entry)

lemma framed_gossip_recv: "framed (gs_keeps E) (gossip_recv E L tx)"
  unfolding gossip_recv_def
  by (rule gsf.framed_take)
    (auto intro!: gsf.framed_rules framed_gossip_handle simp: gs_keeps_def split: prod.split option.split)

section \<open>Reception\<close>

definition remembered :: "message_key \<Rightarrow> message \<Rightarrow> nat \<Rightarrow> 'm gossip_service \<Rightarrow> 'm gossip_service" where
  "remembered k m now gs = gs\<lparr>gs_cache := hm_or_insert k (m, now) (gs_cache gs)\<rparr>"

lemma remember_eq: "remember E k m (gs, t) = (Inr (), (remembered k m (e_now E t) gs, t + 1))"
  by (simp add: remember_def read_clock_def act_bind_apply act_then_apply act_apply remembered_def)

lemma gossip_handle_eq:
  "gossip_handle_message E L src m (gs, t) =
     (case from_bytes (e_gossip E) (msg m) of
        None \<Rightarrow> (Inr None, (gs, t))
      | Some g \<Rightarrow>
          if hm_contains (gs_cache gs) (from_inner (gm_id g)) then (Inr None, (gs, t))
          else if src = gs_address gs
          then (Inr None, (remembered (from_inner (gm_id g)) m (e_now E t) gs, t + 1))
          else (case publish E L src m (gs\<lparr>gs_to_app_tx := chan_send g (gs_to_app_tx gs)\<rparr>, t) of
                  (Inl p, s) \<Rightarrow> (Inl p, s)
                | (Inr u, (gs', t')) \<Rightarrow>
                    (Inr (Some g), (remembered (from_inner (gm_id g)) m (e_now E t') gs', t' + 1))))"
  by (auto simp: gossip_handle_message_def act_bind_apply act_then_apply act_apply remember_eq Let_def
      split: option.split prod.split sum.split)

lemma remembered_contains: "hm_contains (gs_cache (remembered k m now gs)) k"
  by (auto simp: remembered_def hm_contains_def hm_get_or_insert split: option.split)

text \<open>After a message was handled its id is in the cache.\<close>

lemma handled_cached:
  assumes "gossip_handle_message E L src m (gs, t) = (Inr r, (gs', t'))"
    and "from_bytes (e_gossip E) (msg m) = Some g"
  shows "hm_contains (gs_cache gs') (from_inner (gm_id g))"
  using assms remembered_contains
  by (auto simp: gossip_handle_eq split: if_splits prod.splits sum.splits)

section \<open>The heartbeat\<close>

text \<open>What one cached message sends at a heartbeat.\<close>

definition entry_sends ::
    "env \<Rightarrow> 'm lhm \<Rightarrow> 'm gossip_service \<Rightarrow> nat \<Rightarrow> message_key \<times> message \<times> nat \<Rightarrow> (socket_addr \<times> message) list \<Rightarrow> bool" where
  "entry_sends E L gs now = (\<lambda>(k, m, e) out.
     if now - e < gc_interval (gs_config gs) * gc_history_gossip (gs_config gs)
     then (case from_bytes (e_gossip E) (msg m) of
             Some g \<Rightarrow> (\<exists>as. fair_choice E L (gm_sender g) gs as \<and> out = map (\<lambda>a. (a, m)) as)
           | None \<Rightarrow> out = [])
     else out = [])"

definition drop_expired :: "nat \<Rightarrow> nat \<Rightarrow> message_key \<times> message \<times> nat \<Rightarrow> gossip_cache \<Rightarrow> gossip_cache" where
  "drop_expired limit now = (\<lambda>(k, m, e) c. if limit < now - e then hm_remove k c else c)"

lemma fold_drop_expired:
  "hm_get (fold (drop_expired limit now) es c) k =
     (if \<exists>m e. (k, m, e) \<in> set es \<and> limit < now - e then None else hm_get c k)"
proof (induction es arbitrary: c)
  case (Cons x es)
  obtain j m e where x: "x = (j, m, e)" by (cases x)
  have "hm_get (drop_expired limit now x c) k = (if j = k \<and> limit < now - e then None else hm_get c k)"
    by (simp add: x drop_expired_def hm_get_remove)
  with Cons show ?case by (simp add: x) blast
qed simp

text \<open>The configuration is small enough for the clock: no duration overflows.\<close>

definition config_ok :: "gossip_config \<Rightarrow> bool" where
  "config_ok c \<longleftrightarrow> list_all (\<lambda>k. k < 2 ^ 32 \<and> gc_interval c * k < 2 ^ 64 * 10 ^ 9)
     [gc_history_gossip c, gc_history_len c, gc_check c]"

lemma dur_mul_ok: "k < 2 ^ 32 \<Longrightarrow> d * k < 2 ^ 64 * 10 ^ 9 \<Longrightarrow> dur_mul d k = Inr (d * k)"
  by (simp add: dur_mul_def Let_def)

lemma fair_choice_cong:
  "gs_kad gs = gs_kad gs' \<Longrightarrow> gs_address gs = gs_address gs' \<Longrightarrow> gs_config gs = gs_config gs' \<Longrightarrow>
   fair_choice E L src gs as = fair_choice E L src gs' as"
  by (simp add: fair_choice_def)

lemma entry_sends_cong:
  "gs_kad gs = gs_kad gs' \<Longrightarrow> gs_address gs = gs_address gs' \<Longrightarrow> gs_config gs = gs_config gs' \<Longrightarrow>
   entry_sends E L gs now = entry_sends E L gs' now"
  using fair_choice_cong [of gs gs' E L] by (auto simp: entry_sends_def fun_eq_iff split: option.split)

definition queued :: "(socket_addr \<times> message) list \<Rightarrow> 'm gossip_service \<Rightarrow> 'm gossip_service" where
  "queued out gs = gs\<lparr>gs_to_transport_tx := fold chan_send out (gs_to_transport_tx gs)\<rparr>"

definition with_cache :: "gossip_cache \<Rightarrow> 'm gossip_service \<Rightarrow> 'm gossip_service" where
  "with_cache c gs = gs\<lparr>gs_cache := c\<rparr>"

context linked_hash_map begin

lemma gossip_entry_ok:
  assumes "healthy L (Suc n) (kd_table (gs_kad gs))" and "gen_range_ok E" and "config_ok (gs_config gs)"
  shows "\<exists>out t'. gossip_entry E L now x (gs, t) = (Inr (),
      (with_cache (drop_expired (gc_interval (gs_config gs) * gc_history_len (gs_config gs)) now x (gs_cache gs))
        (queued out gs), t')) \<and> entry_sends E L gs now x out"
proof -
  obtain k m e where x: "x = (k, m, e)" by (cases x)
  let ?c = "gs_config gs"
  have dur: "dur_mul (gc_interval ?c) (gc_history_gossip ?c) = Inr (gc_interval ?c * gc_history_gossip ?c)"
    "dur_mul (gc_interval ?c) (gc_history_len ?c) = Inr (gc_interval ?c * gc_history_len ?c)"
    using assms(3) by (simp_all add: config_ok_def dur_mul_ok)
  have small: "total_peers L (kd_table (gs_kad gs)) < 960" using assms(1) by (auto simp: healthy_def)
  let ?pub = "if now - e < gc_interval ?c * gc_history_gossip ?c
        then case from_bytes (e_gossip E) (msg m) of
               Some g \<Rightarrow> publish E L (gm_sender g) m | None \<Rightarrow> act_ret ()
        else act_ret ()"
  have "\<exists>out t'. ?pub (gs, t) = (Inr (), (queued out gs, t')) \<and> entry_sends E L gs now x out"
  proof (cases "now - e < gc_interval ?c * gc_history_gossip ?c \<and> from_bytes (e_gossip E) (msg m) \<noteq> None")
    case True
    then obtain g where g: "from_bytes (e_gossip E) (msg m) = Some g" by auto
    from publish_ok [OF assms(1,2) small, of "gm_sender g" m t] obtain as t' where
      p: "publish E L (gm_sender g) m (gs, t) = (Inr (), (forwarded m as gs, t'))"
      "fair_choice E L (gm_sender g) gs as" by blast
    with True g show ?thesis
      by (intro exI [of _ "map (\<lambda>a. (a, m)) as"] exI [of _ t'])
        (auto simp: x entry_sends_def forwarded_def queued_def)
  next
    case False
    then show ?thesis
      by (intro exI [of _ "[]"] exI [of _ t])
        (auto simp: x entry_sends_def queued_def act_apply split: option.split)
  qed
  then obtain out t' where p: "?pub (gs, t) = (Inr (), (queued out gs, t'))" "entry_sends E L gs now x out"
    by blast
  have "gs_config (queued out gs) = ?c" by (simp add: queued_def)
  with p dur show ?thesis
    by (intro exI [of _ out] exI [of _ t'])
      (simp add: x gossip_entry_def act_bind_apply act_then_apply act_apply drop_expired_def with_cache_def
        queued_def)
qed

lemma gossip_entries_ok:
  assumes "healthy L (Suc n) (kd_table (gs_kad gs))" and "gen_range_ok E" and "config_ok (gs_config gs)"
  shows "\<exists>outs t'. act_each es (gossip_entry E L now) (gs, t) = (Inr (),
      (with_cache (fold (drop_expired (gc_interval (gs_config gs) * gc_history_len (gs_config gs)) now) es (gs_cache gs))
        (queued (concat outs) gs), t')) \<and> list_all2 (entry_sends E L gs now) es outs"
  using assms
proof (induction es arbitrary: gs t)
  case Nil
  then show ?case by (intro exI [of _ "[]"] exI [of _ t]) (simp add: act_apply with_cache_def queued_def)
next
  case (Cons x es)
  let ?lim = "gc_interval (gs_config gs) * gc_history_len (gs_config gs)"
  obtain out t' where 1: "gossip_entry E L now x (gs, t) = (Inr (),
      (with_cache (drop_expired ?lim now x (gs_cache gs)) (queued out gs), t'))" "entry_sends E L gs now x out"
    using gossip_entry_ok [OF Cons.prems] by blast
  let ?gs = "with_cache (drop_expired ?lim now x (gs_cache gs)) (queued out gs)"
  have same: "gs_kad ?gs = gs_kad gs" "gs_address ?gs = gs_address gs" "gs_config ?gs = gs_config gs"
    by (simp_all add: with_cache_def queued_def)
  obtain outs t'' where 2: "act_each es (gossip_entry E L now) (?gs, t') = (Inr (),
      (with_cache (fold (drop_expired ?lim now) es (gs_cache ?gs)) (queued (concat outs) ?gs), t''))"
    "list_all2 (entry_sends E L ?gs now) es outs"
    using Cons.IH [of ?gs t'] Cons.prems unfolding same by blast
  have "with_cache (fold (drop_expired ?lim now) es (gs_cache ?gs)) (queued (concat outs) ?gs) =
      with_cache (fold (drop_expired ?lim now) (x # es) (gs_cache gs)) (queued (concat (out # outs)) gs)"
    by (simp add: with_cache_def queued_def)
  with 1 2 entry_sends_cong [OF same] show ?case
    by (intro exI [of _ "out # outs"] exI [of _ t'']) (simp add: act_then_apply)
qed

lemma gossip_ok:
  assumes "healthy L (Suc n) (kd_table (gs_kad gs))" and "gen_range_ok E" and "config_ok (gs_config gs)"
    and "gc_interval (gs_config gs) < e_now E (t + 1) - gs_heartbeat gs"
  shows "\<exists>outs t'. gossip E L (gs, t) = (Inr (),
      (with_cache (fold (drop_expired (gc_interval (gs_config gs) * gc_history_len (gs_config gs)) (e_now E t))
          (hm_iter (\<lambda>k. e_ord_key E (inner k)) (gs_cache gs)) (gs_cache gs))
        (queued (concat outs) (gs\<lparr>gs_heartbeat := e_now E (t + 1)\<rparr>)), t')) \<and>
    list_all2 (entry_sends E L gs (e_now E t)) (hm_iter (\<lambda>k. e_ord_key E (inner k)) (gs_cache gs)) outs"
proof -
  let ?gs = "gs\<lparr>gs_heartbeat := e_now E (t + 1)\<rparr>" and ?es = "hm_iter (\<lambda>k. e_ord_key E (inner k)) (gs_cache gs)"
  have hb: "heartbeat E (gs, t + 1) = (Inr True, (?gs, t + 1 + 1))"
    using assms(4) by (simp add: heartbeat_def read_clock_def act_bind_apply act_then_apply act_apply)
  obtain outs t' where r: "act_each ?es (gossip_entry E L (e_now E t)) (?gs, t + 1 + 1) = (Inr (),
      (with_cache (fold (drop_expired (gc_interval (gs_config ?gs) * gc_history_len (gs_config ?gs)) (e_now E t)) ?es
        (gs_cache ?gs)) (queued (concat outs) ?gs), t'))" "list_all2 (entry_sends E L ?gs (e_now E t)) ?es outs"
    using gossip_entries_ok [of n ?gs E ?es "e_now E t" "t + 1 + 1"] assms(1-3) by auto
  have "entry_sends E L ?gs (e_now E t) = entry_sends E L gs (e_now E t)"
    by (rule entry_sends_cong) simp_all
  moreover have "dur_mul (gc_interval (gs_config gs)) (gc_check (gs_config gs)) =
      Inr (gc_interval (gs_config gs) * gc_check (gs_config gs))"
    using assms(3) by (simp add: config_ok_def dur_mul_ok)
  ultimately show ?thesis using r hb
    by (intro exI [of _ outs] exI [of _ t'])
      (simp add: gossip_def read_clock_def act_bind_apply act_then_apply act_apply with_cache_def queued_def)
qed

end

text \<open>
  In a table of at most seven peers nothing is drawn, so a heartbeat reads the clock twice and
  nothing else; and no cached message is forwarded to more than seven peers.
\<close>

definition undrawn :: "'m lhm \<Rightarrow> 'm gss \<Rightarrow> 'm gss \<Rightarrow> bool" where
  "undrawn L s s' \<longleftrightarrow> (case (s, s') of ((gs, t), (gs', t')) \<Rightarrow>
     gs_kad gs' = gs_kad gs \<and> (total_peers L (kd_table (gs_kad gs)) \<le> 7 \<longrightarrow> t' = t))"

interpretation udf: frame "undrawn L" for L :: "'m lhm"
  by unfold_locales (auto simp: undrawn_def split: prod.splits)

context linked_hash_map begin

lemma undrawn_choose: "framed (undrawn L) (choose_peers E L src)"
proof (rule framedI)
  fix s :: "'m gss"
  obtain gs t where s: "s = (gs, t)" by (cases s)
  let ?rt = "kd_table (gs_kad gs)"
  show "undrawn L s (snd (choose_peers E L src s))"
  proof (cases "total_peers L ?rt \<le> 7")
    case True
    then show ?thesis
      by (simp add: s choose_peers_def act_bind_apply act_apply Let_def get_closest_peers_def undrawn_def)
  next
    case False
    then show ?thesis
      by (auto simp: s choose_peers_def act_bind_apply act_then_apply act_apply Let_def undrawn_def
          split: sum.split prod.split)
  qed
qed

lemma undrawn_entry: "framed (undrawn L) (gossip_entry E L now x)"
proof -
  have fwd: "framed (undrawn L) (forward a m)" for a m
    unfolding forward_def by (rule udf.framed_modify) (auto simp: undrawn_def)
  have "framed (undrawn L) (publish E L src m)" for src m
    unfolding publish_def by (auto intro!: udf.framed_rules undrawn_choose fwd)
  moreover have "framed (undrawn L) (act_modify (\<lambda>(gs, t). (gs\<lparr>gs_cache := f (gs_cache gs)\<rparr>, t)))" for f
    by (rule udf.framed_modify) (auto simp: undrawn_def)
  ultimately show ?thesis
    unfolding gossip_entry_def by (auto intro!: udf.framed_rules split: prod.split option.split)
qed

lemma gossip_ticks:
  assumes "gossip E L (gs, t) = (Inr (), (gs', t'))" and "total_peers L (kd_table (gs_kad gs)) \<le> 7"
  shows "t' = t + 2"
proof -
  let ?es = "hm_iter (\<lambda>k. e_ord_key E (inner k)) (gs_cache gs)"
  obtain due gs1 where hb: "heartbeat E (gs, t + 1) = (Inr due, (gs1, t + 2))" "gs_kad gs1 = gs_kad gs"
    by (cases "gc_interval (gs_config gs) < e_now E (t + 1) - gs_heartbeat gs")
      (auto simp: heartbeat_def read_clock_def act_bind_apply act_then_apply act_apply)
  obtain r gs2 t2 where each: "act_each ?es (gossip_entry E L (e_now E t)) (gs1, t + 2) = (r, (gs2, t2))"
    by (metis surj_pair)
  have "framed (undrawn L) (act_each ?es (gossip_entry E L (e_now E t)))"
    by (rule udf.framed_each) (rule undrawn_entry)
  from framedD [OF this each] hb(2) assms(2) have "t2 = t + 2" by (simp add: undrawn_def)
  with assms(1) hb(1) each show ?thesis
    by (cases r) (auto simp: gossip_def read_clock_def act_bind_apply act_then_apply act_apply
        split: if_splits sum.splits)
qed

lemma sends_at_most:
  assumes "entry_sends E L gs now x out" and "total_peers L (kd_table (gs_kad gs)) \<le> 7"
  shows "length out \<le> 7"
proof -
  have "length as \<le> 7" if "fair_choice E L src gs as" for src as
  proof -
    let ?ps = "get_all_peers E L (kd_table (gs_kad gs))"
    have "distinct as" "set as \<subseteq> pi_address ` set ?ps" using that by (auto simp: fair_choice_def Let_def)
    then have "length as \<le> card (pi_address ` set ?ps)"
      using card_mono [of "pi_address ` set ?ps" "set as"] by (simp add: distinct_card)
    also have "\<dots> \<le> length ?ps" using card_image_le [OF finite_set, of pi_address ?ps] card_length [of ?ps] by linarith
    finally show ?thesis using assms(2) by simp
  qed
  then show ?thesis using assms(1)
    by (auto simp: entry_sends_def split: prod.splits if_splits option.splits)
qed

lemma all_sends_at_most:
  assumes "list_all2 (entry_sends E L gs now) es outs" and "total_peers L (kd_table (gs_kad gs)) \<le> 7"
  shows "length (concat outs) \<le> 7 * length es"
  using assms(1)
proof (induction rule: list_all2_induct)
  case (Cons x es out outs)
  with sends_at_most [OF Cons.hyps(1) assms(2)] show ?case by simp
qed simp

end

section \<open>Properties\<close>

text \<open>
  C27: publishing never panics in a table of fewer than 960 peers; it only queues
  the message for the transport layer, once for each of a set of known addresses that contains
  neither the local address nor the source: all of them when at most seven peers are known, and
  otherwise no more than the factor allows.
\<close>

theorem publish_destinations:
  assumes "linked_hash_map L" and "healthy L (Suc n) (kd_table (gs_kad gs))" and "gen_range_ok E"
    and "ch_open (gs_to_transport_tx gs)"
  shows "case publish E L src m (gs, t) of (r, gs', t') \<Rightarrow>
    r = Inr () \<and> (\<exists>as. fair_choice E L src gs as \<and>
      gs' = gs\<lparr>gs_to_transport_tx := (gs_to_transport_tx gs)
        \<lparr>ch_queue := ch_queue (gs_to_transport_tx gs) @ map (\<lambda>a. (a, m)) as\<rparr>\<rparr>)"
proof -
  have "total_peers L (kd_table (gs_kad gs)) < 960" using assms(2) by (auto simp: healthy_def)
  from linked_hash_map.publish_ok [OF assms(1,2,3) this, of src m t] obtain as t' where
    p: "publish E L src m (gs, t) = (Inr (), (forwarded m as gs, t'))" "fair_choice E L src gs as" by blast
  have "fold chan_send xs c = c\<lparr>ch_queue := ch_queue c @ xs\<rparr>" if "ch_open c"
    for xs and c :: "(socket_addr \<times> message) chan"
    using that by (induction xs arbitrary: c) (simp_all add: chan_send_def)
  with assms(4) have "forwarded m as gs = gs\<lparr>gs_to_transport_tx := (gs_to_transport_tx gs)
        \<lparr>ch_queue := ch_queue (gs_to_transport_tx gs) @ map (\<lambda>a. (a, m)) as\<rparr>\<rparr>"
    by (simp add: forwarded_def)
  with p show ?thesis by auto
qed

text \<open>
  C26: a message that was handled without a panic is in the cache, and handling it
  again, from whatever source, does nothing at all.
\<close>

theorem gossip_idempotent:
  "case gossip_handle_message E L src m (gs, t) of
     (Inl p, s') \<Rightarrow> True
   | (Inr r, s') \<Rightarrow> gossip_handle_message E L src' m s' = (Inr None, s')"
proof -
  obtain r gs' t' where h: "gossip_handle_message E L src m (gs, t) = (r, (gs', t'))"
    by (metis prod.collapse)
  show ?thesis
  proof (cases r)
    case (Inr r')
    then show ?thesis
      using h handled_cached [of E L src m gs t r' gs' t']
      by (auto simp: gossip_handle_eq split: option.split)
  qed (simp add: h)
qed

text \<open>
  C24: a gossip message whose id is not cached and that comes from another node is
  given to the application once, forwarded, and cached; one from the local node is only cached, so
  that the next heartbeat forwards it; one whose id is cached is dropped.
\<close>

theorem gossip_reception:
  assumes "linked_hash_map L" and "healthy L (Suc n) (kd_table (gs_kad gs))" and "gen_range_ok E"
    and "from_bytes (e_gossip E) (msg m) = Some g" and "ch_open (gs_to_app_tx gs)"
  shows "case gossip_handle_message E L src m (gs, t) of (r, gs', t') \<Rightarrow>
    (if hm_contains (gs_cache gs) (from_inner (gm_id g)) then r = Inr None \<and> gs' = gs
     else hm_contains (gs_cache gs') (from_inner (gm_id g)) \<and>
       (if src = gs_address gs
        then r = Inr None \<and> gs_to_app_tx gs' = gs_to_app_tx gs \<and> gs_to_transport_tx gs' = gs_to_transport_tx gs
        else r = Inr (Some g) \<and> ch_queue (gs_to_app_tx gs') = ch_queue (gs_to_app_tx gs) @ [g] \<and>
          (\<exists>as. fair_choice E L src gs as \<and>
            gs_to_transport_tx gs' = fold chan_send (map (\<lambda>a. (a, m)) as) (gs_to_transport_tx gs))))"
proof -
  let ?gs = "gs\<lparr>gs_to_app_tx := chan_send g (gs_to_app_tx gs)\<rparr>"
  have "total_peers L (kd_table (gs_kad ?gs)) < 960" using assms(2) by (auto simp: healthy_def)
  moreover have "healthy L (Suc n) (kd_table (gs_kad ?gs))" using assms(2) by simp
  ultimately obtain as t' where
    p: "publish E L src m (?gs, t) = (Inr (), (forwarded m as ?gs, t'))" "fair_choice E L src ?gs as"
    using linked_hash_map.publish_ok [OF assms(1) _ assms(3), of "Suc n" ?gs src m t] by blast
  have "fair_choice E L src gs as" using p(2) fair_choice_cong [of ?gs gs E L src as] by simp
  with p(1) assms(4,5) remembered_contains show ?thesis
    by (auto simp: gossip_handle_eq remembered_def [of _ _ _ "forwarded m as ?gs"] forwarded_def)
      (auto simp: remembered_def hm_contains_def hm_get_or_insert split: option.split)
qed

text \<open>
  C25: once the interval has passed, a heartbeat forwards every cached message that is
  younger than the gossip history, drops every one that is older than the history, keeps all
  others and restarts the interval; within bounds that keep durations from overflowing it does
  not panic.
\<close>

theorem gossip_heartbeat:
  assumes "linked_hash_map L" and "healthy L (Suc n) (kd_table (gs_kad gs))" and "gen_range_ok E"
    and "config_ok (gs_config gs)" and "hm_wf (gs_cache gs)" and "ch_open (gs_to_transport_tx gs)"
    and "gc_interval (gs_config gs) < e_now E (t + 1) - gs_heartbeat gs"
  shows "case gossip E L (gs, t) of (r, gs', t') \<Rightarrow>
    r = Inr () \<and> gs_heartbeat gs' = e_now E (t + 1) \<and>
    (\<forall>k. hm_get (gs_cache gs') k =
      (case hm_get (gs_cache gs) k of None \<Rightarrow> None | Some (m, e) \<Rightarrow>
        if gc_interval (gs_config gs) * gc_history_len (gs_config gs) < e_now E t - e then None else Some (m, e))) \<and>
    (\<exists>outs. list_all2 (entry_sends E L gs (e_now E t)) (hm_iter (\<lambda>k. e_ord_key E (inner k)) (gs_cache gs)) outs \<and>
      ch_queue (gs_to_transport_tx gs') = ch_queue (gs_to_transport_tx gs) @ concat outs)"
proof -
  let ?es = "hm_iter (\<lambda>k. e_ord_key E (inner k)) (gs_cache gs)"
  let ?lim = "gc_interval (gs_config gs) * gc_history_len (gs_config gs)"
  have "hm_get (fold (drop_expired ?lim (e_now E t)) ?es (gs_cache gs)) k =
      (case hm_get (gs_cache gs) k of None \<Rightarrow> None | Some (m, e) \<Rightarrow> if ?lim < e_now E t - e then None else Some (m, e))" for k
    using hm_entries [OF assms(5), of k _ "\<lambda>k. e_ord_key E (inner k)"]
    by (auto simp: fold_drop_expired split: option.split)
  moreover obtain outs t' where "gossip E L (gs, t) = (Inr (),
      (with_cache (fold (drop_expired ?lim (e_now E t)) ?es (gs_cache gs))
        (queued (concat outs) (gs\<lparr>gs_heartbeat := e_now E (t + 1)\<rparr>)), t'))"
    "list_all2 (entry_sends E L gs (e_now E t)) ?es outs"
    using linked_hash_map.gossip_ok [OF assms(1-4,7)] by blast
  ultimately show ?thesis
    using assms(6) by (auto simp: with_cache_def queued_def fold_chan_send_queue)
qed

text \<open>
  Neither receiving nor gossiping, panics included, changes the routing table, the
  configuration or the addresses, or withdraws a message from the application or the transport
  layer, and every cached message lies under the id it carries.
\<close>

theorem gossip_frame:
  "gs_keeps E s (snd (gossip E L s)) \<and> gs_keeps E s (snd (gossip_handle_message E L src m s)) \<and>
   gs_keeps E s (snd (publish E L src m s))"
  using framed_gossip framed_gossip_handle framed_publish unfolding framed_def by blast

section \<open>Concrete instances\<close>

lemma demo_gen_range: "gen_range_ok ref_env"
  by (simp add: gen_range_ok_def ref_env_def)

text \<open>The configuration of the example program: heartbeats of 250 milliseconds, 40% of the peers.\<close>

definition demo_config :: gossip_config where
  "demo_config = gossip_config_new ''vrrb-0.1.0-test-net'' 8 3 8 3 12 3 (\<lambda>n. 4 * n div 10) 250000000 80"

definition demo_gossip :: "(peer_id, peer_info) alist gossip_service" where
  "demo_gossip = gossip_service_new demo_neighbour demo_addr chan_new chan_new chan_new demo_kad demo_config 0 0"

definition demo_gossip_message :: gossip_message where
  "demo_gossip_message = \<lparr>gm_id = arr_of [7], gm_data = [1, 2, 3], gm_sender = demo_addr\<rparr>"

definition demo_rumour :: message where
  "demo_rumour = \<lparr>head = Gossip, msg = the (as_bytes (e_gossip ref_env) demo_gossip_message)\<rparr>"

lemma demo_gossip_simps [simp]:
  "gs_kad demo_gossip = demo_kad" "gs_config demo_gossip = demo_config" "gs_cache demo_gossip = []"
  "gs_to_transport_tx demo_gossip = chan_new" "gs_to_app_tx demo_gossip = chan_new"
  "gs_heartbeat demo_gossip = 0" "gs_address demo_gossip = demo_neighbour"
  "from_bytes (e_gossip ref_env) (msg demo_rumour) = Some demo_gossip_message"
  by (simp_all add: demo_gossip_def gossip_service_new_def demo_rumour_def)

lemma demo_config_ok: "config_ok demo_config"
  by (simp add: config_ok_def demo_config_def gossip_config_new_def)

lemma demo_gossip_healthy: "healthy lru (Suc 899) (kd_table (gs_kad demo_gossip))"
  using demo_healthy by simp

theorem publish_destinations_witness:
  "case publish ref_env lru demo_neighbour demo_rumour (demo_gossip, 0) of (r, gs', t') \<Rightarrow>
    r = Inr () \<and> (\<exists>as. fair_choice ref_env lru demo_neighbour demo_gossip as \<and>
      gs' = demo_gossip\<lparr>gs_to_transport_tx := (gs_to_transport_tx demo_gossip)
        \<lparr>ch_queue := ch_queue (gs_to_transport_tx demo_gossip) @ map (\<lambda>a. (a, demo_rumour)) as\<rparr>\<rparr>)"
  by (rule publish_destinations [OF lru.linked_hash_map_axioms demo_gossip_healthy demo_gen_range]) simp

theorem gossip_reception_witness:
  "case gossip_handle_message ref_env lru demo_addr demo_rumour (demo_gossip, 0) of (r, gs', t') \<Rightarrow>
    r = Inr (Some demo_gossip_message) \<and> ch_queue (gs_to_app_tx gs') = [demo_gossip_message]"
proof -
  have "demo_addr \<noteq> demo_neighbour" by (simp add: demo_addr_def demo_neighbour_def)
  with gossip_reception [OF lru.linked_hash_map_axioms demo_gossip_healthy demo_gen_range demo_gossip_simps(8),
      where src = demo_addr and t = 0]
  show ?thesis by (auto simp: hm_contains_def split: prod.splits)
qed

theorem gossip_heartbeat_witness:
  "case gossip ref_env lru (demo_gossip, 10 ^ 9) of (r, gs', t') \<Rightarrow>
    r = Inr () \<and> gs_heartbeat gs' = 10 ^ 9 + 1"
proof -
  have "e_now ref_env t = t" for t by (simp add: ref_env_def)
  with gossip_heartbeat [OF lru.linked_hash_map_axioms demo_gossip_healthy demo_gen_range,
      where t = "10 ^ 9"] demo_config_ok
  show ?thesis by (simp add: demo_config_def gossip_config_new_def split: prod.splits)
qed

end
