(* ===== verification/Delivery.thy ===== *)
theory Delivery
  imports Transport
begin

text \<open>
  The transport layer of one node and the message handler of another together
  (\<open>src/transport/transport.rs\<close>, \<open>src/transport/handler.rs\<close>,
  \<open>src/gd_udp/gd_udp.rs\<close>). Proved: the datagrams of a message, arriving in any order,
  are handled as exactly that message and queue one receipt each; and the receipts, coming back in
  any order, settle everything the message left outstanding, or nothing of it when the peer is on
  the local host under another address than the loopback one.
\<close>

section \<open>Datagrams at the receiver\<close>

text \<open>What a buffer holds after a datagram arrived: its bytes, then whatever was there before.\<close>

definition arrival :: "socket_addr \<Rightarrow> bytes \<Rightarrow> bytes \<Rightarrow> (bytes \<times> nat \<times> socket_addr) option" where
  "arrival src junk d = Some (d @ junk, length d, src)"

definition receipt :: "env \<Rightarrow> socket_addr \<Rightarrow> packet \<Rightarrow> ack_message" where
  "receipt E local p = \<lparr>ack_packet_id = pkt_id p, ack_packet_number = pkt_n p,
     ack_src = str_bytes (addr_to_string local)\<rparr>"

definition receipt_message :: "env \<Rightarrow> socket_addr \<Rightarrow> packet \<Rightarrow> message" where
  "receipt_message E local p = \<lparr>head = Ack, msg = the (as_bytes (e_ack E) (receipt E local p))\<rparr>"

definition receipts :: "env \<Rightarrow> socket_addr \<Rightarrow> socket_addr \<Rightarrow> packet list \<Rightarrow> (socket_addr \<times> message) list" where
  "receipts E local src ps =
     map (\<lambda>p. (src, receipt_message E local p)) (filter (\<lambda>p. pkt_ret p = RETURN_RECEIPT) ps)"

definition with_om :: "((socket_addr \<times> message) chan \<Rightarrow> (socket_addr \<times> message) chan) \<Rightarrow> handler \<Rightarrow> handler" where
  "with_om f h = h\<lparr>om_tx := f (om_tx h)\<rparr>"

text \<open>Collecting packets and routing messages does not touch the queue of outgoing messages.\<close>

lemma handle_message_with_om: "handle_message E m src (with_om f h) = with_om f (handle_message E m src h)"
  by (simp add: handle_message_def with_om_def split: header.split option.split)

lemma insert_packet_commutes: "commutes (with_om f) (insert_packet E p src)"
proof -
  have hm: "commutes (with_om f) (act_modify (handle_message E m src))" for m
    by (rule commutes_modify) (rule handle_message_with_om)
  have put: "commutes (with_om f) (act_modify (\<lambda>h. h\<lparr>pending := g (pending h)\<rparr>))" for g
    by (rule commutes_modify) (simp add: with_om_def)
  show ?thesis
    unfolding insert_packet_def Let_def
    by (auto intro!: commutes_rules commutes_get hm put simp: with_om_def split: option.split)
qed

context wire begin

lemma recv_packet:
  assumes "as_bytes (e_packet E) p = Some d"
  shows "recv_msg E (arrival src junk d) local h =
    insert_packet E p src (with_om (fold chan_send (receipts E local src [p])) h)"
proof -
  have "from_bytes (e_packet E) d = Some p" using assms by (rule packet.dec_enc)
  moreover have "slice (d @ junk) 0 (length d) = Inr d" by (simp add: slice_def)
  ultimately show ?thesis
    by (simp add: recv_msg_def arrival_def process_packet_def act_bind_apply act_then_apply act_apply
        ack.unwrap_enc receipts_def receipt_message_def receipt_def with_om_def)
qed

text \<open>A run of datagrams that carry packets is the run of these packets with their receipts queued.\<close>

lemma recv_packets:
  assumes "act_each ps (\<lambda>p. insert_packet E p src) h = (Inr (), h')"
  shows "act_each ps (\<lambda>p. recv_msg E (arrival src (junk p) (the (as_bytes (e_packet E) p))) local) h =
    (Inr (), with_om (fold chan_send (receipts E local src ps)) h')"
  using assms
proof (induction ps arbitrary: h h')
  case Nil
  then show ?case by (simp add: act_apply receipts_def with_om_def)
next
  case (Cons p ps)
  let ?f = "fold chan_send (receipts E local src [p])"
  obtain h1 where h1: "insert_packet E p src h = (Inr (), h1)"
    and h2: "act_each ps (\<lambda>p. insert_packet E p src) h1 = (Inr (), h')"
    using Cons.prems by (auto simp: act_then_apply split: prod.splits sum.splits)
  have recv: "recv_msg E (arrival src (junk p) (the (as_bytes (e_packet E) p))) local h = (Inr (), with_om ?f h1)"
    using recv_packet [OF packet.enc_Some] insert_packet_commutes [of ?f E p src] h1
    by (simp add: commutes_def)
  have "commutes (with_om ?f) (act_each ps (\<lambda>p. insert_packet E p src))"
    by (rule commutes_each) (rule insert_packet_commutes)
  then have "act_each ps (\<lambda>p. insert_packet E p src) (with_om ?f h1) = (Inr (), with_om ?f h')"
    using h2 by (simp add: commutes_def)
  from Cons.IH [OF this] have "act_each (p # ps)
      (\<lambda>p. recv_msg E (arrival src (junk p) (the (as_bytes (e_packet E) p))) local) h =
      (Inr (), with_om (fold chan_send (receipts E local src ps)) (with_om ?f h'))"
    using recv by (simp add: act_then_apply)
  then show ?case by (simp add: with_om_def receipts_def)
qed

text \<open>Datagrams that are, in some order, the encodings of a list of packets.\<close>

lemma datagrams_of_packets:
  assumes "mset ds = mset (map (\<lambda>p. the (as_bytes (e_packet E) p)) ps)"
  shows "\<exists>qs. mset qs = mset ps \<and> ds = map (\<lambda>p. the (as_bytes (e_packet E) p)) qs"
proof -
  let ?e = "\<lambda>p. the (as_bytes (e_packet E) p)" and ?d = "\<lambda>d. the (from_bytes (e_packet E) d)"
  have inv: "?d (?e p) = p" for p using packet.dec_enc [OF packet.enc_Some] by simp
  have "mset (map ?d ds) = image_mset ?d (mset (map ?e ps))" using assms by simp
  also have "\<dots> = mset ps" by (simp add: image_mset.compositionality comp_def inv)
  finally have "mset (map ?d ds) = mset ps" .
  moreover have "?e (?d d) = d" if "d \<in> set ds" for d
    using that mset_eq_setD [OF assms] by (auto simp: inv)
  then have "map ?e (map ?d ds) = ds" by (simp add: map_idI)
  ultimately show ?thesis by metis
qed

end

section \<open>Receipts at the sender\<close>

lemma in_flight_record_ack: "in_flight (record_ack i n a ob) = in_flight ob - {(i, n, a)}"
  by (auto simp: set_eq_iff in_flight_iff ob_get_record_ack split: option.split)

lemma record_ack_absent: "\<not> hm_contains ob i \<Longrightarrow> record_ack i n a ob = ob"
  by (simp add: record_ack_def hm_contains_def)

lemma incoming_receipt:
  assumes "ch_queue (ia_rx tr) = receipt E a p # rest"
  shows "incoming_ack tr = (Inr (), tr\<lparr>ia_rx := (ia_rx tr)\<lparr>ch_queue := rest\<rparr>,
    tr_gd_udp := (tr_gd_udp tr)\<lparr>gd_outbox := record_ack (pkt_id p) (pkt_n p) a (gd_outbox (tr_gd_udp tr))\<rparr>\<rparr>)"
  using assms
  by (simp add: incoming_ack_def act_bind_apply act_then_apply act_apply act_zoom_apply
      chan_try_recv_def process_ack_def receipt_def record_ack_absent)

lemma incoming_receipts:
  assumes "ch_queue (ia_rx tr) = map (receipt E a) qs @ rest"
  shows "act_each qs (\<lambda>_. incoming_ack) tr = (Inr (), tr\<lparr>ia_rx := (ia_rx tr)\<lparr>ch_queue := rest\<rparr>,
    tr_gd_udp := (tr_gd_udp tr)\<lparr>gd_outbox :=
      fold (\<lambda>p. record_ack (pkt_id p) (pkt_n p) a) qs (gd_outbox (tr_gd_udp tr))\<rparr>\<rparr>)"
  using assms
proof (induction qs arbitrary: tr)
  case Nil
  then show ?case by (simp add: act_apply)
next
  case (Cons q qs)
  then have "ch_queue (ia_rx tr) = receipt E a q # (map (receipt E a) qs @ rest)" by simp
  from incoming_receipt [OF this] Cons.IH show ?case by (simp add: act_then_apply)
qed

lemma ob_get_fold_acks:
  "ob_get (fold (\<lambda>p. record_ack (pkt_id p) (pkt_n p) a) qs ob) i n =
     map_option (\<lambda>(s, k, p, t). (s, (if \<exists>q \<in> set qs. pkt_id q = i \<and> pkt_n q = n then hs_insert a k else k), p, t))
       (ob_get ob i n)"
proof (induction qs arbitrary: ob)
  case Nil
  show ?case by (cases "ob_get ob i n") auto
next
  case (Cons q qs)
  have "hs_insert a (hs_insert a k) = hs_insert a k" for k :: "socket_addr hset"
    by (simp add: hs_insert_def)
  with Cons show ?case
    by (cases "ob_get ob i n"; cases "\<exists>q' \<in> set qs. pkt_id q' = i \<and> pkt_n q' = n")
      (auto simp: ob_get_record_ack)
qed

lemma in_flight_fold_acks:
  "in_flight (fold (\<lambda>p. record_ack (pkt_id p) (pkt_n p) a) qs ob) =
     in_flight ob - (\<lambda>p. (pkt_id p, pkt_n p, a)) ` set qs"
  by (induction qs arbitrary: ob) (auto simp: in_flight_record_ack)

lemma ob_ok_fold_acks: "ob_ok ob \<Longrightarrow> ob_ok (fold (\<lambda>p. record_ack (pkt_id p) (pkt_n p) a) qs ob)"
  by (induction qs arbitrary: ob) (simp_all add: ob_ok_record_ack)

text \<open>With every packet of a message acknowledged by its destination, no entry of it waits.\<close>

lemma settled_entry:
  assumes "hm_get ob i = None" and "set qs = set (packets_of E b i r)"
  shows "\<exists>s k p c. ob_get (fold (\<lambda>p. record_ack (pkt_id p) (pkt_n p) d) qs
      (fold (record_send d) (packets_of E b i r) ob)) i n \<in> {None, Some (s, k, p, c)} \<and> set s = set k"
proof (cases "find (\<lambda>p. pkt_n p = n) (packets_of E b i r)")
  case None
  then show ?thesis by (auto simp: ob_get_fold_acks ob_get_sent [OF assms(1)])
next
  case (Some p)
  then have "p \<in> set qs" "pkt_n p = n" unfolding assms(2) by (auto simp: find_Some_iff)
  moreover from this have "pkt_id p = i" using assms(2) by (auto simp: in_packets_of)
  ultimately show ?thesis using Some
    by (auto simp: ob_get_fold_acks ob_get_sent [OF assms(1)] hs_insert_def)
qed

text \<open>The packets of a message, as they are noted with an address.\<close>

lemma noted_packets:
  assumes "set qs = set (packets_of E b i r)"
  shows "(\<lambda>p. (pkt_id p, pkt_n p, a)) ` set qs = {(i, n, a) |n. 1 \<le> n \<and> n \<le> packet_count (length b)}"
proof -
  have "(\<lambda>p. (pkt_id p, pkt_n p, a)) ` set qs = (\<lambda>p. (i, pkt_n p, a)) ` set (packets_of E b i r)"
    unfolding assms by (rule image_cong) (auto simp: in_packets_of)
  also have "\<dots> = (\<lambda>n. (i, n, a)) ` set (map pkt_n (packets_of E b i r))" by (simp add: image_image)
  also have "\<dots> = {(i, n, a) |n. 1 \<le> n \<and> n \<le> packet_count (length b)}" unfolding packet_numbers by auto
  finally show ?thesis .
qed

text \<open>Nothing of such a message is outstanding.\<close>

lemma acknowledged_outbox:
  fixes b :: bytes and r :: u8 and d :: socket_addr
  assumes "ob_ok ob" and "hm_get ob i = None" and "set qs = set (packets_of E b i r)"
  defines "ob' \<equiv> fold (\<lambda>p. record_ack (pkt_id p) (pkt_n p) d) qs (fold (record_send d) (packets_of E b i r) ob)"
  shows "in_flight ob' = in_flight ob - {i} \<times> UNIV" and "ob_ok ob'"
proof -
  let ?ps = "packets_of E b i r"
  have "(i, n, a) \<notin> in_flight ob" for n a using assms(2) by (simp add: in_flight_iff ob_get_def)
  then show "in_flight ob' = in_flight ob - {i} \<times> UNIV"
    unfolding ob'_def in_flight_fold_acks in_flight_sent [OF assms(2)] noted_packets [OF assms(3)] by auto
  have "ob_ok (fold (record_send d) ?ps ob)"
    by (rule fold_invariant [of ?ps "\<lambda>_. True"]) (simp_all add: assms(1) ob_ok_record_send)
  then show "ob_ok ob'" unfolding ob'_def by (rule ob_ok_fold_acks)
qed

lemma datagram_fold_ttl: "sk_ttl_ok (fold (datagram E) L sk) = sk_ttl_ok sk"
  by (induction L arbitrary: sk) simp_all

section \<open>Properties\<close>

text \<open>
  C5: the datagrams the transport layer of one node sends for a message, received
  by another node in any order and whatever the rest of its buffer holds, make that node handle
  exactly that message and queue one receipt for each packet; nothing panics and the packets
  collected for other messages are untouched.
\<close>

theorem end_to_end_delivery:
  fixes E :: env and t :: nat
  defines "i \<equiv> rand_arr (e_rand E) t"
  assumes "wire E" and "ch_queue (om_rx tr) = (dst, m) # rest" and "head m \<noteq> Ack"
    and "sk_ttl_ok sk" and "sk_send_ok sk = (\<lambda>_ _. True)"
    and "outgoing_msg E t (tr, sk) = (r, tr', sk')" and "sk_sent sk' = sk_sent sk @ sent"
    and "mset ds = mset (map fst sent)" and "hm_get (pending h) i = None"
  shows "\<exists>pend b ps. as_bytes (e_message E) m = Some b \<and> mset ps = mset (packets_of E b i 1) \<and>
    act_each ds (\<lambda>d. recv_msg E (arrival src (junk d) d) local) h =
      (Inr (), (handle_message E m src h)\<lparr>pending := pend,
         om_tx := fold chan_send (map (\<lambda>p. (src, receipt_message E local p)) ps) (om_tx h)\<rparr>) \<and>
    (\<forall>k. k \<noteq> i \<longrightarrow> hm_get pend k = hm_get (pending h) k)"
proof -
  obtain b where b: "as_bytes (e_message E) m = Some b"
    using codec.round_trip [OF serde_codec, of "e_message E" m] assms(2) by (auto simp: wire_def)
  let ?ps = "packets_of E b i 1"
  have enc: "as_bytes (e_packet E) p \<noteq> None" for p by (rule packet_encodes [OF assms(2)])
  have "sent = encoded E (dest_of (gd_addr (tr_gd_udp tr)) dst) ?ps"
    using outgoing_reliable [OF assms(3-5) b, of t] assms(7,8) fold_datagram_sent [OF enc, of sk] assms(6)
    by (simp add: i_def)
  then have "mset ds = mset (map (\<lambda>p. the (as_bytes (e_packet E) p)) ?ps)"
    using assms(9) by (simp add: encoded_def comp_def)
  from wire.datagrams_of_packets [OF assms(2) this] obtain qs where
    qs: "mset qs = mset ?ps" and ds: "ds = map (\<lambda>p. the (as_bytes (e_packet E) p)) qs" by blast
  obtain pend where run: "act_each qs (\<lambda>p. insert_packet E p src) h =
      (Inr (), (handle_message E m src h)\<lparr>pending := pend\<rparr>)"
    and frame: "\<And>k. k \<noteq> i \<Longrightarrow> hm_get pend k = hm_get (pending h) k"
    using wire.insert_packets_once [OF assms(2) b qs assms(10)] by blast
  have "filter (\<lambda>p. pkt_ret p = RETURN_RECEIPT) qs = qs"
    by (rule filter_True) (use mset_eq_setD [OF qs] in \<open>auto simp: in_packets_of RETURN_RECEIPT_def\<close>)
  then have "receipts E local src qs = map (\<lambda>p. (src, receipt_message E local p)) qs"
    by (simp add: receipts_def)
  with wire.recv_packets [OF assms(2) run, of "\<lambda>p. junk (the (as_bytes (e_packet E) p))" local]
  have "act_each ds (\<lambda>d. recv_msg E (arrival src (junk d) d) local) h =
      (Inr (), (handle_message E m src h)\<lparr>pending := pend,
         om_tx := fold chan_send (map (\<lambda>p. (src, receipt_message E local p)) qs) (om_tx h)\<rparr>)"
    by (simp add: ds act_each_map with_om_def)
  with b qs frame show ?thesis by blast
qed

text \<open>
  C13: once the receipts of all packets of a message have come in, in any order and
  with any repetitions, from the address the message was sent to, nothing of that message is
  outstanding, what else was outstanding still is, and the next maintenance removes the message
  from the outbox.
\<close>

theorem receipts_settle:
  fixes E :: env and t :: nat
  defines "i \<equiv> rand_arr (e_rand E) t"
  assumes "ob_ok (gd_outbox (tr_gd_udp tr))" and "hm_get (gd_outbox (tr_gd_udp tr)) i = None"
    and "ch_queue (om_rx tr) = (dst, m) # rest" and "head m \<noteq> Ack" and "sk_ttl_ok sk"
    and "as_bytes (e_message E) m = Some b" and "outgoing_msg E t (tr, sk) = (r, tr', sk')"
    and "set qs = set (packets_of E b i 1)"
    and "ch_queue (ia_rx tr) = map (receipt E (dest_of (gd_addr (tr_gd_udp tr)) dst)) qs @ ias"
  shows "case act_each qs (\<lambda>_. incoming_ack) tr' of (r, tr'') \<Rightarrow> r = Inr () \<and>
    ch_queue (ia_rx tr'') = ias \<and>
    in_flight (gd_outbox (tr_gd_udp tr'')) = in_flight (gd_outbox (tr_gd_udp tr)) - {i} \<times> UNIV \<and>
    (\<forall>n. ob_get (gd_outbox (fst (snd (maintain E (tr_gd_udp tr'', sk'))))) i n = None)"
proof -
  let ?ps = "packets_of E b i 1" and ?d = "dest_of (gd_addr (tr_gd_udp tr)) dst"
  let ?ob = "gd_outbox (tr_gd_udp tr)" and ?f = "\<lambda>p. record_ack (pkt_id p) (pkt_n p) (dest_of (gd_addr (tr_gd_udp tr)) dst)"
  let ?ob1 = "fold (record_send ?d) ?ps ?ob"
  let ?ob2 = "fold ?f qs ?ob1"
  have sent: "tr' = tr\<lparr>om_rx := (om_rx tr)\<lparr>ch_queue := rest\<rparr>,
      tr_gd_udp := (tr_gd_udp tr)\<lparr>gd_outbox := ?ob1\<rparr>\<rparr>"
    and sk': "sk' = fold (datagram E) (to_dest ?d ?ps) sk"
    using outgoing_reliable [OF assms(4-7), of t] assms(8) by (simp_all add: i_def)
  have "ch_queue (ia_rx tr') = map (receipt E ?d) qs @ ias" using assms(10) by (simp add: sent)
  note acks = incoming_receipts [OF this]
  note fl = acknowledged_outbox [OF assms(2,3,9), of ?d]
  have flags: "sk_ttl_ok sk'" using assms(6) by (simp add: sk' datagram_fold_ttl)
  have gone: "ob_get (gd_outbox (fst (snd (maintain E ((tr_gd_udp tr')\<lparr>gd_outbox := ?ob2\<rparr>, sk'))))) i n = None" for n
  proof -
    obtain s k p c where "ob_get ?ob2 i n = None \<or> ob_get ?ob2 i n = Some (s, k, p, c) \<and> set s = set k"
      using settled_entry [OF assms(3) assms(9), of ?d n] by blast
    with maintain_effect(3) [of "((tr_gd_udp tr')\<lparr>gd_outbox := ?ob2\<rparr>, sk')" E i n] fl(2) flags
    show ?thesis by (auto simp: gd_inv_def)
  qed
  show ?thesis using acks fl(1) gone by (simp add: sent)
qed

text \<open>
  C40: receipts for all packets of a message that carry the address the message was sent to settle
  it unless the peer is on the local host under another address than the loopback one: the
  packets for such a peer go to the loopback address and are recorded under it, its receipts,
  which carry the address it is bound to, are taken without effect, and all packets of the
  message stay outstanding.
\<close>

theorem loopback_receipt_ignored:
  fixes E :: env and t :: nat
  defines "i \<equiv> rand_arr (e_rand E) t"
  assumes "hm_get (gd_outbox (tr_gd_udp tr)) i = None"
    and "ch_queue (om_rx tr) = (dst, m) # rest" and "head m \<noteq> Ack" and "sk_ttl_ok sk"
    and "as_bytes (e_message E) m = Some b" and "outgoing_msg E t (tr, sk) = (r, tr', sk')"
    and "reliable_dest (gd_addr (tr_gd_udp tr)) dst = Inr d"
    and "set qs = set (packets_of E b i 1)" and "ch_queue (ia_rx tr) = map (receipt E dst) qs @ ias"
  shows "case act_each qs (\<lambda>_. incoming_ack) tr' of (r, tr'') \<Rightarrow> r = Inr () \<and>
    ch_queue (ia_rx tr'') = ias \<and>
    in_flight (gd_outbox (tr_gd_udp tr'')) = in_flight (gd_outbox (tr_gd_udp tr)) \<union>
      (if d = dst then {} else {(i, n, d) |n. 1 \<le> n \<and> n \<le> packet_count (length b)}) \<and>
    (d = dst \<longleftrightarrow> (addr_ip dst = addr_ip (gd_addr (tr_gd_udp tr)) \<longrightarrow> addr_ip dst = loopback))"
proof -
  let ?ps = "packets_of E b i 1" and ?ob = "gd_outbox (tr_gd_udp tr)"
  have d: "d = dest_of (gd_addr (tr_gd_udp tr)) dst" using assms(8) by (simp add: reliable_dest_eq)
  have sent: "tr' = tr\<lparr>om_rx := (om_rx tr)\<lparr>ch_queue := rest\<rparr>,
      tr_gd_udp := (tr_gd_udp tr)\<lparr>gd_outbox := fold (record_send d) ?ps ?ob\<rparr>\<rparr>"
    using outgoing_reliable [OF assms(3-6), of t] assms(7) by (simp add: i_def d)
  have "ch_queue (ia_rx tr') = map (receipt E dst) qs @ ias" using assms(10) by (simp add: sent)
  note acks = incoming_receipts [OF this]
  have "(i, n, a) \<notin> in_flight ?ob" for n a using assms(2) by (simp add: in_flight_iff ob_get_def)
  then have "in_flight (fold (\<lambda>p. record_ack (pkt_id p) (pkt_n p) dst) qs (fold (record_send d) ?ps ?ob)) =
      in_flight ?ob \<union> (if d = dst then {} else {(i, n, d) |n. 1 \<le> n \<and> n \<le> packet_count (length b)})"
    unfolding in_flight_fold_acks in_flight_sent [OF assms(2)] noted_packets [OF assms(9)] by auto
  moreover have "d = dst \<longleftrightarrow> (addr_ip dst = addr_ip (gd_addr (tr_gd_udp tr)) \<longrightarrow> addr_ip dst = loopback)"
    by (cases dst) (auto simp: d dest_of_def)
  ultimately show ?thesis using acks by (simp add: sent)
qed

section \<open>Concrete instances\<close>

definition demo_out :: "ack_message list \<Rightarrow> (panic + unit) \<times> trs" where
  "demo_out ia = outgoing_msg ref_env 3 (demo_transport [(demo_neighbour, demo_message)] ia, demo_sock)"

theorem end_to_end_delivery_witness:
  "\<exists>pend b ps. as_bytes (e_message ref_env) demo_message = Some b \<and>
     act_each (rev (map fst (sk_sent (snd (snd (demo_out []))))))
       (\<lambda>d. recv_msg ref_env (arrival demo_addr [0, 0] d) demo_neighbour) demo_handler =
     (Inr (), (handle_message ref_env demo_message demo_addr demo_handler)\<lparr>pending := pend,
        om_tx := fold chan_send (map (\<lambda>p. (demo_addr, receipt_message ref_env demo_neighbour p)) ps)
                   (om_tx demo_handler)\<rparr>)"
  using end_to_end_delivery [OF ref.wire_axioms, of "demo_transport [(demo_neighbour, demo_message)] []"
      demo_neighbour demo_message "[]" demo_sock 3 "fst (demo_out [])" "fst (snd (demo_out []))"
      "snd (snd (demo_out []))" "sk_sent (snd (snd (demo_out [])))"
      "rev (map fst (sk_sent (snd (snd (demo_out [])))))" demo_handler demo_addr "\<lambda>_. [0, 0]" demo_neighbour]
  by (simp add: demo_transport_def transport_new_def demo_message_def demo_sock_def demo_out_def) blast

theorem receipts_settle_witness:
  "let b = the (as_bytes (e_message ref_env) demo_message); i = rand_arr (e_rand ref_env) 3;
       qs = rev (packets_of ref_env b i 1);
       ia = map (receipt ref_env (dest_of demo_addr demo_neighbour)) qs in
   case act_each qs (\<lambda>_. incoming_ack) (fst (snd (demo_out ia))) of (r, tr'') \<Rightarrow>
     r = Inr () \<and> in_flight (gd_outbox (tr_gd_udp tr'')) = {}"
proof -
  let ?b = "the (as_bytes (e_message ref_env) demo_message)" and ?i = "rand_arr (e_rand ref_env) 3"
  let ?qs = "rev (packets_of ref_env ?b ?i 1)"
  let ?ia = "map (receipt ref_env (dest_of demo_addr demo_neighbour)) ?qs"
  have "outgoing_msg ref_env 3 (demo_transport [(demo_neighbour, demo_message)] ?ia, demo_sock) =
      (fst (demo_out ?ia), fst (snd (demo_out ?ia)), snd (snd (demo_out ?ia)))"
    by (simp add: demo_out_def)
  from receipts_settle [where rest = "[]" and qs = ?qs and ias = "[]", OF _ _ _ _ _ ref.message.enc_Some this] show ?thesis
    by (simp add: demo_transport_def transport_new_def gd_udp_new_def demo_message_def demo_sock_def
        Let_def in_flight_def case_prod_unfold)
qed

theorem loopback_receipt_ignored_witness:
  "let b = the (as_bytes (e_message ref_env) demo_message); i = rand_arr (e_rand ref_env) 3;
       qs = packets_of ref_env b i 1; ia = map (receipt ref_env demo_neighbour) qs in
   case act_each qs (\<lambda>_. incoming_ack) (fst (snd (demo_out ia))) of (r, tr'') \<Rightarrow>
     ch_queue (ia_rx tr'') = [] \<and> (i, 1, SocketAddrV4 loopback 9999) \<in> in_flight (gd_outbox (tr_gd_udp tr''))"
proof -
  let ?b = "the (as_bytes (e_message ref_env) demo_message)" and ?i = "rand_arr (e_rand ref_env) 3"
  let ?qs = "packets_of ref_env ?b ?i 1"
  let ?ia = "map (receipt ref_env demo_neighbour) ?qs"
  have sent: "outgoing_msg ref_env 3 (demo_transport [(demo_neighbour, demo_message)] ?ia, demo_sock) =
      (fst (demo_out ?ia), fst (snd (demo_out ?ia)), snd (snd (demo_out ?ia)))"
    by (simp add: demo_out_def)
  have dest: "reliable_dest (gd_addr (tr_gd_udp (demo_transport [(demo_neighbour, demo_message)] ?ia))) demo_neighbour =
      Inr (SocketAddrV4 loopback 9999)"
    by (simp add: reliable_dest_eq dest_of_def demo_transport_def transport_new_def gd_udp_new_def demo_neighbour_def)
  have "SocketAddrV4 loopback 9999 \<noteq> demo_neighbour" by (simp add: demo_neighbour_def demo_addr_def loopback_def)
  moreover have "1 \<le> packet_count (length ?b)" by (simp add: Suc_le_eq)
  moreover have "hm_get (gd_outbox (tr_gd_udp (demo_transport om ia))) k = None" "ch_queue (om_rx (demo_transport om ia)) = om"
    "ch_queue (ia_rx (demo_transport om ia)) = ia" for om ia k
    by (simp_all add: demo_transport_def transport_new_def gd_udp_new_def)
  moreover have "head demo_message \<noteq> Ack" "sk_ttl_ok demo_sock" by (simp_all add: demo_message_def demo_sock_def)
  ultimately show ?thesis
    using loopback_receipt_ignored [OF _ _ _ _ ref.message.enc_Some sent dest, where rest = "[]" and qs = ?qs and ias = "[]"]
    by (auto simp: Let_def case_prod_unfold)
qed

end
