(* ===== verification/Node.thy ===== *)
theory Node
  imports Gossip Delivery
begin

text \<open>
  The node as the example program assembles it (\<open>examples/chat.rs\<close>): the components,
  the channels between them and the threads that run them. A channel has one queue, kept in the
  component that receives from it; the fields of the sending components are filled with it while
  one of their operations runs (\<open>handler_view\<close>, \<open>kad_view\<close>,
  \<open>gossip_view\<close>). A step is one method call of one thread: the calls of a thread
  follow each other in the order of its loop, those of different threads interleave in any way. A
  panic ends the thread, and with it the receivers it owns; a panic of the main thread ends the
  process. Proved: the invariant of the whole node in every reachable state, panics included; that
  a node whose transport thread has ended is silent for ever, and that one datagram of a stranger
  can end it; that a rumour that arrives is shown, and that a line typed is passed on.
\<close>

section \<open>State\<close>

datatype transport_call = IncomingAck | OutgoingMsg | CheckTime

datatype main_call = Dial | KadRecv | GossipRecv | GossipBeat

record 'm node =
  nd_addr :: socket_addr
  nd_info :: peer_info
  nd_dial :: "string option"
  nd_sock :: sock
  nd_transport :: transport
  nd_transport_up :: bool
  nd_transport_pc :: transport_call
  nd_handler :: handler
  nd_handler_up :: bool
  nd_gossip :: "'m gossip_service"
  nd_main_up :: bool
  nd_main_pc :: main_call
  nd_input_up :: bool
  nd_chat :: "gossip_message chan"
  nd_screen :: "gossip_message list"
  nd_tick :: nat

text \<open>
  Start-up. \<open>digest_bytes\<close>, \<open>factor\<close>, the public address (None when it
  cannot be found), the outcome of binding the socket and the argument of the command line are
  parameters; \<open>t\<close> is the position in the random source and the clock.
\<close>

definition node_new ::
    "env \<Rightarrow> 'm lhm \<Rightarrow> (u8 list \<Rightarrow> string) \<Rightarrow> (nat \<Rightarrow> nat) \<Rightarrow> nat \<Rightarrow> ipv4 option \<Rightarrow> sock option \<Rightarrow>
     string option \<Rightarrow> panic + 'm node" where
  "node_new E L digest_bytes factor t pub_ip sk dial =
     (let port = 9292 + e_gen_range E t 10000 in
      res_bind (unwrap_parse (parse_addr (format_addr (Ipv4 0 0 0 0) port))) (\<lambda>addr.
      res_bind (unwrap_parse sk) (\<lambda>sk.
      let key = key_rand (e_rand E) (t + 1); pid = peer_id_from_key digest_bytes key in
      res_bind (case pub_ip of Some ip \<Rightarrow> Inr ip | None \<Rightarrow> Inl UnwrapNone) (\<lambda>ip.
      res_bind (peer_info_new pid key ip (word_of_nat port)) (\<lambda>info.
      res_bind (routing_table_new L (e_now E (t + 33)) (e_now E (t + 34)) info) (\<lambda>routing_table.
      let kad = kademlia_new routing_table chan_new chan_new [] (20 * 10 ^ 9) (e_now E (t + 35));
          transport = transport_new (pi_address info) chan_new chan_new (e_now E (t + 36));
          message_handler = handler_new chan_new chan_new [] chan_new chan_new;
          gossip_config = gossip_config_new ''vrrb-0.1.0-test-net'' 8 3 8 3 12 3 factor 250000000 80;
          gossip = gossip_service_new addr (pi_address info) chan_new chan_new chan_new kad gossip_config
            (e_now E (t + 37)) (e_now E (t + 38))
      in if sk_clone_ok sk
         then Inr \<lparr>nd_addr = addr, nd_info = info, nd_dial = dial, nd_sock = sk,
                nd_transport = transport, nd_transport_up = True, nd_transport_pc = IncomingAck,
                nd_handler = message_handler, nd_handler_up = True,
                nd_gossip = gossip, nd_main_up = True, nd_main_pc = Dial, nd_input_up = True,
                nd_chat = chan_new, nd_screen = [], nd_tick = t + 39\<rparr>
         else Inl UnwrapErr))))))"

text \<open>What a started node is made of.\<close>

lemma node_new_fields:
  assumes "node_new E L digest_bytes factor t pub_ip sk dial = Inr nd"
  shows "\<exists>addr info rt sk'. routing_table_new L (e_now E (t + 33)) (e_now E (t + 34)) info = Inr rt \<and>
    sk = Some sk' \<and> sk_clone_ok sk' \<and>
    nd = \<lparr>nd_addr = addr, nd_info = info, nd_dial = dial, nd_sock = sk',
      nd_transport = transport_new (pi_address info) chan_new chan_new (e_now E (t + 36)),
      nd_transport_up = True, nd_transport_pc = IncomingAck,
      nd_handler = handler_new chan_new chan_new [] chan_new chan_new, nd_handler_up = True,
      nd_gossip = gossip_service_new addr (pi_address info) chan_new chan_new chan_new
        (kademlia_new rt chan_new chan_new [] (20 * 10 ^ 9) (e_now E (t + 35)))
        (gossip_config_new ''vrrb-0.1.0-test-net'' 8 3 8 3 12 3 factor 250000000 80)
        (e_now E (t + 37)) (e_now E (t + 38)),
      nd_main_up = True, nd_main_pc = Dial, nd_input_up = True, nd_chat = chan_new, nd_screen = [],
      nd_tick = t + 39\<rparr>"
  using assms unfolding node_new_def Let_def res_bind_eq_Inr
  by (auto simp: unwrap_parse_def split: if_splits option.splits)

section \<open>Shared channels\<close>

definition handler_view :: "'m node \<Rightarrow> handler" where
  "handler_view nd = (nd_handler nd)\<lparr>om_tx := om_rx (nd_transport nd), ia_tx := ia_rx (nd_transport nd),
     kad_tx := kd_from_transport (gs_kad (nd_gossip nd)), gossip_tx := gs_to_gossip_rx (nd_gossip nd)\<rparr>"

definition put_handler :: "handler \<Rightarrow> 'm node \<Rightarrow> 'm node" where
  "put_handler h nd = nd\<lparr>nd_handler := h,
     nd_transport := (nd_transport nd)\<lparr>om_rx := om_tx h, ia_rx := ia_tx h\<rparr>,
     nd_gossip := (nd_gossip nd)\<lparr>gs_to_gossip_rx := gossip_tx h,
       gs_kad := (gs_kad (nd_gossip nd))\<lparr>kd_from_transport := kad_tx h\<rparr>\<rparr>\<rparr>"

definition kad_view :: "'m node \<Rightarrow> 'm kads" where
  "kad_view nd = ((gs_kad (nd_gossip nd))\<lparr>kd_to_transport := om_rx (nd_transport nd)\<rparr>, nd_tick nd)"

definition put_kad :: "'m kads \<Rightarrow> 'm node \<Rightarrow> 'm node" where
  "put_kad = (\<lambda>(kd, t) nd. nd\<lparr>nd_gossip := (nd_gossip nd)\<lparr>gs_kad := kd\<rparr>,
     nd_transport := (nd_transport nd)\<lparr>om_rx := kd_to_transport kd\<rparr>, nd_tick := t\<rparr>)"

definition gossip_view :: "'m node \<Rightarrow> 'm gss" where
  "gossip_view nd = ((nd_gossip nd)\<lparr>gs_to_transport_tx := om_rx (nd_transport nd)\<rparr>, nd_tick nd)"

definition put_gossip :: "'m gss \<Rightarrow> 'm node \<Rightarrow> 'm node" where
  "put_gossip = (\<lambda>(gs, t) nd. nd\<lparr>nd_gossip := gs,
     nd_transport := (nd_transport nd)\<lparr>om_rx := gs_to_transport_tx gs\<rparr>, nd_tick := t\<rparr>)"

definition on_handler :: "(handler, 'a) act \<Rightarrow> ('m node, 'a) act" where
  "on_handler = act_zoom handler_view put_handler"

definition on_kad :: "('m kads, 'a) act \<Rightarrow> ('m node, 'a) act" where
  "on_kad = act_zoom kad_view put_kad"

definition on_gossip :: "('m gss, 'a) act \<Rightarrow> ('m node, 'a) act" where
  "on_gossip = act_zoom gossip_view put_gossip"

text \<open>The transport thread shares the socket and the clock; a call draws at most 32 random bytes.\<close>

definition on_transport :: "(trs, 'a) act \<Rightarrow> ('m node, 'a) act" where
  "on_transport = act_zoom (\<lambda>nd. (nd_transport nd, nd_sock nd))
     (\<lambda>(tr, sk) nd. nd\<lparr>nd_transport := tr, nd_sock := sk, nd_tick := nd_tick nd + 32\<rparr>)"

section \<open>Threads\<close>

fun transport_call_act :: "env \<Rightarrow> nat \<Rightarrow> transport_call \<Rightarrow> (trs, unit) act" where
  "transport_call_act E t IncomingAck = (\<lambda>(tr, sk). case incoming_ack tr of (r, tr') \<Rightarrow> (r, (tr', sk)))"
| "transport_call_act E t OutgoingMsg = outgoing_msg E t"
| "transport_call_act E t CheckTime = check_time_elapsed E (e_now E t) (e_now E (t + 1))"

fun next_transport_call :: "transport_call \<Rightarrow> transport_call" where
  "next_transport_call IncomingAck = OutgoingMsg"
| "next_transport_call OutgoingMsg = CheckTime"
| "next_transport_call CheckTime = IncomingAck"

text \<open>A receiver that is dropped: what it held is gone and further sends fail.\<close>

definition chan_drop :: "'a chan \<Rightarrow> 'a chan" where
  "chan_drop c = \<lparr>ch_queue = [], ch_open = False\<rparr>"

definition drop_transport :: "'m node \<Rightarrow> 'm node" where
  "drop_transport nd = nd\<lparr>nd_transport_up := False, nd_transport := (nd_transport nd)
     \<lparr>ia_rx := chan_drop (ia_rx (nd_transport nd)), om_rx := chan_drop (om_rx (nd_transport nd))\<rparr>\<rparr>"

definition transport_turn :: "env \<Rightarrow> 'm node \<Rightarrow> 'm node" where
  "transport_turn E nd =
     (case on_transport (transport_call_act E (nd_tick nd) (nd_transport_pc nd)) nd of
        (Inl p, nd') \<Rightarrow> drop_transport nd'
      | (Inr u, nd') \<Rightarrow> nd'\<lparr>nd_transport_pc := next_transport_call (nd_transport_pc nd)\<rparr>)"

text \<open>The argument is what \<open>recv_from\<close> returned.\<close>

definition handler_turn :: "env \<Rightarrow> (bytes \<times> nat \<times> socket_addr) option \<Rightarrow> 'm node \<Rightarrow> 'm node" where
  "handler_turn E res nd =
     (case on_handler (recv_msg E res (get_pub_ip (nd_gossip nd))) nd of
        (Inl p, nd') \<Rightarrow> nd'\<lparr>nd_handler_up := False\<rparr>
      | (Inr u, nd') \<Rightarrow> nd')"

definition node_dial :: "env \<Rightarrow> 'm lhm \<Rightarrow> ('m node, unit) act" where
  "node_dial E L =
     act_bind (act_get (\<lambda>nd. (nd_dial nd, nd_info nd))) (\<lambda>(dial, info).
     act_then
       (case dial of
          Some to_dial \<Rightarrow> act_bind (act_lift (unwrap_parse (parse_addr to_dial))) (\<lambda>addr. on_kad (bootstrap E L addr))
        | None \<Rightarrow> act_ret ())
       (case as_bytes (e_peer E) info of
          Some b \<Rightarrow> on_kad (add_peer E L b)
        | None \<Rightarrow> act_ret ()))"

text \<open>The calls of the loop of \<open>GossipService::start\<close>; \<open>d\<close> is the depth of the stack.\<close>

fun main_call_act :: "nat \<Rightarrow> env \<Rightarrow> 'm lhm \<Rightarrow> main_call \<Rightarrow> ('m node, unit) act" where
  "main_call_act d E L Dial = node_dial E L"
| "main_call_act d E L KadRecv = on_kad (kad_recv d E L)"
| "main_call_act d E L GossipRecv =
     act_bind (act_get nd_chat) (\<lambda>tx.
     act_bind (on_gossip (gossip_recv E L tx)) (\<lambda>tx.
     act_modify (\<lambda>nd. nd\<lparr>nd_chat := tx\<rparr>)))"
| "main_call_act d E L GossipBeat = on_gossip (gossip E L)"

fun next_main_call :: "main_call \<Rightarrow> main_call" where
  "next_main_call Dial = KadRecv"
| "next_main_call KadRecv = GossipRecv"
| "next_main_call GossipRecv = GossipBeat"
| "next_main_call GossipBeat = KadRecv"

definition main_turn :: "nat \<Rightarrow> env \<Rightarrow> 'm lhm \<Rightarrow> 'm node \<Rightarrow> 'm node" where
  "main_turn d E L nd =
     (case main_call_act d E L (nd_main_pc nd) nd of
        (Inl p, nd') \<Rightarrow> nd'\<lparr>nd_main_up := False\<rparr>
      | (Inr u, nd') \<Rightarrow> nd'\<lparr>nd_main_pc := next_main_call (nd_main_pc nd)\<rparr>)"

text \<open>
  \<open>line.trim()\<close>: the text is kept as its UTF-8 bytes, and the characters of Unicode's property
  \<open>White_Space\<close> are dropped from both ends, each as the bytes that encode it. No encoding of a
  character ends or begins inside another one, so reading backwards finds whole characters too.
\<close>

definition white_space :: "string list" where
  "white_space =
     map (\<lambda>c. [c]) [CHR 0x09, CHR 0x0A, CHR 0x0B, CHR 0x0C, CHR 0x0D, CHR 0x20] @
     map (\<lambda>c. [CHR 0xC2, c]) [CHR 0x85, CHR 0xA0] @
     [[CHR 0xE1, CHR 0x9A, CHR 0x80], [CHR 0xE2, CHR 0x81, CHR 0x9F], [CHR 0xE3, CHR 0x80, CHR 0x80]] @
     map (\<lambda>c. [CHR 0xE2, CHR 0x80, c]) [CHR 0x80, CHR 0x81, CHR 0x82, CHR 0x83, CHR 0x84, CHR 0x85,
       CHR 0x86, CHR 0x87, CHR 0x88, CHR 0x89, CHR 0x8A, CHR 0xA8, CHR 0xA9, CHR 0xAF]"

function trim_front :: "string list \<Rightarrow> string \<Rightarrow> string" where
  "trim_front ws s =
     (case find (\<lambda>w. w \<noteq> [] \<and> prefix w s) ws of
        Some w \<Rightarrow> trim_front ws (drop (length w) s)
      | None \<Rightarrow> s)"
  by pat_completeness auto
termination
  by (relation "measure (\<lambda>(ws, s). length s)") (auto simp: find_Some_iff prefix_def)

declare trim_front.simps [simp del]

definition trim :: "string \<Rightarrow> string" where
  "trim s = rev (trim_front (map rev white_space) (rev (trim_front white_space s)))"

lemma trim_examples:
  "trim '' hello '' = ''hello''"
  "trim [CHR 0xE2, CHR 0x80, CHR 0x89, CHR ''a'', CHR 0xC2, CHR 0xA0, CHR 0x0A] = ''a''"
  by (simp_all add: trim_def white_space_def trim_front.simps)

text \<open>The thread that reads the input. A line is None when reading failed.\<close>

definition node_input :: "env \<Rightarrow> string option \<Rightarrow> ('m node, unit) act" where
  "node_input E input =
     (case input of
        None \<Rightarrow> act_ret ()
      | Some line \<Rightarrow>
          act_bind (act_get (\<lambda>nd. (message_key_rand (e_rand E) (nd_tick nd), nd_addr nd))) (\<lambda>(msg_id, addr).
          act_then (act_modify (\<lambda>nd. nd\<lparr>nd_tick := nd_tick nd + 32\<rparr>))
         (let m = \<lparr>gm_id = inner msg_id, gm_data = str_bytes (trim line), gm_sender = addr\<rparr> in
          act_bind (act_unwrap (as_bytes (e_gossip E) m)) (\<lambda>b.
          act_modify (\<lambda>nd. nd\<lparr>nd_gossip := (nd_gossip nd)\<lparr>gs_to_gossip_rx :=
            chan_send (addr, \<lparr>head = Gossip, msg = b\<rparr>) (gs_to_gossip_rx (nd_gossip nd))\<rparr>\<rparr>)))))"

definition input_turn :: "env \<Rightarrow> string option \<Rightarrow> 'm node \<Rightarrow> 'm node" where
  "input_turn E input nd =
     (case node_input E input nd of
        (Inl p, nd') \<Rightarrow> nd'\<lparr>nd_input_up := False\<rparr>
      | (Inr u, nd') \<Rightarrow> nd')"

text \<open>The thread that prints what reached the chat channel.\<close>

definition show_turn :: "'m node \<Rightarrow> 'm node" where
  "show_turn nd =
     (case chan_try_recv (nd_chat nd) of
        (Some g, c) \<Rightarrow> nd\<lparr>nd_chat := c, nd_screen := nd_screen nd @ [g]\<rparr>
      | (None, c) \<Rightarrow> nd)"

section \<open>Steps\<close>

datatype node_event =
    TransportTurn
  | Datagram "(bytes \<times> nat \<times> socket_addr) option"
  | MainTurn
  | Line "string option"
  | ShowTurn

fun node_turn :: "nat \<Rightarrow> env \<Rightarrow> 'm lhm \<Rightarrow> node_event \<Rightarrow> 'm node \<Rightarrow> 'm node" where
  "node_turn d E L TransportTurn nd = transport_turn E nd"
| "node_turn d E L (Datagram res) nd = handler_turn E res nd"
| "node_turn d E L MainTurn nd = main_turn d E L nd"
| "node_turn d E L (Line input) nd = input_turn E input nd"
| "node_turn d E L ShowTurn nd = show_turn nd"

text \<open>
  A thread runs as long as it and the main thread do; those for input and output are started
  when the main thread has joined the network.
\<close>

fun enabled :: "node_event \<Rightarrow> 'm node \<Rightarrow> bool" where
  "enabled TransportTurn nd = (nd_main_up nd \<and> nd_transport_up nd)"
| "enabled (Datagram res) nd = (nd_main_up nd \<and> nd_handler_up nd)"
| "enabled MainTurn nd = nd_main_up nd"
| "enabled (Line input) nd = (nd_main_up nd \<and> nd_main_pc nd \<noteq> Dial \<and> nd_input_up nd)"
| "enabled ShowTurn nd = (nd_main_up nd \<and> nd_main_pc nd \<noteq> Dial)"

inductive node_step :: "nat \<Rightarrow> env \<Rightarrow> 'm lhm \<Rightarrow> 'm node \<Rightarrow> 'm node \<Rightarrow> bool" for d E L where
  turn: "enabled e nd \<Longrightarrow> node_step d E L nd (node_turn d E L e nd)"

inductive reachable :: "nat \<Rightarrow> env \<Rightarrow> 'm lhm \<Rightarrow> 'm node \<Rightarrow> 'm node \<Rightarrow> bool" for d E L nd where
  start: "reachable d E L nd nd"
| step: "reachable d E L nd nd' \<Longrightarrow> node_step d E L nd' nd'' \<Longrightarrow> reachable d E L nd nd''"

inductive_cases node_stepE: "node_step d E L nd nd'"

section \<open>The invariant\<close>

text \<open>
  The receivers of the transport thread exist exactly while it runs, those of the main thread
  always; the outbox, the collected packets, the routing table and the gossip cache are well
  formed; the identity and the addresses of the node are the ones it started with.
\<close>

definition node_ok :: "env \<Rightarrow> 'm lhm \<Rightarrow> 'm node \<Rightarrow> bool" where
  "node_ok E L nd \<longleftrightarrow>
     ch_open (ia_rx (nd_transport nd)) = nd_transport_up nd \<and>
     ch_open (om_rx (nd_transport nd)) = nd_transport_up nd \<and>
     ch_open (kd_from_transport (gs_kad (nd_gossip nd))) \<and> ch_open (gs_to_gossip_rx (nd_gossip nd)) \<and>
     ch_open (gs_to_app_tx (nd_gossip nd)) \<and> ch_open (nd_chat nd) \<and>
     ob_ok (gd_outbox (tr_gd_udp (nd_transport nd))) \<and> pending_ok (pending (nd_handler nd)) \<and>
     rt_ok L (kd_table (gs_kad (nd_gossip nd))) \<and> rt_dense L (kd_table (gs_kad (nd_gossip nd))) \<and>
     cache_ok E (gs_cache (nd_gossip nd)) \<and>
     local_info (kd_table (gs_kad (nd_gossip nd))) = nd_info nd \<and>
     gd_addr (tr_gd_udp (nd_transport nd)) = pi_address (nd_info nd) \<and>
     gs_public_ip (nd_gossip nd) = pi_address (nd_info nd) \<and> gs_address (nd_gossip nd) = nd_addr nd"

lemmas view_defs =
  handler_view_def put_handler_def kad_view_def put_kad_def gossip_view_def put_gossip_def

text \<open>What one call does to the node, given what it does to its component.\<close>

definition node_keeps :: "env \<Rightarrow> 'm lhm \<Rightarrow> 'm node \<Rightarrow> 'm node \<Rightarrow> bool" where
  "node_keeps E L nd nd' \<longleftrightarrow> (node_ok E L nd \<longrightarrow> node_ok E L nd') \<and>
     nd_transport_up nd' = nd_transport_up nd \<and> nd_info nd' = nd_info nd \<and> nd_addr nd' = nd_addr nd"

interpretation ndf: frame "node_keeps E L" for E and L :: "'m lhm"
  by unfold_locales (auto simp: node_keeps_def)

lemma framed_on_handler: "framed hd_keeps m \<Longrightarrow> framed (node_keeps E L) (on_handler m)"
  by (auto simp: framed_def hd_keeps_def node_keeps_def node_ok_def on_handler_def act_zoom_apply view_defs)

lemma framed_on_transport:
  fixes L :: "'m lhm"
  assumes "framed tr_keeps m"
  shows "framed (node_keeps E L) (on_transport m)"
proof (rule framedI)
  fix nd :: "'m node"
  note assms
  moreover obtain r tr sk where m: "m (nd_transport nd, nd_sock nd) = (r, tr, sk)" by (metis surj_pair)
  ultimately have "tr_keeps (nd_transport nd, nd_sock nd) (tr, sk)" by (rule framedD)
  with m show "node_keeps E L nd (snd (on_transport m nd))"
    by (simp add: tr_keeps_def node_keeps_def node_ok_def on_transport_def act_zoom_apply)
qed

lemma framed_on_kad: "framed (kad_turn_keeps L) m \<Longrightarrow> framed (node_keeps E L) (on_kad m)"
proof (rule framedI)
  fix nd
  assume "framed (kad_turn_keeps L) m"
  moreover obtain r kd t where m: "m (kad_view nd) = (r, kd, t)" by (metis surj_pair)
  ultimately have "kad_turn_keeps L (kad_view nd) (kd, t)" by (rule framedD)
  with m show "node_keeps E L nd (snd (on_kad m nd))"
    by (simp add: kad_turn_keeps_def node_keeps_def node_ok_def on_kad_def act_zoom_apply view_defs)
qed

lemma framed_on_gossip: "framed (gs_keeps E) m \<Longrightarrow> framed (node_keeps E L) (on_gossip m)"
proof (rule framedI)
  fix nd
  assume "framed (gs_keeps E) m"
  moreover obtain r gs t where m: "m (gossip_view nd) = (r, gs, t)" by (metis surj_pair)
  ultimately have "gs_keeps E (gossip_view nd) (gs, t)" by (rule framedD)
  with m show "node_keeps E L nd (snd (on_gossip m nd))"
    by (simp add: gs_keeps_def node_keeps_def node_ok_def on_gossip_def act_zoom_apply view_defs)
qed

lemma framed_transport_call: "framed tr_keeps (transport_call_act E t c)"
proof (cases c)
  case IncomingAck
  then show ?thesis by (auto simp: framed_def incoming_ack_keeps case_prod_unfold)
qed (simp_all add: framed_outgoing framed_check_time)

lemma gossip_recv_open: "gossip_recv E L tx s = (Inr tx', s') \<Longrightarrow> ch_open tx' = ch_open tx"
  by (auto simp: gossip_recv_def act_bind_apply act_then_apply act_apply
      split: prod.splits option.splits sum.splits)

context linked_hash_map begin

lemma framed_bootstrap: "framed (kad_turn_keeps L) (bootstrap E L a)"
  using tame_operations by (simp add: tame_def framed_kad_turn)

lemma framed_add_peer: "framed (kad_turn_keeps L) (add_peer E L b)"
  using tame_operations by (simp add: tame_def framed_kad_turn)

lemma framed_dial: "framed (node_keeps E L) (node_dial E L)"
  unfolding node_dial_def
  by (auto intro!: ndf.framed_rules framed_on_kad framed_bootstrap framed_add_peer split: option.split prod.split)

lemma framed_main_call: "framed (node_keeps E L) (main_call_act d E L c)"
proof (cases c)
  case GossipRecv
  have "node_keeps E L nd (snd (main_call_act d E L GossipRecv nd))" for nd
  proof -
    obtain r nd' where g: "on_gossip (gossip_recv E L (nd_chat nd)) nd = (r, nd')" by fastforce
    have k: "node_keeps E L nd nd'"
      by (rule framedD [OF framed_on_gossip [OF framed_gossip_recv] g])
    have "node_ok E L nd \<Longrightarrow> ch_open tx" if "r = Inr tx" for tx
      using g that gossip_recv_open [of E L "nd_chat nd" "gossip_view nd" tx]
      by (cases "gossip_recv E L (nd_chat nd) (gossip_view nd)")
        (auto simp: on_gossip_def act_zoom_apply node_ok_def)
    with k g show ?thesis
      by (cases r) (auto simp: act_bind_apply act_apply node_keeps_def, auto simp: node_ok_def)
  qed
  with GossipRecv show ?thesis by (simp add: framed_def del: main_call_act.simps)
qed (auto intro: framed_dial framed_on_kad framed_kad_recv framed_on_gossip framed_gossip)

end

lemma framed_input: "framed (node_keeps E L) (node_input E input)"
  unfolding node_input_def Let_def
  by (auto intro!: ndf.framed_rules ndf.framed_modify simp: node_keeps_def node_ok_def split: option.split prod.split)

section \<open>Runs\<close>

lemma node_ok_drop: "node_ok E L nd \<Longrightarrow> node_ok E L (drop_transport nd)"
  by (simp add: node_ok_def drop_transport_def chan_drop_def)

context linked_hash_map begin

lemma node_turn_ok:
  assumes "node_ok E L nd"
  shows "node_ok E L (node_turn d E L e nd) \<and> nd_info (node_turn d E L e nd) = nd_info nd \<and>
    nd_addr (node_turn d E L e nd) = nd_addr nd"
proof (cases e)
  case TransportTurn
  obtain r nd' where c: "on_transport (transport_call_act E (nd_tick nd) (nd_transport_pc nd)) nd = (r, nd')"
    by fastforce
  have "node_keeps E L nd nd'"
    by (rule framedD [OF framed_on_transport [OF framed_transport_call] c])
  with assms TransportTurn c show ?thesis
    by (cases r) (auto simp: transport_turn_def node_keeps_def intro: node_ok_drop,
      auto simp: node_ok_def drop_transport_def)
next
  case (Datagram res)
  obtain r nd' where c: "on_handler (recv_msg E res (get_pub_ip (nd_gossip nd))) nd = (r, nd')" by fastforce
  have "node_keeps E L nd nd'"
    by (rule framedD [OF framed_on_handler [OF framed_recv_msg] c])
  with assms Datagram c show ?thesis
    by (cases r) (auto simp: handler_turn_def node_keeps_def, auto simp: node_ok_def)
next
  case MainTurn
  obtain r nd' where c: "main_call_act d E L (nd_main_pc nd) nd = (r, nd')" by fastforce
  have "node_keeps E L nd nd'" by (rule framedD [OF framed_main_call c])
  with assms MainTurn c show ?thesis
    by (cases r) (auto simp: main_turn_def node_keeps_def, auto simp: node_ok_def)
next
  case (Line input)
  obtain r nd' where c: "node_input E input nd = (r, nd')" by fastforce
  have "node_keeps E L nd nd'" by (rule framedD [OF framed_input c])
  with assms Line c show ?thesis
    by (cases r) (auto simp: input_turn_def node_keeps_def, auto simp: node_ok_def)
next
  case ShowTurn
  with assms show ?thesis
    by (auto simp: show_turn_def chan_try_recv_def node_ok_def split: list.split)
qed

lemma reachable_ok:
  "reachable d E L nd nd' \<Longrightarrow> node_ok E L nd \<Longrightarrow>
   node_ok E L nd' \<and> nd_info nd' = nd_info nd \<and> nd_addr nd' = nd_addr nd"
proof (induction rule: reachable.induct)
  case (step nd' nd'')
  then show ?case using node_turn_ok by (auto elim!: node_stepE)
qed simp

lemma table_new_healthy:
  assumes "routing_table_new L now now' li = Inr rt"
  shows "healthy L (Suc 899) rt"
proof -
  have rt: "rt = \<lparr>tree = [(''0'', upsert L now' li (kbucket_new L now))], local_info = li\<rparr>"
    using assms by (simp add: routing_table_new_eq)
  have "pi_id li \<in> known_ids L rt"
    unfolding known_ids_def rt by (auto simp: hm_get_def upsert_def kbucket_new_def Let_def)
  then show ?thesis using table_new [OF assms] by (simp add: healthy_def)
qed

lemma node_new_ok:
  assumes "node_new E L digest_bytes factor t pub_ip sk dial = Inr nd"
  shows "node_ok E L nd"
  using node_new_fields [OF assms] table_new
  by (auto simp: node_ok_def transport_new_def gd_udp_new_def handler_new_def gossip_service_new_def
      kademlia_new_def pending_ok_def cache_ok_def)

end

lemma reachable_front: "node_step d E L nd nd1 \<Longrightarrow> reachable d E L nd1 nd2 \<Longrightarrow> reachable d E L nd nd2"
proof -
  assume s: "node_step d E L nd nd1"
  show "reachable d E L nd1 nd2 \<Longrightarrow> reachable d E L nd nd2"
    by (induction rule: reachable.induct) (auto intro: reachable.intros s)
qed

lemma reachable_trans: "reachable d E L nd' nd'' \<Longrightarrow> reachable d E L nd nd' \<Longrightarrow> reachable d E L nd nd''"
  by (induction rule: reachable.induct) (blast intro: reachable.step)+

lemma reachable_turn: "enabled e nd \<Longrightarrow> reachable d E L (node_turn d E L e nd) nd' \<Longrightarrow> reachable d E L nd nd'"
  by (rule reachable_front [OF node_step.turn])

text \<open>The run of a given sequence of events.\<close>

fun runs :: "nat \<Rightarrow> env \<Rightarrow> 'm lhm \<Rightarrow> node_event list \<Rightarrow> 'm node \<Rightarrow> 'm node \<Rightarrow> bool" where
  "runs d E L [] nd nd' = (nd' = nd)"
| "runs d E L (e # es) nd nd' = (enabled e nd \<and> runs d E L es (node_turn d E L e nd) nd')"

lemma runs_reachable: "runs d E L es nd nd' \<Longrightarrow> reachable d E L nd nd'"
proof (induction es arbitrary: nd)
  case (Cons e es)
  then show ?case using reachable_turn [of e nd d E L nd'] by simp
qed (simp add: reachable.start)

lemma runs_append: "runs d E L (es @ fs) nd nd'' \<longleftrightarrow> (\<exists>nd'. runs d E L es nd nd' \<and> runs d E L fs nd' nd'')"
  by (induction es arbitrary: nd) auto

section \<open>A node without its transport thread\<close>

text \<open>Only the transport thread uses the socket to send, and no other thread starts or ends it.\<close>

definition quiet :: "'m node \<Rightarrow> 'm node \<Rightarrow> bool" where
  "quiet nd nd' \<longleftrightarrow> nd_sock nd' = nd_sock nd \<and> nd_transport_up nd' = nd_transport_up nd"

interpretation qf: frame quiet
  by unfold_locales (auto simp: quiet_def)

lemma quiet_zooms:
  "framed quiet (on_handler m)" "framed quiet (on_kad m')" "framed quiet (on_gossip m'')"
  by (auto simp: framed_def quiet_def on_handler_def on_kad_def on_gossip_def act_zoom_apply view_defs
      split: prod.split)

lemma quiet_main: "framed quiet (main_call_act d E L c)"
  by (cases c) (auto simp: node_dial_def quiet_def intro!: qf.framed_rules qf.framed_modify quiet_zooms
      split: option.split prod.split)

lemma quiet_input: "framed quiet (node_input E input)"
  unfolding node_input_def Let_def
  by (auto intro!: qf.framed_rules qf.framed_modify simp: quiet_def split: option.split prod.split)

lemma quiet_turn:
  assumes "\<not> nd_transport_up nd" and "enabled e nd"
  shows "quiet nd (node_turn d E L e nd)"
proof (cases e)
  case (Datagram res)
  obtain r nd' where c: "on_handler (recv_msg E res (get_pub_ip (nd_gossip nd))) nd = (r, nd')" by fastforce
  from framedD [OF quiet_zooms(1) c] Datagram c show ?thesis
    by (cases r) (simp_all add: handler_turn_def quiet_def)
next
  case MainTurn
  obtain r nd' where c: "main_call_act d E L (nd_main_pc nd) nd = (r, nd')" by fastforce
  from framedD [OF quiet_main c] MainTurn c show ?thesis
    by (cases r) (simp_all add: main_turn_def quiet_def)
next
  case (Line input)
  obtain r nd' where c: "node_input E input nd = (r, nd')" by fastforce
  from framedD [OF quiet_input c] Line c show ?thesis
    by (cases r) (simp_all add: input_turn_def quiet_def)
qed (use assms in \<open>auto simp: show_turn_def quiet_def split: prod.split option.split\<close>)

lemma quiet_reachable: "reachable d E L nd nd' \<Longrightarrow> \<not> nd_transport_up nd \<Longrightarrow> quiet nd nd'"
proof (induction rule: reachable.induct)
  case (step nd' nd'')
  then have "quiet nd nd'" and "\<not> nd_transport_up nd'" by (auto simp: quiet_def)
  from step.hyps(2) this(2) have "quiet nd' nd''" by (auto elim!: node_stepE intro: quiet_turn)
  with \<open>quiet nd nd'\<close> show ?case by (rule qf.frame_trans)
qed (simp add: qf.frame_refl)

section \<open>Datagrams at a node\<close>

lemma view_laws [simp]:
  "handler_view (put_handler h nd) = h"
  "put_handler h' (put_handler h nd) = put_handler h' nd"
  "nd_gossip (put_handler h nd) = (nd_gossip nd)\<lparr>gs_to_gossip_rx := gossip_tx h,
     gs_kad := (gs_kad (nd_gossip nd))\<lparr>kd_from_transport := kad_tx h\<rparr>\<rparr>"
  "nd_main_up (put_handler h nd) = nd_main_up nd" "nd_handler_up (put_handler h nd) = nd_handler_up nd"
  "nd_main_pc (put_handler h nd) = nd_main_pc nd" "nd_tick (put_handler h nd) = nd_tick nd"
  "nd_chat (put_handler h nd) = nd_chat nd" "nd_transport_up (put_handler h nd) = nd_transport_up nd"
  "nd_transport_pc (put_handler h nd) = nd_transport_pc nd" "nd_sock (put_handler h nd) = nd_sock nd"
  "nd_transport (put_handler h nd) = (nd_transport nd)\<lparr>om_rx := om_tx h, ia_rx := ia_tx h\<rparr>"
  "nd_addr (put_handler h nd) = nd_addr nd" "nd_info (put_handler h nd) = nd_info nd"
  "nd_screen (put_handler h nd) = nd_screen nd" "nd_input_up (put_handler h nd) = nd_input_up nd"
  by (simp_all add: view_defs)

lemma handler_turn_ok:
  "recv_msg E res (gs_public_ip (nd_gossip nd)) (handler_view nd) = (Inr (), h) \<Longrightarrow>
   handler_turn E res nd = put_handler h nd"
  by (simp add: handler_turn_def on_handler_def act_zoom_apply get_pub_ip_def)

text \<open>A run of the handler thread over datagrams none of which makes it panic.\<close>

lemma handler_run:
  assumes "act_each (d # ds) (\<lambda>d. recv_msg E (f d) (gs_public_ip (nd_gossip nd))) (handler_view nd) = (Inr (), h)"
    and "nd_main_up nd" and "nd_handler_up nd"
  shows "runs k E L (map (\<lambda>d. Datagram (f d)) (d # ds)) nd (put_handler h nd)"
  using assms
proof (induction ds arbitrary: d nd)
  case Nil
  then have "recv_msg E (f d) (gs_public_ip (nd_gossip nd)) (handler_view nd) = (Inr (), h)"
    by (auto simp: act_then_apply act_apply split: prod.splits sum.splits)
  from handler_turn_ok [OF this] Nil show ?case by simp
next
  case (Cons d' ds)
  obtain h1 where h1: "recv_msg E (f d) (gs_public_ip (nd_gossip nd)) (handler_view nd) = (Inr (), h1)"
    and r: "act_each (d' # ds) (\<lambda>d. recv_msg E (f d) (gs_public_ip (nd_gossip nd))) h1 = (Inr (), h)"
    using Cons.prems(1) by (auto simp: act_then_apply split: prod.splits sum.splits)
  have "runs k E L (map (\<lambda>d. Datagram (f d)) (d' # ds)) (put_handler h1 nd) (put_handler h (put_handler h1 nd))"
    by (rule Cons.IH) (use r Cons.prems in simp_all)
  with handler_turn_ok [OF h1] Cons.prems show ?case by simp
qed

text \<open>The datagrams of one message, in any order.\<close>

lemma message_runs:
  fixes E :: env
  assumes "wire E" and "as_bytes (e_message E) m = Some b"
    and "mset ds = mset (map (\<lambda>p. the (as_bytes (e_packet E) p)) (packets_of E b i r))"
    and "hm_get (pending (nd_handler nd)) i = None" and "nd_main_up nd" and "nd_handler_up nd"
  shows "\<exists>pend ps. mset ps = mset (packets_of E b i r) \<and>
    runs k E L (map (\<lambda>d. Datagram (arrival src [] d)) ds) nd
      (put_handler ((handle_message E m src (handler_view nd))\<lparr>pending := pend,
        om_tx := fold chan_send (receipts E (gs_public_ip (nd_gossip nd)) src ps) (om_rx (nd_transport nd))\<rparr>) nd)"
proof -
  obtain ps where ps: "mset ps = mset (packets_of E b i r)" "ds = map (\<lambda>p. the (as_bytes (e_packet E) p)) ps"
    using wire.datagrams_of_packets [OF assms(1,3)] by blast
  have "pending (handler_view nd) = pending (nd_handler nd)" by (simp add: view_defs)
  with assms(4) obtain pend where run: "act_each ps (\<lambda>p. insert_packet E p src) (handler_view nd) =
      (Inr (), (handle_message E m src (handler_view nd))\<lparr>pending := pend\<rparr>)"
    using wire.insert_packets_once [OF assms(1,2) ps(1), of "handler_view nd" src] by auto
  let ?local = "gs_public_ip (nd_gossip nd)"
  let ?h = "(handle_message E m src (handler_view nd))\<lparr>pending := pend,
      om_tx := fold chan_send (receipts E ?local src ps) (om_rx (nd_transport nd))\<rparr>"
  have "act_each ds (\<lambda>d. recv_msg E (arrival src [] d) ?local) (handler_view nd) = (Inr (), ?h)"
    using wire.recv_packets [OF assms(1) run, of "\<lambda>_. []" ?local]
    by (simp add: ps(2) act_each_map with_om_def) (simp add: view_defs)
  moreover have "packets_of E b i r \<noteq> []"
    using packet_count_pos [of "length b"] by (auto simp flip: length_0_conv)
  with assms(3) have "ds \<noteq> []" by auto
  then obtain d ds' where "ds = d # ds'" by (cases ds) auto
  ultimately have "runs k E L (map (\<lambda>d. Datagram (arrival src [] d)) ds) nd (put_handler ?h nd)"
    using handler_run [of d ds' E "arrival src []" nd ?h k L] assms(5,6) by simp
  with ps(1) show ?thesis by blast
qed

section \<open>Rumours at a node\<close>

lemma put_gossip_sel [simp]:
  "nd_gossip (put_gossip s nd) = fst s" "nd_tick (put_gossip s nd) = snd s"
  "nd_transport (put_gossip s nd) = (nd_transport nd)\<lparr>om_rx := gs_to_transport_tx (fst s)\<rparr>"
  "nd_main_up (put_gossip s nd) = nd_main_up nd" "nd_handler_up (put_gossip s nd) = nd_handler_up nd"
  "nd_main_pc (put_gossip s nd) = nd_main_pc nd" "nd_chat (put_gossip s nd) = nd_chat nd"
  "nd_transport_up (put_gossip s nd) = nd_transport_up nd" "nd_addr (put_gossip s nd) = nd_addr nd"
  "nd_screen (put_gossip s nd) = nd_screen nd" "nd_sock (put_gossip s nd) = nd_sock nd"
  "nd_info (put_gossip s nd) = nd_info nd"
  by (simp_all add: put_gossip_def case_prod_unfold)

text \<open>The rumour at the head of the channel, taken from it, with the channel to the transport layer.\<close>

definition taking :: "(socket_addr \<times> message) list \<Rightarrow> 'm node \<Rightarrow> 'm gossip_service" where
  "taking rest nd = (nd_gossip nd)\<lparr>gs_to_transport_tx := om_rx (nd_transport nd),
     gs_to_gossip_rx := (gs_to_gossip_rx (nd_gossip nd))\<lparr>ch_queue := rest\<rparr>\<rparr>"

lemma taking_sel [simp]:
  "gs_cache (taking rest nd) = gs_cache (nd_gossip nd)" "gs_address (taking rest nd) = gs_address (nd_gossip nd)"
  "gs_kad (taking rest nd) = gs_kad (nd_gossip nd)" "gs_config (taking rest nd) = gs_config (nd_gossip nd)"
  "gs_to_app_tx (taking rest nd) = gs_to_app_tx (nd_gossip nd)"
  "gs_heartbeat (taking rest nd) = gs_heartbeat (nd_gossip nd)"
  "gs_to_transport_tx (taking rest nd) = om_rx (nd_transport nd)"
  by (simp_all add: taking_def)

lemma reception_turn:
  assumes "nd_main_pc nd = GossipRecv" and "ch_queue (gs_to_gossip_rx (nd_gossip nd)) = (src, m) # rest"
    and "gossip_handle_message E L src m (taking rest nd, nd_tick nd) = (Inr r, s)"
  shows "main_turn d E L nd = (put_gossip s nd)\<lparr>nd_main_pc := GossipBeat,
    nd_chat := (case r of Some g \<Rightarrow> chan_send g (nd_chat nd) | None \<Rightarrow> nd_chat nd)\<rparr>"
proof -
  have "gossip_recv E L (nd_chat nd) (gossip_view nd) =
      (Inr (case r of Some g \<Rightarrow> chan_send g (nd_chat nd) | None \<Rightarrow> nd_chat nd), s)"
    using assms(2,3)
    by (cases r) (simp_all add: gossip_recv_def gossip_view_def act_bind_apply act_then_apply act_apply
        chan_try_recv_def taking_def)
  then show ?thesis
    using assms(1) by (simp add: main_turn_def on_gossip_def act_zoom_apply act_bind_apply act_apply)
qed

lemma not_contains: "\<not> hm_contains m k \<longleftrightarrow> hm_get m k = None"
  by (simp add: hm_contains_def)

context linked_hash_map begin

lemma rumour_turn:
  assumes "nd_main_pc nd = GossipRecv" and "ch_queue (gs_to_gossip_rx (nd_gossip nd)) = (src, m) # rest"
    and "healthy L (Suc n) (kd_table (gs_kad (nd_gossip nd)))" and "gen_range_ok E"
    and "from_bytes (e_gossip E) (msg m) = Some g"
    and "\<not> hm_contains (gs_cache (nd_gossip nd)) (from_inner (gm_id g))"
    and "src \<noteq> gs_address (nd_gossip nd)"
  shows "\<exists>gs t'. main_turn d E L nd = (put_gossip (gs, t') nd)\<lparr>nd_main_pc := GossipBeat,
      nd_chat := chan_send g (nd_chat nd)\<rparr> \<and>
    gs_to_app_tx gs = chan_send g (gs_to_app_tx (nd_gossip nd)) \<and>
    hm_contains (gs_cache gs) (from_inner (gm_id g))"
proof -
  let ?gs = "(taking rest nd)\<lparr>gs_to_app_tx := chan_send g (gs_to_app_tx (nd_gossip nd))\<rparr>"
  have h: "healthy L (Suc n) (kd_table (gs_kad ?gs))" using assms(3) by simp
  then have "total_peers L (kd_table (gs_kad ?gs)) < 960" by (simp add: healthy_def)
  from publish_ok [OF h assms(4) this, of src m "nd_tick nd"] obtain as t' where
    "publish E L src m (?gs, nd_tick nd) = (Inr (), (forwarded m as ?gs, t'))" by blast
  with assms(5-7) have "gossip_handle_message E L src m (taking rest nd, nd_tick nd) =
      (Inr (Some g), (remembered (from_inner (gm_id g)) m (e_now E t') (forwarded m as ?gs), t' + 1))"
    by (simp add: gossip_handle_eq)
  from reception_turn [OF assms(1,2) this, of d] show ?thesis
    by (intro exI [of _ "remembered (from_inner (gm_id g)) m (e_now E t') (forwarded m as ?gs)"] exI [of _ "t' + 1"])
      (simp add: remembered_contains, simp add: remembered_def)
qed

text \<open>A heartbeat that is due forwards a message that was cached a moment ago.\<close>

lemma heartbeat_turn:
  assumes "nd_main_pc nd = GossipBeat" and "healthy L (Suc n) (kd_table (gs_kad (nd_gossip nd)))"
    and "gen_range_ok E" and "config_ok (gs_config (nd_gossip nd))" and "hm_wf (gs_cache (nd_gossip nd))"
    and "gc_interval (gs_config (nd_gossip nd)) < e_now E (nd_tick nd + 1) - gs_heartbeat (nd_gossip nd)"
    and "hm_get (gs_cache (nd_gossip nd)) k = Some (m, e)" and "from_bytes (e_gossip E) (msg m) = Some g"
    and "e_now E (nd_tick nd) - e <
      gc_interval (gs_config (nd_gossip nd)) * gc_history_gossip (gs_config (nd_gossip nd))"
    and "ch_open (om_rx (nd_transport nd))"
  shows "\<exists>as gs t'. fair_choice E L (gm_sender g) (nd_gossip nd) as \<and>
    main_turn d E L nd = (put_gossip (gs, t') nd)\<lparr>nd_main_pc := KadRecv\<rparr> \<and>
    (\<forall>a \<in> set as. (a, m) \<in> set (ch_queue (gs_to_transport_tx gs))) \<and>
    (total_peers L (kd_table (gs_kad (nd_gossip nd))) \<le> 7 \<longrightarrow> t' = nd_tick nd + 2 \<and>
      length (ch_queue (gs_to_transport_tx gs)) \<le> length (ch_queue (om_rx (nd_transport nd))) + 7 * length (gs_cache (nd_gossip nd)))"
proof -
  let ?gs = "(nd_gossip nd)\<lparr>gs_to_transport_tx := om_rx (nd_transport nd)\<rparr>"
  let ?es = "hm_iter (\<lambda>k. e_ord_key E (inner k)) (gs_cache ?gs)"
  have h: "healthy L (Suc n) (kd_table (gs_kad ?gs))" "config_ok (gs_config ?gs)"
    "gc_interval (gs_config ?gs) < e_now E (nd_tick nd + 1) - gs_heartbeat ?gs"
    using assms(2,4,6) by simp_all
  from gossip_ok [OF h(1) assms(3) h(2,3)] obtain outs c t' where
    g: "gossip E L (?gs, nd_tick nd) = (Inr (), (with_cache c
        (queued (concat outs) (?gs\<lparr>gs_heartbeat := e_now E (nd_tick nd + 1)\<rparr>)), t'))"
    and outs: "list_all2 (entry_sends E L ?gs (e_now E (nd_tick nd))) ?es outs" by blast
  have "(k, m, e) \<in> set ?es" using hm_entries [OF assms(5)] assms(7) by simp
  then obtain j where j: "j < length ?es" "?es ! j = (k, m, e)"
    using in_set_conv_nth [of "(k, m, e)" ?es] by blast
  then have "entry_sends E L ?gs (e_now E (nd_tick nd)) (k, m, e) (outs ! j)"
    using list_all2_nthD [OF outs j(1)] by simp
  moreover have "outs ! j \<in> set outs" using j(1) list_all2_lengthD [OF outs] by simp
  moreover have "fair_choice E L x ?gs as = fair_choice E L x (nd_gossip nd) as" for x as
    by (rule fair_choice_cong) simp_all
  ultimately obtain as where as: "fair_choice E L (gm_sender g) (nd_gossip nd) as"
    "map (\<lambda>a. (a, m)) as \<in> set outs"
    using assms(8,9) by (auto simp: entry_sends_def)
  have "main_turn d E L nd = (put_gossip (with_cache c
        (queued (concat outs) (?gs\<lparr>gs_heartbeat := e_now E (nd_tick nd + 1)\<rparr>)), t') nd)\<lparr>nd_main_pc := KadRecv\<rparr>"
    using g assms(1) by (simp add: main_turn_def on_gossip_def act_zoom_apply gossip_view_def)
  moreover have "(a, m) \<in> set (concat outs)" if "a \<in> set as" for a
    using as(2) that by force
  moreover have "t' = nd_tick nd + 2" "length (concat outs) \<le> 7 * length (gs_cache (nd_gossip nd))"
    if "total_peers L (kd_table (gs_kad (nd_gossip nd))) \<le> 7"
    using gossip_ticks [OF g] all_sends_at_most [OF outs] that by (simp_all add: hm_iter_def)
  ultimately show ?thesis using as(1) assms(10)
    by (intro exI [of _ as] exI conjI) (assumption+, simp_all add: with_cache_def queued_def fold_chan_send_queue)
qed

end

text \<open>A line typed at a node that waits for rumours, up to the heartbeat.\<close>

lemma line_cached:
  fixes E :: env and line :: string and nd :: "'m node"
  defines "g \<equiv> \<lparr>gm_id = rand_arr (e_rand E) (nd_tick nd), gm_data = str_bytes (trim line), gm_sender = nd_addr nd\<rparr>"
  assumes "wire E" and "node_ok E L nd" and "nd_main_up nd" and "nd_input_up nd" and "nd_main_pc nd = GossipRecv"
    and "ch_queue (gs_to_gossip_rx (nd_gossip nd)) = []"
    and "\<not> hm_contains (gs_cache (nd_gossip nd)) (from_inner (gm_id g))"
  shows "\<exists>gs gb. as_bytes (e_gossip E) g = Some gb \<and> from_bytes (e_gossip E) gb = Some g \<and>
    runs d E L [Line (Some line), MainTurn] nd ((put_gossip (gs, nd_tick nd + 33) nd)\<lparr>nd_main_pc := GossipBeat\<rparr>) \<and>
    gs_kad gs = gs_kad (nd_gossip nd) \<and> gs_config gs = gs_config (nd_gossip nd) \<and>
    gs_heartbeat gs = gs_heartbeat (nd_gossip nd) \<and> gs_address gs = gs_address (nd_gossip nd) \<and>
    hm_get (gs_cache gs) (from_inner (gm_id g)) = Some (\<lparr>head = Gossip, msg = gb\<rparr>, e_now E (nd_tick nd + 32)) \<and>
    hm_wf (gs_cache gs) \<and> gs_to_transport_tx gs = om_rx (nd_transport nd) \<and>
    length (gs_cache gs) \<le> Suc (length (gs_cache (nd_gossip nd)))"
proof -
  let ?k = "from_inner (gm_id g)"
  obtain gb where gb: "as_bytes (e_gossip E) g = Some gb" "from_bytes (e_gossip E) gb = Some g"
    using codec.round_trip [OF serde_codec, of "e_gossip E" g] assms(2) by (auto simp: wire_def)
  let ?m = "\<lparr>head = Gossip, msg = gb\<rparr>"
  let ?nd1 = "nd\<lparr>nd_tick := nd_tick nd + 32, nd_gossip := (nd_gossip nd)\<lparr>gs_to_gossip_rx :=
      (gs_to_gossip_rx (nd_gossip nd))\<lparr>ch_queue := [(nd_addr nd, ?m)]\<rparr>\<rparr>\<rparr>"
  have addr: "gs_address (nd_gossip nd) = nd_addr nd" and op: "ch_open (gs_to_gossip_rx (nd_gossip nd))"
    and wf: "hm_wf (gs_cache (nd_gossip nd))"
    using assms(3) by (simp_all add: node_ok_def cache_ok_def)
  have nd1: "input_turn E (Some line) nd = ?nd1"
    using gb(1) op assms(7)
    by (simp add: input_turn_def node_input_def act_bind_apply act_then_apply act_apply g_def Let_def
        message_key_rand_def chan_send_def)
  let ?gs = "remembered ?k ?m (e_now E (nd_tick nd + 32)) (taking [] ?nd1)"
  have "gossip_handle_message E L (nd_addr nd) ?m (taking [] ?nd1, nd_tick ?nd1) = (Inr None, (?gs, nd_tick nd + 33))"
    using gb(2) addr assms(8) by (simp add: gossip_handle_eq)
  from reception_turn [OF _ _ this, of d] assms(6)
  have "main_turn d E L ?nd1 = (put_gossip (?gs, nd_tick nd + 33) nd)\<lparr>nd_main_pc := GossipBeat\<rparr>"
    (is "_ = ?nd2") by (simp add: put_gossip_def)
  with nd1 have "runs d E L [Line (Some line), MainTurn] nd ?nd2" using assms(4-6) by simp
  with gb assms(8) wf show ?thesis
    by (intro exI [of _ ?gs] exI [of _ gb]) (simp add: remembered_def not_contains hm_get_or_insert hm_length_or_insert)
qed

lemma line_queued:
  fixes E :: env and line :: string and nd :: "'m node"
  defines "g \<equiv> \<lparr>gm_id = rand_arr (e_rand E) (nd_tick nd), gm_data = str_bytes (trim line), gm_sender = nd_addr nd\<rparr>"
  assumes "wire E" and "linked_hash_map L" and "node_ok E L nd" and "gen_range_ok E"
    and "healthy L (Suc n) (kd_table (gs_kad (nd_gossip nd)))"
    and "config_ok (gs_config (nd_gossip nd))"
    and "nd_main_up nd" and "nd_input_up nd" and "nd_transport_up nd" and "nd_main_pc nd = GossipRecv"
    and "ch_queue (gs_to_gossip_rx (nd_gossip nd)) = []"
    and "\<not> hm_contains (gs_cache (nd_gossip nd)) (from_inner (gm_id g))"
    and "e_now E (nd_tick nd + 33) - e_now E (nd_tick nd + 32) <
      gc_interval (gs_config (nd_gossip nd)) * gc_history_gossip (gs_config (nd_gossip nd))"
    and "gc_interval (gs_config (nd_gossip nd)) < e_now E (nd_tick nd + 34) - gs_heartbeat (nd_gossip nd)"
  shows "\<exists>gs t' as gb. runs d E L [Line (Some line), MainTurn, MainTurn] nd ((put_gossip (gs, t') nd)\<lparr>nd_main_pc := KadRecv\<rparr>) \<and>
    as_bytes (e_gossip E) g = Some gb \<and> fair_choice E L (nd_addr nd) (nd_gossip nd) as \<and>
    (\<forall>a \<in> set as. (a, \<lparr>head = Gossip, msg = gb\<rparr>) \<in> set (ch_queue (gs_to_transport_tx gs))) \<and>
    (total_peers L (kd_table (gs_kad (nd_gossip nd))) \<le> 7 \<longrightarrow> t' = nd_tick nd + 35 \<and>
      length (ch_queue (gs_to_transport_tx gs)) \<le>
        length (ch_queue (om_rx (nd_transport nd))) + 7 * Suc (length (gs_cache (nd_gossip nd))))"
proof -
  obtain gs gb where gb: "as_bytes (e_gossip E) g = Some gb" "from_bytes (e_gossip E) gb = Some g"
    and run: "runs d E L [Line (Some line), MainTurn] nd ((put_gossip (gs, nd_tick nd + 33) nd)\<lparr>nd_main_pc := GossipBeat\<rparr>)"
      (is "runs d E L _ nd ?nd2")
    and gs: "gs_kad gs = gs_kad (nd_gossip nd)" "gs_config gs = gs_config (nd_gossip nd)"
      "gs_heartbeat gs = gs_heartbeat (nd_gossip nd)" "gs_address gs = gs_address (nd_gossip nd)"
      "hm_get (gs_cache gs) (from_inner (gm_id g)) = Some (\<lparr>head = Gossip, msg = gb\<rparr>, e_now E (nd_tick nd + 32))"
      "hm_wf (gs_cache gs)" "gs_to_transport_tx gs = om_rx (nd_transport nd)"
      "length (gs_cache gs) \<le> Suc (length (gs_cache (nd_gossip nd)))"
    using line_cached [OF assms(2,4,8,9,11,12), of line d] assms(13) unfolding g_def by blast
  have up: "ch_open (om_rx (nd_transport nd))" using assms(4,10) by (simp add: node_ok_def)
  let ?nd3 = "main_turn d E L ?nd2" and ?m = "\<lparr>head = Gossip, msg = gb\<rparr>"
  have "\<exists>as gs' t'. fair_choice E L (gm_sender g) (nd_gossip ?nd2) as \<and>
    ?nd3 = (put_gossip (gs', t') ?nd2)\<lparr>nd_main_pc := KadRecv\<rparr> \<and>
    (\<forall>a \<in> set as. (a, ?m) \<in> set (ch_queue (gs_to_transport_tx gs'))) \<and>
    (total_peers L (kd_table (gs_kad (nd_gossip ?nd2))) \<le> 7 \<longrightarrow> t' = nd_tick ?nd2 + 2 \<and>
      length (ch_queue (gs_to_transport_tx gs')) \<le> length (ch_queue (om_rx (nd_transport ?nd2))) + 7 * length (gs_cache (nd_gossip ?nd2)))"
    by (rule linked_hash_map.heartbeat_turn [OF assms(3), where k = "from_inner (gm_id g)"
          and e = "e_now E (nd_tick nd + 32)" and n = n])
      (use assms(5-7,14,15) gs gb(2) up in \<open>simp_all add: add.commute [of "nd_tick nd"]\<close>)
  then obtain as gs' t' where turn: "?nd3 = (put_gossip (gs', t') ?nd2)\<lparr>nd_main_pc := KadRecv\<rparr>"
    and sent: "fair_choice E L (nd_addr nd) (nd_gossip ?nd2) as"
      "\<forall>a \<in> set as. (a, ?m) \<in> set (ch_queue (gs_to_transport_tx gs'))"
    and small: "total_peers L (kd_table (gs_kad (nd_gossip nd))) \<le> 7 \<longrightarrow> t' = nd_tick nd + 35 \<and>
      length (ch_queue (gs_to_transport_tx gs')) \<le> length (ch_queue (om_rx (nd_transport nd))) + 7 * length (gs_cache gs)"
    by (auto simp: g_def gs)
  have "fair_choice E L (nd_addr nd) (nd_gossip nd) as"
    using sent(1) fair_choice_cong [of "nd_gossip ?nd2" "nd_gossip nd" E L "nd_addr nd" as] gs by simp
  moreover have "?nd3 = (put_gossip (gs', t') nd)\<lparr>nd_main_pc := KadRecv\<rparr>"
    using turn by (simp add: put_gossip_def)
  moreover have "runs d E L ([Line (Some line), MainTurn] @ [MainTurn]) nd ?nd3"
    unfolding runs_append by (intro exI [of _ ?nd2] conjI, rule run) (simp add: assms(8))
  ultimately show ?thesis using sent(2) gb(1) small gs(8)
    by (intro exI [of _ gs'] exI [of _ t'] exI [of _ as] exI [of _ gb]) (auto simp del: runs.simps)
qed

text \<open>The datagrams of a rumour, and the turn that takes it up.\<close>

lemma rumour_runs:
  fixes E :: env
  assumes "wire E" and "linked_hash_map L" and "node_ok E L nd" and "gen_range_ok E"
    and "healthy L (Suc n) (kd_table (gs_kad (nd_gossip nd)))"
    and "nd_main_up nd" and "nd_handler_up nd" and "nd_main_pc nd = GossipRecv"
    and "ch_queue (gs_to_gossip_rx (nd_gossip nd)) = []"
    and "hm_get (pending (nd_handler nd)) i = None" and "src \<noteq> nd_addr nd"
    and "\<not> hm_contains (gs_cache (nd_gossip nd)) (from_inner (gm_id g))"
    and "as_bytes (e_gossip E) g = Some gb" and "as_bytes (e_message E) \<lparr>head = Gossip, msg = gb\<rparr> = Some b"
    and "mset ds = mset (map (\<lambda>p. the (as_bytes (e_packet E) p)) (packets_of E b i 1))"
  shows "\<exists>nd'. runs d E L (map (\<lambda>d. Datagram (arrival src [] d)) ds @ [MainTurn]) nd nd' \<and>
    nd_main_up nd' \<and> nd_handler_up nd' \<and> nd_main_pc nd' = GossipBeat \<and> nd_screen nd' = nd_screen nd \<and>
    ch_queue (nd_chat nd') = ch_queue (nd_chat nd) @ [g] \<and>
    ch_queue (gs_to_app_tx (nd_gossip nd')) = ch_queue (gs_to_app_tx (nd_gossip nd)) @ [g] \<and>
    hm_contains (gs_cache (nd_gossip nd')) (from_inner (gm_id g))"
proof -
  let ?m = "\<lparr>head = Gossip, msg = gb\<rparr>"
  obtain pend ps where run: "runs d E L (map (\<lambda>d. Datagram (arrival src [] d)) ds) nd (put_handler ((handle_message E ?m src (handler_view nd))\<lparr>pending := pend,
      om_tx := fold chan_send (receipts E (gs_public_ip (nd_gossip nd)) src ps) (om_rx (nd_transport nd))\<rparr>) nd)"
    (is "runs d E L ?es nd ?nd1")
    using message_runs [OF assms(1,14,15,10,6,7), of d L src] by blast
  have from_gb: "from_bytes (e_gossip E) gb = Some g"
    using codec.dec_enc [OF serde_codec, of "e_gossip E" g gb] assms(1,13) by (simp add: wire_def)
  have nd1: "nd_main_pc ?nd1 = GossipRecv" "ch_queue (gs_to_gossip_rx (nd_gossip ?nd1)) = (src, ?m) # []"
    "healthy L (Suc n) (kd_table (gs_kad (nd_gossip ?nd1)))" "gs_cache (nd_gossip ?nd1) = gs_cache (nd_gossip nd)"
    "gs_address (nd_gossip ?nd1) = nd_addr nd" "gs_to_app_tx (nd_gossip ?nd1) = gs_to_app_tx (nd_gossip nd)"
    using assms(3,5,8,9) by (simp_all add: handle_message_def handler_view_def node_ok_def)
  have "from_bytes (e_gossip E) (msg ?m) = Some g" using from_gb by simp
  from linked_hash_map.rumour_turn [OF assms(2) nd1(1-3) assms(4) this] assms(11,12)
  obtain gs t' where turn: "main_turn d E L ?nd1 = (put_gossip (gs, t') ?nd1)\<lparr>nd_main_pc := GossipBeat,
      nd_chat := chan_send g (nd_chat nd)\<rparr>" "gs_to_app_tx gs = chan_send g (gs_to_app_tx (nd_gossip nd))"
    "hm_contains (gs_cache gs) (from_inner (gm_id g))"
    unfolding nd1(4-6) by fastforce
  have "runs d E L [MainTurn] ?nd1 (main_turn d E L ?nd1)" using assms(6) by simp
  with run have "runs d E L (?es @ [MainTurn]) nd (main_turn d E L ?nd1)" unfolding runs_append by blast
  moreover have "ch_open (nd_chat nd)" "ch_open (gs_to_app_tx (nd_gossip nd))"
    using assms(3) by (simp_all add: node_ok_def)
  ultimately show ?thesis using turn(2,3) assms(6,7) by (intro exI [of _ "main_turn d E L ?nd1"]) (simp add: turn(1))
qed

section \<open>Properties\<close>

text \<open>
  C10: in every state a started node can reach, through any interleaving of its threads, any
  datagrams, any lines of input and any panics, the tables and queues of all components are well
  formed, the receiving ends exist exactly while their threads do, and the node has the
  identity and the addresses it started with.
\<close>

theorem node_invariant:
  assumes "linked_hash_map L" and "node_new E L digest_bytes factor t pub_ip sk dial = Inr nd"
    and "reachable d E L nd nd'"
  shows "node_ok E L nd' \<and> nd_info nd' = nd_info nd \<and> nd_addr nd' = nd_addr nd"
  using linked_hash_map.reachable_ok [OF assms(1,3) linked_hash_map.node_new_ok [OF assms(1,2)]] .

text \<open>
  C14: the datagrams of a gossip message whose id is not in the cache, arriving one after the other
  in any order from another address at a node that waits for rumours, and the turn of its
  main thread after them: they run without a panic, give exactly that message to the application
  and to the chat channel, once, and leave it in the cache.
\<close>

theorem rumour_shown:
  fixes E :: env
  assumes "wire E" and "linked_hash_map L" and "node_ok E L nd" and "gen_range_ok E"
    and "healthy L (Suc n) (kd_table (gs_kad (nd_gossip nd)))"
    and "nd_main_up nd" and "nd_handler_up nd" and "nd_main_pc nd = GossipRecv"
    and "ch_queue (gs_to_gossip_rx (nd_gossip nd)) = []"
    and "hm_get (pending (nd_handler nd)) i = None" and "src \<noteq> nd_addr nd"
    and "\<not> hm_contains (gs_cache (nd_gossip nd)) (from_inner (gm_id g))"
    and "as_bytes (e_gossip E) g = Some gb" and "as_bytes (e_message E) \<lparr>head = Gossip, msg = gb\<rparr> = Some b"
    and "mset ds = mset (map (\<lambda>p. the (as_bytes (e_packet E) p)) (packets_of E b i 1))"
  shows "\<exists>nd'. runs d E L (map (\<lambda>d. Datagram (arrival src [] d)) ds @ [MainTurn]) nd nd' \<and>
    nd_main_up nd' \<and> nd_handler_up nd' \<and> nd_main_pc nd' = GossipBeat \<and>
    ch_queue (nd_chat nd') = ch_queue (nd_chat nd) @ [g] \<and>
    ch_queue (gs_to_app_tx (nd_gossip nd')) = ch_queue (gs_to_app_tx (nd_gossip nd)) @ [g] \<and>
    hm_contains (gs_cache (nd_gossip nd')) (from_inner (gm_id g))"
  using rumour_runs [OF assms, of d] by blast

text \<open>
  A line typed at a node reaches its peers: its bytes, without the white space around them,
  under a fresh id and the local address, are cached by the next reception without being shown,
  and the next heartbeat queues the message for the transport layer, once for each peer chosen.
\<close>

theorem line_passed_on:
  fixes E :: env and line :: string and nd :: "'m node"
  defines "g \<equiv> \<lparr>gm_id = rand_arr (e_rand E) (nd_tick nd), gm_data = str_bytes (trim line), gm_sender = nd_addr nd\<rparr>"
  assumes "wire E" and "linked_hash_map L" and "node_ok E L nd" and "gen_range_ok E"
    and "healthy L (Suc n) (kd_table (gs_kad (nd_gossip nd)))"
    and "config_ok (gs_config (nd_gossip nd))"
    and "nd_main_up nd" and "nd_input_up nd" and "nd_transport_up nd" and "nd_main_pc nd = GossipRecv"
    and "ch_queue (gs_to_gossip_rx (nd_gossip nd)) = []"
    and "\<not> hm_contains (gs_cache (nd_gossip nd)) (from_inner (gm_id g))"
    and "e_now E (nd_tick nd + 33) - e_now E (nd_tick nd + 32) <
      gc_interval (gs_config (nd_gossip nd)) * gc_history_gossip (gs_config (nd_gossip nd))"
    and "gc_interval (gs_config (nd_gossip nd)) < e_now E (nd_tick nd + 34) - gs_heartbeat (nd_gossip nd)"
  shows "\<exists>nd' as gb. runs d E L [Line (Some line), MainTurn, MainTurn] nd nd' \<and> as_bytes (e_gossip E) g = Some gb \<and>
    fair_choice E L (nd_addr nd) (nd_gossip nd) as \<and>
    (\<forall>a \<in> set as. (a, \<lparr>head = Gossip, msg = gb\<rparr>) \<in> set (ch_queue (om_rx (nd_transport nd')))) \<and>
    ch_queue (nd_chat nd') = ch_queue (nd_chat nd)"
  using line_queued [OF assms(2-14) [unfolded g_def] assms(15), of d] unfolding g_def
  by (elim exE conjE) (intro exI conjI, assumption+, simp_all del: runs.simps)

text \<open>
  Once the transport thread has panicked the node runs on, but never sends another datagram and
  never recovers.
\<close>

theorem transport_death_silent:
  assumes "\<not> nd_transport_up nd" and "reachable d E L nd nd'"
  shows "sk_sent (nd_sock nd') = sk_sent (nd_sock nd) \<and> \<not> nd_transport_up nd'"
  using quiet_reachable [OF assms(2,1)] assms(1) by (simp add: quiet_def)

text \<open>
  C33: one datagram from any address ends the transport thread of a node that is about to look for
  receipts, if it carries a receipt for a message that is in the outbox and its address contains no
  colon, as every socket address does, of whatever family: the datagram arrives, the transport
  thread takes its turn and panics without sending anything, the main thread runs on, and
  whatever happens afterwards the node sends nothing any more.
\<close>

theorem poisoned_receipt:
  fixes E :: env
  assumes "wire E" and "node_ok E L nd"
    and "nd_main_up nd" and "nd_handler_up nd" and "nd_transport_up nd"
    and "nd_transport_pc nd = IncomingAck" and "ch_queue (ia_rx (nd_transport nd)) = []"
    and "hm_contains (gd_outbox (tr_gd_udp (nd_transport nd))) (ack_packet_id a)"
    and "CHR '':'' \<notin> set (bytes_str (ack_src a))" and "as_bytes (e_ack E) a = Some ab"
    and "as_bytes (e_message E) \<lparr>head = Ack, msg = ab\<rparr> = Some b" and "length b < 1024"
    and "as_bytes (e_packet E) (packet_of E i r 1 1 b) = Some p"
    and "hm_get (pending (nd_handler nd)) i = None"
  shows "\<exists>nd'. runs d E L [Datagram (arrival src [] p), TransportTurn] nd nd' \<and>
    nd_main_up nd' \<and> \<not> nd_transport_up nd' \<and> sk_sent (nd_sock nd') = sk_sent (nd_sock nd) \<and>
    (\<forall>nd''. reachable d E L nd' nd'' \<longrightarrow> sk_sent (nd_sock nd'') = sk_sent (nd_sock nd))"
proof -
  have "mset [p] = mset (map (\<lambda>p. the (as_bytes (e_packet E) p)) (packets_of E b i r))"
    using assms(12,13) by (simp add: packets_of_small)
  then obtain pend ps where run: "runs d E L [Datagram (arrival src [] p)] nd (put_handler ((handle_message E \<lparr>head = Ack, msg = ab\<rparr> src (handler_view nd))\<lparr>pending := pend,
      om_tx := fold chan_send (receipts E (gs_public_ip (nd_gossip nd)) src ps) (om_rx (nd_transport nd))\<rparr>) nd)"
    (is "runs d E L ?es nd ?nd1")
    using message_runs [OF assms(1,11) _ assms(14,3,4), of "[p]" r d L src] by auto
  have dec: "from_bytes (e_ack E) ab = Some a"
    using codec.dec_enc [OF serde_codec, of "e_ack E" a ab] assms(1,10) by (simp add: wire_def)
  let ?nd2 = "node_turn d E L TransportTurn ?nd1"
  have q: "ch_queue (ia_rx (nd_transport ?nd1)) = [a]"
    using dec assms(2,5,7) by (simp add: handle_message_def handler_view_def node_ok_def)
  then have down: "\<not> nd_transport_up ?nd2 \<and> nd_sock ?nd2 = nd_sock nd \<and> nd_main_up ?nd2"
    using assms(3,6,8) parse_addr_no_colon [OF assms(9)]
    by (simp add: transport_turn_def on_transport_def act_zoom_apply incoming_ack_def act_bind_apply
        act_then_apply act_apply chan_try_recv_def process_ack_def drop_transport_def)
  have "enabled TransportTurn ?nd1" using assms(3,5) by simp
  then have "runs d E L [TransportTurn] ?nd1 ?nd2" by simp
  with run have r2: "runs d E L (?es @ [TransportTurn]) nd ?nd2" unfolding runs_append by blast
  have "nd_sock nd'' = nd_sock nd" if "reachable d E L ?nd2 nd''" for nd''
    using quiet_reachable [OF that] down by (simp add: quiet_def)
  with r2 down show ?thesis by (intro exI [of _ ?nd2]) (simp del: runs.simps)
qed

section \<open>Concrete instances\<close>

definition demo_chat :: "string option \<Rightarrow> (peer_id, peer_info) alist node" where
  "demo_chat dial =
     (case node_new ref_env lru (\<lambda>_. ''id'') (\<lambda>n. 4 * n div 10) 0 (Some (Ipv4 10 0 0 9)) (Some demo_sock) dial of
        Inr nd \<Rightarrow> nd)"

lemma demo_chat_new:
  "node_new ref_env lru (\<lambda>_. ''id'') (\<lambda>n. 4 * n div 10) 0 (Some (Ipv4 10 0 0 9)) (Some demo_sock) dial = Inr (demo_chat dial)"
  by (simp add: demo_chat_def node_new_def parse_format_addr peer_info_new_def lru.routing_table_new_eq Let_def
      unwrap_parse_def demo_sock_def ref_env_def)

lemma demo_chat_ok: "node_ok ref_env lru (demo_chat dial)"
  by (rule lru.node_new_ok [OF demo_chat_new])

lemma demo_chat_simps:
  "nd_main_up (demo_chat dial)" "nd_handler_up (demo_chat dial)" "nd_input_up (demo_chat dial)"
  "nd_transport_up (demo_chat dial)" "nd_transport_pc (demo_chat dial) = IncomingAck"
  "nd_addr (demo_chat dial) = SocketAddrV4 (Ipv4 0 0 0 0) 9292" "pending (nd_handler (demo_chat dial)) = []"
  "gs_cache (nd_gossip (demo_chat dial)) = []" "gs_to_gossip_rx (nd_gossip (demo_chat dial)) = chan_new"
  "ia_rx (nd_transport (demo_chat dial)) = chan_new" "nd_chat (demo_chat dial) = chan_new"
  "gs_config (nd_gossip (demo_chat dial)) = demo_config" "gs_heartbeat (nd_gossip (demo_chat dial)) = 37"
  by (simp_all add: demo_chat_def node_new_def parse_format_addr peer_info_new_def lru.routing_table_new_eq Let_def
      unwrap_parse_def demo_sock_def ref_env_def handler_new_def gossip_service_new_def transport_new_def
      demo_config_def)

lemma demo_chat_table:
  "\<exists>now now' li. routing_table_new lru now now' li = Inr (kd_table (gs_kad (nd_gossip (demo_chat dial))))"
  using demo_chat_new [of dial] unfolding node_new_def Let_def res_bind_eq_Inr
  by (auto simp: gossip_service_new_def kademlia_new_def split: if_splits dest!: sym [of _ "demo_chat dial"]) blast

lemma demo_chat_healthy: "healthy lru (Suc 899) (kd_table (gs_kad (nd_gossip (demo_chat dial))))"
  using demo_chat_table [of dial] lru.table_new_healthy by blast

theorem node_invariant_witness:
  "reachable 2 ref_env lru (demo_chat None) (node_turn 2 ref_env lru MainTurn (demo_chat None)) \<and>
   node_ok ref_env lru (node_turn 2 ref_env lru MainTurn (demo_chat None))"
proof -
  have "enabled MainTurn (demo_chat None)" by (simp add: demo_chat_simps)
  from reachable.step [OF reachable.start node_step.turn [OF this]]
  have r: "reachable 2 ref_env lru (demo_chat None) (node_turn 2 ref_env lru MainTurn (demo_chat None))" .
  from r node_invariant [OF lru.linked_hash_map_axioms demo_chat_new r] show ?thesis by blast
qed

text \<open>The node once it has joined the network, waiting for rumours.\<close>

definition demo_waiting :: "nat \<Rightarrow> (peer_id, peer_info) alist node" where
  "demo_waiting t = (demo_chat None)\<lparr>nd_main_pc := GossipRecv, nd_tick := t\<rparr>"

lemma demo_waiting_ok: "node_ok ref_env lru (demo_waiting t)"
  using demo_chat_ok [of None] by (simp add: node_ok_def demo_waiting_def)

lemma demo_waiting_healthy: "healthy lru (Suc 899) (kd_table (gs_kad (nd_gossip (demo_waiting t))))"
  using demo_chat_healthy [of None] by (simp add: demo_waiting_def)

theorem rumour_shown_witness:
  "let b = the (as_bytes (e_message ref_env) demo_rumour);
       ds = rev (map (\<lambda>p. the (as_bytes (e_packet ref_env) p)) (packets_of ref_env b (arr_of [5]) 1)) in
   ds \<noteq> [] \<and> (\<exists>nd'. runs 2 ref_env lru (map (\<lambda>d. Datagram (arrival demo_addr [] d)) ds @ [MainTurn]) (demo_waiting 50) nd' \<and>
     ch_queue (nd_chat nd') = [demo_gossip_message])"
proof -
  let ?b = "the (as_bytes (e_message ref_env) demo_rumour)"
  let ?ds = "rev (map (\<lambda>p. the (as_bytes (e_packet ref_env) p)) (packets_of ref_env ?b (arr_of [5]) 1))"
  have m: "as_bytes (e_message ref_env) \<lparr>head = Gossip, msg = the (as_bytes (e_gossip ref_env) demo_gossip_message)\<rparr> = Some ?b"
    using ref.message.enc_Some [of demo_rumour] by (simp add: demo_rumour_def)
  have "length ?ds \<noteq> 0" by simp
  then have "?ds \<noteq> []" by (metis list.size(3))
  moreover have "\<exists>nd'. runs 2 ref_env lru (map (\<lambda>d. Datagram (arrival demo_addr [] d)) ?ds @ [MainTurn]) (demo_waiting 50) nd' \<and>
    nd_main_up nd' \<and> nd_handler_up nd' \<and> nd_main_pc nd' = GossipBeat \<and>
    ch_queue (nd_chat nd') = ch_queue (nd_chat (demo_waiting 50)) @ [demo_gossip_message] \<and>
    ch_queue (gs_to_app_tx (nd_gossip nd')) = ch_queue (gs_to_app_tx (nd_gossip (demo_waiting 50))) @ [demo_gossip_message] \<and>
    hm_contains (gs_cache (nd_gossip nd')) (from_inner (gm_id demo_gossip_message))"
    by (rule rumour_shown [OF ref.wire_axioms lru.linked_hash_map_axioms demo_waiting_ok demo_gen_range
        demo_waiting_healthy _ _ _ _ _ _ _ ref.gossip.enc_Some m, where src = demo_addr and ds = ?ds])
      (simp_all add: demo_waiting_def demo_chat_simps hm_get_Nil demo_addr_def hm_contains_def)
  moreover have "nd_chat (demo_waiting 50) = chan_new" by (simp add: demo_waiting_def demo_chat_simps)
  ultimately show ?thesis unfolding Let_def by (metis append_Nil chan_new_simps(1))
qed

theorem line_passed_on_witness:
  "\<exists>nd' as gb. runs 2 ref_env lru [Line (Some '' hello ''), MainTurn, MainTurn] (demo_waiting (10 ^ 9)) nd' \<and>
    as_bytes (e_gossip ref_env) \<lparr>gm_id = rand_arr (e_rand ref_env) (10 ^ 9), gm_data = str_bytes ''hello'',
      gm_sender = SocketAddrV4 (Ipv4 0 0 0 0) 9292\<rparr> = Some gb \<and>
    (\<forall>a \<in> set as. (a, \<lparr>head = Gossip, msg = gb\<rparr>) \<in> set (ch_queue (om_rx (nd_transport nd'))))"
proof -
  have now: "e_now ref_env t = t" for t by (simp add: ref_env_def)
  have tick: "nd_tick (demo_waiting t) = t" and addr: "nd_addr (demo_waiting t) = SocketAddrV4 (Ipv4 0 0 0 0) 9292"
    and config: "gs_config (nd_gossip (demo_waiting t)) = demo_config"
    and beat: "gs_heartbeat (nd_gossip (demo_waiting t)) = 37" for t
    by (simp_all add: demo_waiting_def demo_chat_simps)
  show ?thesis
    using line_passed_on [OF ref.wire_axioms lru.linked_hash_map_axioms demo_waiting_ok [of "10 ^ 9"] demo_gen_range
        demo_waiting_healthy, where line = "'' hello ''" and d = 2]
    unfolding now tick addr config beat trim_examples(1)
    by (simp add: demo_config_ok demo_waiting_def demo_chat_simps hm_contains_def hm_get_Nil)
      (simp add: demo_config_def gossip_config_new_def, blast)
qed

theorem transport_death_silent_witness:
  "let nd = drop_transport (demo_chat None); nd' = node_turn 2 ref_env lru MainTurn nd in
   reachable 2 ref_env lru nd nd' \<and> sk_sent (nd_sock nd') = sk_sent (nd_sock nd)"
proof -
  let ?nd = "drop_transport (demo_chat None)"
  have "enabled MainTurn ?nd" by (simp add: demo_chat_simps drop_transport_def)
  from reachable.step [OF reachable.start node_step.turn [OF this]]
  have r: "reachable 2 ref_env lru ?nd (node_turn 2 ref_env lru MainTurn ?nd)" .
  with transport_death_silent [OF _ r] show ?thesis by (simp add: drop_transport_def Let_def)
qed

text \<open>A node with a packet in the outbox, and the acknowledgement that ends its transport thread.\<close>

definition demo_busy :: "(peer_id, peer_info) alist node" where
  "demo_busy = (demo_chat None)\<lparr>nd_transport := (nd_transport (demo_chat None))\<lparr>tr_gd_udp :=
     (tr_gd_udp (nd_transport (demo_chat None)))\<lparr>gd_outbox := single demo_addr demo_packet 1\<rparr>\<rparr>\<rparr>"

definition demo_poison :: ack_message where
  "demo_poison = \<lparr>ack_packet_id = pkt_id demo_packet, ack_packet_number = 1, ack_src = []\<rparr>"

lemma demo_busy_ok: "node_ok ref_env lru demo_busy"
  using demo_chat_ok [of None] demo_gds_inv
  by (simp add: node_ok_def demo_busy_def gd_inv_def demo_gds_def)

lemma length_pc: "length (the (as_bytes (pc_serde c) x)) = length (pe c x)"
  by (simp add: as_bytes_def pc_serde_def str_bytes_def bytes_str_def)

lemma demo_poison_short:
  "length (the (as_bytes (e_message ref_env)
     \<lparr>head = Ack, msg = the (as_bytes (e_ack ref_env) demo_poison)\<rparr>)) < 1024"
proof -
  have "length (the (as_bytes (e_ack ref_env) demo_poison)) = 35"
    by (simp add: ref_env_def length_pc pc_ack_def pc_map_def pc_pair_def pc_arr_def pc_nat_def pc_list_def
        pc_byte_def demo_poison_def nat_enc.simps)
  then show ?thesis
    by (simp add: ref_env_def length_pc pc_message_def pc_map_def pc_pair_def pc_list_def pc_byte_def
        nat_enc.simps)
qed

theorem poisoned_receipt_witness:
  "\<exists>p nd'. runs 2 ref_env lru [Datagram (arrival demo_addr [] p), TransportTurn] demo_busy nd' \<and>
    nd_main_up nd' \<and> \<not> nd_transport_up nd'"
proof -
  have colon: "CHR '':'' \<notin> set (bytes_str (ack_src demo_poison))" by (simp add: demo_poison_def) code_simp
  moreover have "hm_contains (gd_outbox (tr_gd_udp (nd_transport demo_busy))) (ack_packet_id demo_poison)"
    by (simp add: demo_busy_def demo_poison_def single_def hm_contains_def hm_get_def)
  ultimately show ?thesis
    using poisoned_receipt [OF ref.wire_axioms demo_busy_ok _ _ _ _ _ _ colon ref.ack.enc_Some ref.message.enc_Some
        demo_poison_short ref.packet.enc_Some, of "arr_of [9]" 2 demo_addr]
    by (simp add: demo_busy_def demo_chat_simps hm_get_Nil del: runs.simps) blast
qed

end
