(* ===== verification/Traffic.thy ===== *)
theory Traffic
  imports Gossip Delivery
begin

text \<open>
  The traffic of a network whose members run this program and no other: which bytes, packets and
  messages such members can send, and that no component panics on them. The \<open>ledger\<close> is
  the history these notions refer to: the peers that are members, the gossip messages that were
  typed, the message that was cut into the packets of each id, and which packet was received at
  which public address. For every component there is an
  invariant over the ledger and one lemma per operation that says that the operation cannot panic,
  keeps the invariant and sends good messages only. The lemmas are in the calculus \<open>safe\<close>.
\<close>

section \<open>The ledger\<close>

record ledger =
  lg_peers :: "peer_info set"
  lg_typed :: "gossip_message set"
  lg_sent :: "inner_key \<Rightarrow> (bytes \<times> u8) option"
  lg_received :: "(inner_key \<times> nat \<times> socket_addr) set"

definition ledger_le :: "ledger \<Rightarrow> ledger \<Rightarrow> bool" where
  "ledger_le H H' \<longleftrightarrow> lg_peers H \<subseteq> lg_peers H' \<and> lg_typed H \<subseteq> lg_typed H' \<and>
     lg_sent H \<subseteq>\<^sub>m lg_sent H' \<and> lg_received H \<subseteq> lg_received H'"

text \<open>Fewer members than one bucket of a routing table holds.\<close>

definition few :: "ledger \<Rightarrow> bool" where
  "few H \<longleftrightarrow> finite (lg_peers H) \<and> card (lg_peers H) < MAX_BUCKET_LEN"

section \<open>Good traffic\<close>

text \<open>Bytes that can only be read as a member, and bytes that are one.\<close>

definition good_peer :: "env \<Rightarrow> ledger \<Rightarrow> bytes \<Rightarrow> bool" where
  "good_peer E H b = (case from_bytes (e_peer E) b of Some p \<Rightarrow> p \<in> lg_peers H | None \<Rightarrow> True)"

definition sure_peer :: "env \<Rightarrow> ledger \<Rightarrow> bytes \<Rightarrow> bool" where
  "sure_peer E H b = (case from_bytes (e_peer E) b of Some p \<Rightarrow> p \<in> lg_peers H | None \<Rightarrow> False)"

definition good_call :: "env \<Rightarrow> ledger \<Rightarrow> rpc \<Rightarrow> bool" where
  "good_call E H rpc =
     (case rpc of
        NewPeer b \<Rightarrow> sure_peer E H b
      | FindNode b \<Rightarrow> good_peer E H b
      | _ \<Rightarrow> \<not> is_answer rpc)"

definition good_result :: "env \<Rightarrow> ledger \<Rightarrow> rpc \<Rightarrow> bool" where
  "good_result E H rpc =
     (case rpc of
        Nodes ns \<Rightarrow> list_all (good_peer E H) ns
      | Pong b \<Rightarrow> sure_peer E H b
      | _ \<Rightarrow> is_answer rpc)"

definition good_req :: "env \<Rightarrow> ledger \<Rightarrow> req \<Rightarrow> bool" where
  "good_req E H r \<longleftrightarrow> sure_peer E H (req_sender r) \<and>
     (case from_bytes (e_rpc E) (req_payload r) of Some rpc \<Rightarrow> good_call E H rpc | None \<Rightarrow> False)"

definition good_resp :: "env \<Rightarrow> ledger \<Rightarrow> resp \<Rightarrow> bool" where
  "good_resp E H q \<longleftrightarrow> (case from_bytes (e_rpc E) (resp_payload q) of Some rpc \<Rightarrow> good_result E H rpc | None \<Rightarrow> False)"

definition good_kad :: "env \<Rightarrow> ledger \<Rightarrow> kad_message \<Rightarrow> bool" where
  "good_kad E H k =
     (case k of
        KadRequest b \<Rightarrow> (case from_bytes (e_req E) b of Some r \<Rightarrow> good_req E H r | None \<Rightarrow> True)
      | KadResponse b \<Rightarrow> (case from_bytes (e_resp E) b of Some q \<Rightarrow> good_resp E H q | None \<Rightarrow> True)
      | Kill \<Rightarrow> True)"

text \<open>A receipt names a packet that was received at the address it names.\<close>

definition good_receipt :: "ledger \<Rightarrow> ack_message \<Rightarrow> bool" where
  "good_receipt H a \<longleftrightarrow> (case parse_addr (bytes_str (ack_src a)) of
     Some src \<Rightarrow> (ack_packet_id a, ack_packet_number a, src) \<in> lg_received H | None \<Rightarrow> False)"

text \<open>A rumour: a message of the gossip service whose content, if it can be read, was typed.\<close>

definition good_rumour :: "env \<Rightarrow> ledger \<Rightarrow> message \<Rightarrow> bool" where
  "good_rumour E H m \<longleftrightarrow> head m = Gossip \<and>
     (case from_bytes (e_gossip E) (msg m) of Some g \<Rightarrow> g \<in> lg_typed H | None \<Rightarrow> True)"

definition good_message :: "env \<Rightarrow> ledger \<Rightarrow> message \<Rightarrow> bool" where
  "good_message E H m =
     (case head m of
        Ack \<Rightarrow> (case from_bytes (e_ack E) (msg m) of Some a \<Rightarrow> good_receipt H a | None \<Rightarrow> True)
      | Gossip \<Rightarrow> good_rumour E H m
      | _ \<Rightarrow> (case from_bytes (e_kad E) (msg m) of Some k \<Rightarrow> good_kad E H k | None \<Rightarrow> True))"

text \<open>A packet is one of those its id was drawn for; a datagram holds such a packet, or none.\<close>

definition good_packet :: "env \<Rightarrow> ledger \<Rightarrow> packet \<Rightarrow> bool" where
  "good_packet E H p =
     (case lg_sent H (pkt_id p) of
        Some (b, r) \<Rightarrow> p \<in> set (packets_of E b (pkt_id p) r)
      | None \<Rightarrow> False)"

definition good_datagram :: "env \<Rightarrow> ledger \<Rightarrow> bytes \<Rightarrow> bool" where
  "good_datagram E H b = (case from_bytes (e_packet E) b of Some p \<Rightarrow> good_packet E H p | None \<Rightarrow> True)"

definition good_bytes :: "env \<Rightarrow> ledger \<Rightarrow> bytes \<Rightarrow> bool" where
  "good_bytes E H b = (case from_bytes (e_message E) b of Some m \<Rightarrow> good_message E H m | None \<Rightarrow> True)"

definition ledger_ok :: "env \<Rightarrow> ledger \<Rightarrow> bool" where
  "ledger_ok E H \<longleftrightarrow> few H \<and> (\<forall>i b r. lg_sent H i = Some (b, r) \<longrightarrow> good_bytes E H b)"

text \<open>A longer ledger admits more.\<close>

named_theorems ledger_mono

lemma ledger_le_refl [simp]: "ledger_le H H"
  by (simp add: ledger_le_def)

lemma good_peer_mono [ledger_mono]: "ledger_le H H' \<Longrightarrow> good_peer E H b \<Longrightarrow> good_peer E H' b"
  by (auto simp: good_peer_def ledger_le_def split: option.splits)

lemma sure_peer_mono [ledger_mono]: "ledger_le H H' \<Longrightarrow> sure_peer E H b \<Longrightarrow> sure_peer E H' b"
  by (auto simp: sure_peer_def ledger_le_def split: option.splits)

lemma good_call_mono [ledger_mono]: "ledger_le H H' \<Longrightarrow> good_call E H c \<Longrightarrow> good_call E H' c"
  by (auto simp: good_call_def intro: ledger_mono split: rpc.splits)

lemma good_result_mono [ledger_mono]: "ledger_le H H' \<Longrightarrow> good_result E H c \<Longrightarrow> good_result E H' c"
  by (auto simp: good_result_def list_all_iff intro: ledger_mono split: rpc.splits)

lemma good_kad_mono [ledger_mono]: "ledger_le H H' \<Longrightarrow> good_kad E H k \<Longrightarrow> good_kad E H' k"
  by (auto simp: good_kad_def good_req_def good_resp_def intro: ledger_mono
      split: kad_message.splits option.splits)

lemma good_rumour_mono [ledger_mono]: "ledger_le H H' \<Longrightarrow> good_rumour E H m \<Longrightarrow> good_rumour E H' m"
  by (auto simp: good_rumour_def ledger_le_def split: option.splits)

lemma good_receipt_mono [ledger_mono]: "ledger_le H H' \<Longrightarrow> good_receipt H a \<Longrightarrow> good_receipt H' a"
  by (auto simp: good_receipt_def ledger_le_def split: option.splits)

lemma good_message_mono [ledger_mono]: "ledger_le H H' \<Longrightarrow> good_message E H m \<Longrightarrow> good_message E H' m"
  by (auto simp: good_message_def intro: ledger_mono split: header.splits option.splits)

lemma good_packet_mono [ledger_mono]: "ledger_le H H' \<Longrightarrow> good_packet E H p \<Longrightarrow> good_packet E H' p"
  by (auto simp: good_packet_def ledger_le_def map_le_def dom_def split: option.splits)

lemma good_datagram_mono [ledger_mono]: "ledger_le H H' \<Longrightarrow> good_datagram E H d \<Longrightarrow> good_datagram E H' d"
  by (auto simp: good_datagram_def intro: ledger_mono split: option.splits)

lemma good_bytes_mono [ledger_mono]: "ledger_le H H' \<Longrightarrow> good_bytes E H d \<Longrightarrow> good_bytes E H' d"
  by (auto simp: good_bytes_def intro: ledger_mono split: option.splits)

section \<open>Tables of members\<close>

definition table_good :: "'m lhm \<Rightarrow> ledger \<Rightarrow> 'm routing_table \<Rightarrow> bool" where
  "table_good L H rt \<longleftrightarrow> rt_ok L rt \<and> rt_dense L rt \<and> rt_peers L rt \<subseteq> lg_peers H \<and>
     local_info rt \<in> lg_peers H \<and> pi_id (local_info rt) \<in> known_ids L rt"

lemma table_good_mono [ledger_mono]: "ledger_le H H' \<Longrightarrow> table_good L H rt \<Longrightarrow> table_good L H' rt"
  by (auto simp: table_good_def ledger_le_def)

context linked_hash_map begin

lemma distinct_nodes:
  assumes "filed L li k b"
  shows "distinct (get_nodes L b)"
proof -
  have "map fst (lhm_iter L (nodes b)) = map pi_id (get_nodes L b)"
    using assms by (auto simp: filed_def list_all_iff get_nodes_def)
  with iter_distinct [of "nodes b"] show ?thesis by (metis distinct_map)
qed

lemma filed_digits:
  "filed L li k b \<Longrightarrow> p \<in> set (get_nodes L b) \<Longrightarrow>
   take (length k) (get_binary (key_xor (peer_get_key li) (peer_get_key p))) = k"
  by (auto simp: filed_def list_all_iff get_nodes_def)

lemma in_all_rt_peers: "rt_ok L rt \<Longrightarrow> set (get_all_peers E L rt) = rt_peers L rt"
  unfolding rt_ok_def rt_peers_def by (intro set_eqI) (simp add: in_all_peers)

lemma known_ids_peers:
  assumes "rt_ok L rt"
  shows "known_ids L rt = pi_id ` set (get_all_peers E L rt)"
proof -
  have "lhm_contains L (nodes b) i \<longleftrightarrow> i \<in> pi_id ` set (get_nodes L b)" if "hm_get (tree rt) k = Some b" for k b i
    using rt_ok_filed [OF assms that] by (force simp: filed_def list_all_iff get_nodes_def contains_iter)
  then have "known_ids L rt = {i. \<exists>k b. hm_get (tree rt) k = Some b \<and> i \<in> pi_id ` set (get_nodes L b)}"
    unfolding known_ids_def by blast
  also have "\<dots> = pi_id ` rt_peers L rt" by (auto simp: rt_peers_def)
  finally show ?thesis by (simp add: in_all_rt_peers [OF assms])
qed

text \<open>With few members no bucket fills up, so every peer lies in one of the first two buckets.\<close>

lemma table_total:
  assumes "table_good L H rt" and "few H"
  shows "total_peers L rt < MAX_BUCKET_LEN"
proof -
  have ok: "rt_ok L rt" and dense: "rt_dense L rt" and sub: "rt_peers L rt \<subseteq> lg_peers H"
    using assms(1) by (simp_all add: table_good_def)
  have small: "bucket_size L b < MAX_BUCKET_LEN" if b: "hm_get (tree rt) k = Some b" for k b
  proof -
    have "set (get_nodes L b) \<subseteq> lg_peers H" using sub b by (auto simp: rt_peers_def)
    moreover have "card (set (get_nodes L b)) = bucket_size L b"
      using distinct_card [OF distinct_nodes [OF rt_ok_filed [OF ok b]]] by simp
    moreover have "finite (lg_peers H)" "card (lg_peers H) < MAX_BUCKET_LEN" using assms(2) by (simp_all add: few_def)
    ultimately show ?thesis using card_mono [of "lg_peers H" "set (get_nodes L b)"] by simp
  qed
  have short: "length k = 1" if b: "hm_get (tree rt) k = Some b" for k b
  proof (rule ccontr)
    assume "length k \<noteq> 1"
    with rt_ok_filed [OF ok b] have "1 < length k" by (cases k) (auto simp: filed_def)
    with dense b have "\<not> free_at L rt (take 1 k)" by (simp add: rt_dense_def)
    with small show False by (auto simp: free_at_def is_full_def bucket_size_def not_le [symmetric] split: option.splits)
  qed
  let ?all = "\<lambda>es. concat (map (\<lambda>(k, b). get_nodes L b) es)"
  have "distinct (?all es)" if "hm_wf es" "\<And>k b. (k, b) \<in> set es \<Longrightarrow> hm_get (tree rt) k = Some b" for es
    using that
  proof (induction es)
    case (Cons e es)
    obtain k b where e: "e = (k, b)" by fastforce
    have b: "hm_get (tree rt) k = Some b" using Cons.prems(2) by (simp add: e)
    have "p \<notin> set (?all es)" if p: "p \<in> set (get_nodes L b)" for p
    proof
      assume "p \<in> set (?all es)"
      then obtain j c where j: "(j, c) \<in> set es" "p \<in> set (get_nodes L c)" by auto
      have c: "hm_get (tree rt) j = Some c" using Cons.prems(2) j by simp
      have "j = k"
        using filed_digits [OF rt_ok_filed [OF ok b] p] filed_digits [OF rt_ok_filed [OF ok c] j(2)]
          short [OF b] short [OF c] by metis
      with Cons.prems(1) j(1) show False by (force simp: hm_wf_def e)
    qed
    moreover have "distinct (?all es)" using Cons by (simp add: hm_wf_def)
    ultimately show ?case using distinct_nodes [OF rt_ok_filed [OF ok b]] by (auto simp: e)
  qed simp
  from this [of "tree rt"] have "distinct (?all (tree rt))"
    using ok hm_entries [of "tree rt" _ _ "\<lambda>_. 0"] by (simp add: rt_ok_def)
  from distinct_card [OF this] have "card (set (?all (tree rt))) = length (?all (tree rt))" .
  also have "\<dots> = total_peers L rt"
    by (simp add: total_peers_sum length_concat comp_def case_prod_unfold)
  finally have "card (set (?all (tree rt))) = total_peers L rt" .
  moreover have "set (?all (tree rt)) \<subseteq> lg_peers H"
    using sub ok hm_entries [of "tree rt" _ _ "\<lambda>_. 0"] by (fastforce simp: rt_ok_def rt_peers_def)
  ultimately show ?thesis using assms(2) card_mono [of "lg_peers H"] by (metis few_def le_less_trans)
qed

lemma table_healthy: "table_good L H rt \<Longrightarrow> few H \<Longrightarrow> healthy L (Suc (Suc 900)) rt"
  using table_total [of H rt] by (simp add: healthy_def table_good_def MAX_BUCKET_LEN_def)

lemma rt_peers_put: "rt_ok L rt \<Longrightarrow> rt_peers L (put_peer L now now' p k rt) \<subseteq> insert p (rt_peers L rt)"
  by (auto simp: rt_peers_def get_nodes_def upsert_def kbucket_new_def Let_def set_insert iter_new
      split: if_splits option.splits)

lemma table_good_update:
  assumes "table_good L H rt" and "few H" and "p \<in> lg_peers H"
  shows "table_good L H (snd (update_peer L now now' p 0 rt))"
proof -
  have ok: "rt_ok L rt" "rt_dense L rt" using assms(1) by (simp_all add: table_good_def)
  obtain n where n: "slot L rt p 0 = Some n"
    using slot_exists [of rt L p] ok(1) table_total [OF assms(1,2)] by (auto simp: rt_ok_def MAX_BUCKET_LEN_def)
  have "rt_ok L (snd (update_peer L now now' p 0 rt))" "rt_dense L (snd (update_peer L now now' p 0 rt))"
    using ok by (simp_all add: rt_ok_update rt_dense_update)
  moreover have "hm_wf (tree rt)" using ok(1) by (simp add: rt_ok_def)
  moreover have "rt_peers L (snd (update_peer L now now' p 0 rt)) \<subseteq> lg_peers H"
    using rt_peers_put [OF ok(1)] assms(1,3) n by (simp add: table_good_def update_peer_eq) blast
  ultimately show ?thesis using assms(1) n by (simp add: table_good_def update_peer_eq known_put)
qed

text \<open>The search returns members.\<close>

lemma closest_members:
  assumes "table_good L H rt" and "few H"
  shows "\<exists>ps. get_closest_peers E L rt p c = Inr ps \<and> set ps \<subseteq> lg_peers H"
proof (cases "c < total_peers L rt")
  case True
  have ok: "rt_ok L rt" "rt_dense L rt" "total_peers L rt < 960" "rt_peers L rt \<subseteq> lg_peers H"
    using assms table_total [OF assms] by (simp_all add: table_good_def MAX_BUCKET_LEN_def)
  obtain ps where "get_closest_peers E L rt p c = Inr (nearest p c ps)"
    "mset ps \<subseteq># mset (get_all_peers E L rt)"
    using get_closest_peers_eq [OF ok(1-3) True, of E p] by blast
  moreover from this nearest_sub [of p c ps] have "mset (nearest p c ps) \<subseteq># mset (get_all_peers E L rt)"
    by (meson subset_mset.trans)
  ultimately show ?thesis using ok(4) in_all_rt_peers [OF ok(1)] set_mset_mono by fastforce
next
  case False
  with assms(1) in_all_rt_peers show ?thesis
    by (fastforce simp: get_closest_peers_def table_good_def)
qed

end

section \<open>Discovery\<close>

definition good_sends :: "env \<Rightarrow> ledger \<Rightarrow> (socket_addr \<times> message) chan \<Rightarrow> bool" where
  "good_sends E H c \<longleftrightarrow> list_all (\<lambda>(a, m). good_message E H m) (ch_queue c)"

lemma good_sends_send [simp]: "good_sends E H c \<Longrightarrow> good_message E H m \<Longrightarrow> good_sends E H (chan_send (a, m) c)"
  by (simp add: good_sends_def)

lemma good_sends_fold:
  "good_sends E H c \<Longrightarrow> list_all (\<lambda>(a, m). good_message E H m) xs \<Longrightarrow> good_sends E H (fold chan_send xs c)"
  by (simp add: good_sends_def fold_chan_send_queue)

definition kad_good :: "env \<Rightarrow> 'm lhm \<Rightarrow> ledger \<Rightarrow> 'm kads \<Rightarrow> bool" where
  "kad_good E L H = (\<lambda>(kd, t). table_good L H (kd_table kd) \<and> good_sends E H (kd_to_transport kd) \<and>
     list_all (\<lambda>(a, k). good_kad E H k) (ch_queue (kd_from_transport kd)))"

lemma kad_good_iff:
  "kad_good E L H (kd, t) \<longleftrightarrow> table_good L H (kd_table kd) \<and> good_sends E H (kd_to_transport kd) \<and>
     list_all (\<lambda>(a, k). good_kad E H k) (ch_queue (kd_from_transport kd))"
  by (simp add: kad_good_def)

lemma safe_unwrap_all:
  "list_all (\<lambda>x. f x \<noteq> None) xs \<Longrightarrow> safe I (unwrap_all f xs) (\<lambda>bs. bs = map (\<lambda>x. the (f x)) xs)"
proof (induction xs)
  case (Cons x xs)
  then obtain b where "f x = Some b" by auto
  with Cons show ?case by (auto intro!: safe_bind [OF Cons.IH] safe_ret)
qed (simp add: safe_ret)

context kad_node begin

lemma good_peer_bytes: "p \<in> lg_peers H \<Longrightarrow> good_peer E H (peer_bytes E p)"
  by (simp add: good_peer_def peer_bytes_def)

lemma sure_peer_bytes: "p \<in> lg_peers H \<Longrightarrow> sure_peer E H (peer_bytes E p)"
  by (simp add: sure_peer_def peer_bytes_def)

lemma good_query:
  "li \<in> lg_peers H \<Longrightarrow> good_call E H rpc \<Longrightarrow> good_message E H (query E li i rpc)"
  by (simp add: good_message_def query_def good_kad_def good_req_def sure_peer_def)

lemma good_answer: "good_result E H rpc \<Longrightarrow> good_message E H (answer E r receiver rpc)"
  by (simp add: good_message_def answer_def good_kad_def good_resp_def)

lemma safe_local: "safe (kad_good E L H) get_local (\<lambda>li. li \<in> lg_peers H)"
  unfolding get_local_def by (rule safe_get) (auto simp: kad_good_def table_good_def)

lemma safe_to_transport:
  "good_message E H m \<Longrightarrow> safe (kad_good E L H) (to_transport a m) returns"
  unfolding to_transport_def by (rule safe_modify) (auto simp: kad_good_def)

text \<open>The messages a node prepares are good.\<close>

lemma safe_own_request:
  assumes "good_call E H rpc"
  shows "safe (kad_good E L H) (own_request E rpc) (\<lambda>(k, m). good_message E H m)"
proof (rule safeI)
  fix s :: "'m kads" assume s: "kad_good E L H s"
  obtain kd t where st: "s = (kd, t)" by (cases s)
  with s have "local_info (kd_table kd) \<in> lg_peers H" by (simp add: kad_good_iff table_good_def)
  then show "\<exists>x s'. own_request E rpc s = (Inr x, s') \<and> kad_good E L H s' \<and> (case x of (k, m) \<Rightarrow> good_message E H m)"
    using s assms by (simp add: st own_request_eq good_query kad_good_iff)
qed

lemma safe_find_node: "p \<in> lg_peers H \<Longrightarrow>
    safe (kad_good E L H) (prepare_find_node_message E p None) (\<lambda>(k, m). good_message E H m)"
  by (simp add: prepare_find_node_message_def peer.unwrap_enc)
    (rule safe_own_request, simp add: good_call_def good_peer_def)

lemma safe_new_peer: "p \<in> lg_peers H \<Longrightarrow>
    safe (kad_good E L H) (prepare_new_peer_message E p) (\<lambda>(k, m). good_message E H m)"
  by (simp add: prepare_new_peer_message_def peer.unwrap_enc)
    (rule safe_own_request, simp add: good_call_def sure_peer_def)

lemma safe_nodes_response: "set ps \<subseteq> lg_peers H \<Longrightarrow>
    safe (kad_good E L H) (prepare_nodes_response_message E r ps) (\<lambda>m. good_message E H m)"
proof (rule safeI)
  fix s :: "'m kads" assume "kad_good E L H s" and ps: "set ps \<subseteq> lg_peers H"
  moreover obtain kd t where "s = (kd, t)" by (cases s)
  moreover have "good_result E H (Nodes (map (peer_bytes E) ps))"
    using ps by (auto simp: good_result_def list_all_iff intro: good_peer_bytes)
  ultimately show "\<exists>m s'. prepare_nodes_response_message E r ps s = (Inr m, s') \<and> kad_good E L H s' \<and> good_message E H m"
    by (simp add: nodes_response_eq good_answer)
qed

lemma safe_pong: "safe (kad_good E L H) (prepare_pong_response E p r) (\<lambda>m. good_message E H m)"
proof (rule safeI)
  fix s :: "'m kads" assume s: "kad_good E L H s"
  obtain kd t where st: "s = (kd, t)" by (cases s)
  with s have "local_info (kd_table kd) \<in> lg_peers H" by (simp add: kad_good_iff table_good_def)
  then have "good_result E H (Pong (peer_bytes E (local_info (kd_table kd))))"
    by (simp add: good_result_def sure_peer_bytes)
  with s show "\<exists>m s'. prepare_pong_response E p r s = (Inr m, s') \<and> kad_good E L H s' \<and> good_message E H m"
    by (simp add: st pong_eq good_answer)
qed

text \<open>Filing and searching.\<close>

lemma safe_update:
  assumes "few H" and "p \<in> lg_peers H"
  shows "safe (kad_good E L H) (kad_update E' L p) returns"
proof (rule safeI)
  fix s :: "'m kads" assume s: "kad_good E L H s"
  obtain kd t where st: "s = (kd, t)" by (cases s)
  have rt: "table_good L H (kd_table kd)" using s by (simp add: st kad_good_iff)
  from kad_update_ok [OF table_healthy [OF rt assms(1)], of E' p t] obtain rt' where
    "kad_update E' L p (kd, t) = (Inr (), (kd\<lparr>kd_table := rt'\<rparr>, t + 2))"
    "rt' = snd (update_peer L (e_now E' t) (e_now E' (t + 1)) p 0 (kd_table kd))" by blast
  with s table_good_update [OF rt assms] show
    "\<exists>a s'. kad_update E' L p s = (Inr a, s') \<and> kad_good E L H s' \<and> True"
    by (simp add: st kad_good_iff)
qed

lemma safe_add_peer: "few H \<Longrightarrow> sure_peer E H b \<Longrightarrow> safe (kad_good E L H) (add_peer E L b) returns"
  by (cases "from_bytes (e_peer E) b") (simp_all add: sure_peer_def add_peer_def safe_update)

lemma safe_closest:
  assumes "few H"
  shows "safe (kad_good E L H) (kad_closest E L node) (\<lambda>ps. set ps \<subseteq> lg_peers H)"
proof (rule safeI)
  fix s :: "'m kads" assume s: "kad_good E L H s"
  obtain kd t where st: "s = (kd, t)" by (cases s)
  have "table_good L H (kd_table kd)" using s by (simp add: st kad_good_iff)
  from closest_members [OF this assms, of E node DEFAULT_N_PEERS] s show
    "\<exists>ps s'. kad_closest E L node s = (Inr ps, s') \<and> kad_good E L H s' \<and> set ps \<subseteq> lg_peers H"
    by (auto simp: st kad_closest_def act_bind_apply act_apply)
qed

lemma safe_bootstrap:
  assumes "few H"
  shows "safe (kad_good E L H) (bootstrap E L a) returns"
  unfolding bootstrap_def
proof (rule safe_bind [OF safe_local])
  fix li assume li: "li \<in> lg_peers H"
  show "safe (kad_good E L H) (act_bind (prepare_find_node_message E li None) (\<lambda>(k, message).
     act_then (to_transport a message)
    (act_bind get_local (\<lambda>li.
     act_bind (act_unwrap (as_bytes (e_peer E) li)) (add_peer E L))))) returns"
    using assms
    by (auto intro!: safe_bind [OF safe_find_node [OF li]] safe_then [OF safe_to_transport] safe_bind [OF safe_local]
        safe_add_peer simp: peer.unwrap_enc sure_peer_def)
qed

lemma safe_lookup:
  assumes "few H" and "node \<in> lg_peers H"
  shows "safe (kad_good E L H) (lookup_node E L node r) returns"
  unfolding lookup_node_def
proof (rule safe_bind [OF safe_closest [OF assms(1)]])
  fix ps assume ps: "set ps \<subseteq> lg_peers H"
  have "safe (kad_good E L H) (case as_bytes (e_peer E) node of Some b \<Rightarrow> add_peer E L b | None \<Rightarrow> act_ret ()) returns"
    using assms by (auto simp: sure_peer_def peer.dec_enc intro!: safe_add_peer safe_ret split: option.split)
  then show "safe (kad_good E L H)
     (act_then (case as_bytes (e_peer E) node of Some b \<Rightarrow> add_peer E L b | None \<Rightarrow> act_ret ())
    (act_bind (prepare_new_peer_message E node) (\<lambda>(k, m).
     act_bind (prepare_nodes_response_message E r ps) (\<lambda>resp_msg.
     act_then (to_transport (pi_address node) resp_msg)
       (act_each ps (\<lambda>peer. to_transport (get_address peer) m)))))) returns"
    by (rule safe_then)
      (auto intro!: safe_bind [OF safe_new_peer [OF assms(2)]] safe_bind [OF safe_nodes_response [OF ps]]
        safe_then [OF safe_to_transport] safe_each safe_to_transport)
qed

lemma safe_handle_node:
  assumes "few H" and "good_peer E H b"
  shows "safe (kad_good E L H) (handle_node E L b) returns"
proof (cases "from_bytes (e_peer E) b")
  case (Some p)
  with assms(2) have "sure_peer E H b" by (simp add: good_peer_def sure_peer_def)
  with Some assms(1) show ?thesis
    by (auto simp: handle_node_def intro!: safe_bind [OF safe_get [of _ returns]] safe_then [OF safe_add_peer]
        safe_if safe_bootstrap safe_ret)
qed (simp add: handle_node_def safe_ret)

text \<open>The two handlers, which do not call each other on good messages.\<close>

lemma safe_request:
  assumes "few H" and "good_req E H r" and "from_bytes (e_req E) b = Some r"
  shows "safe (kad_good E L H) (handle_request (Suc d) E L b) returns"
proof -
  obtain s where s: "from_bytes (e_peer E) (req_sender r) = Some s" "s \<in> lg_peers H"
    using assms(2) by (auto simp: good_req_def sure_peer_def split: option.splits)
  obtain rpc where rpc: "from_bytes (e_rpc E) (req_payload r) = Some rpc" "good_call E H rpc"
    using assms(2) by (auto simp: good_req_def split: option.splits)
  have "safe (kad_good E L H) (case rpc of
              FindNode node \<Rightarrow>
                (case from_bytes (e_peer E) node of
                   Some peer \<Rightarrow> lookup_node E L peer r
                 | None \<Rightarrow> act_ret ())
            | NewPeer peer \<Rightarrow> add_peer E L peer
            | FindValue v \<Rightarrow> act_ret ()
            | Store k v \<Rightarrow> act_ret ()
            | Ping \<Rightarrow>
                act_bind (prepare_pong_response E s r) (\<lambda>resp_msg.
                to_transport (pi_address s) resp_msg)
            | _ \<Rightarrow> handle_response d E L b) returns"
    using rpc(2) assms(1)
    by (auto simp: good_call_def is_answer_def good_peer_def split: rpc.splits option.splits
        intro!: safe_ret safe_add_peer safe_lookup safe_bind [OF safe_pong] safe_to_transport)
  with s rpc(1) assms(1,3) show ?thesis
    by (simp add: req_to_components_def peer.unwrap_enc)
      (rule safe_then [OF safe_add_peer], simp_all add: sure_peer_def)
qed

lemma safe_response:
  assumes "few H" and "good_resp E H q" and "from_bytes (e_resp E) b = Some q"
  shows "safe (kad_good E L H) (handle_response (Suc d) E L b) returns"
proof -
  obtain rpc where rpc: "from_bytes (e_rpc E) (resp_payload q) = Some rpc" "good_result E H rpc"
    using assms(2) by (auto simp: good_resp_def split: option.splits)
  then show ?thesis using assms(1,3)
    by (auto simp: resp_to_components_def good_result_def is_answer_def list_all_iff split: rpc.splits option.splits
        intro!: safe_ret safe_each safe_handle_node safe_add_peer)
qed

lemma safe_handle_message:
  "few H \<Longrightarrow> good_kad E H k \<Longrightarrow> safe (kad_good E L H) (kad_handle_message (Suc d) E L k) returns"
proof (cases k)
  case (KadRequest b)
  assume "few H" "good_kad E H k"
  then show ?thesis using KadRequest safe_request [of H _ b d]
    by (cases "from_bytes (e_req E) b") (simp_all add: kad_handle_message_def good_kad_def safe_ret)
next
  case (KadResponse b)
  assume "few H" "good_kad E H k"
  then show ?thesis using KadResponse safe_response [of H _ b d]
    by (cases "from_bytes (e_resp E) b") (simp_all add: kad_handle_message_def good_kad_def safe_ret)
qed (simp add: kad_handle_message_def safe_ret)

lemma safe_kad_recv:
  assumes "few H"
  shows "safe (kad_good E L H) (kad_recv (Suc d) E L) returns"
  unfolding kad_recv_def
proof (rule safe_take [where R = "\<lambda>x. case x of Some (src, k) \<Rightarrow> good_kad E H k | None \<Rightarrow> True"])
  have tick: "safe (kad_good E L H) (act_modify (\<lambda>(kd, t). (kd, t + 1))) returns"
    by (rule safe_modify) (auto simp: kad_good_def)
  fix x assume "case x of Some (src, k) \<Rightarrow> good_kad E H k | None \<Rightarrow> True"
  then show "safe (kad_good E L H) (act_then
      (case x of Some (src, m) \<Rightarrow> kad_handle_message (Suc d) E L m | None \<Rightarrow> act_ret ())
    (act_bind (act_get (\<lambda>(kd, t). kd_interval kd < e_now E t - kd_ping_pong kd)) (\<lambda>due.
     act_then (act_modify (\<lambda>(kd, t). (kd, t + 1)))
       (if due then act_ret () else act_ret ())))) returns"
    by (intro safe_then [of _ _ returns] safe_bind [OF safe_get [of _ returns]] safe_then [OF tick])
      (auto intro: safe_ret safe_handle_message [OF assms] split: option.splits)
qed (auto simp: kad_good_def chan_try_recv_def split: list.splits)

end

section \<open>Gossip\<close>

definition good_rumours :: "env \<Rightarrow> ledger \<Rightarrow> (socket_addr \<times> message) chan \<Rightarrow> bool" where
  "good_rumours E H c \<longleftrightarrow> list_all (\<lambda>(a, m). good_rumour E H m) (ch_queue c)"

definition only_typed :: "ledger \<Rightarrow> gossip_message chan \<Rightarrow> bool" where
  "only_typed H c \<longleftrightarrow> list_all (\<lambda>g. g \<in> lg_typed H) (ch_queue c)"

definition cache_good :: "env \<Rightarrow> ledger \<Rightarrow> gossip_cache \<Rightarrow> bool" where
  "cache_good E H c \<longleftrightarrow> list_all (\<lambda>(k, m, e). good_rumour E H m) c"

lemma only_typed_send [simp]: "only_typed H c \<Longrightarrow> g \<in> lg_typed H \<Longrightarrow> only_typed H (chan_send g c)"
  by (simp add: only_typed_def)

lemma good_rumours_send [simp]: "good_rumours E H c \<Longrightarrow> good_rumour E H m \<Longrightarrow> good_rumours E H (chan_send (a, m) c)"
  by (simp add: good_rumours_def)

lemma cache_good_insert: "cache_good E H c \<Longrightarrow> good_rumour E H m \<Longrightarrow> cache_good E H (hm_or_insert k (m, e) c)"
proof -
  have "set (AList.update k (m, e) c) \<subseteq> insert (k, m, e) (set c)"
    by (induction c) auto
  then show "cache_good E H c \<Longrightarrow> good_rumour E H m \<Longrightarrow> cache_good E H (hm_or_insert k (m, e) c)"
    by (fastforce simp: cache_good_def hm_or_insert_def hm_insert_def list_all_iff split: option.split)
qed

lemma cache_good_remove: "cache_good E H c \<Longrightarrow> cache_good E H (hm_remove k c)"
  by (auto simp: cache_good_def hm_remove_def list_all_iff AList.delete_eq)

lemma rumour_message: "good_rumour E H m \<Longrightarrow> good_message E H m"
  by (simp add: good_message_def good_rumour_def)

definition gossip_good :: "env \<Rightarrow> 'm lhm \<Rightarrow> ledger \<Rightarrow> 'm gss \<Rightarrow> bool" where
  "gossip_good E L H = (\<lambda>(gs, t). table_good L H (kd_table (gs_kad gs)) \<and>
     good_sends E H (gs_to_transport_tx gs) \<and> good_rumours E H (gs_to_gossip_rx gs) \<and>
     cache_good E H (gs_cache gs) \<and> only_typed H (gs_to_app_tx gs) \<and> config_ok (gs_config gs) \<and>
     list_all (\<lambda>(a, k). good_kad E H k) (ch_queue (kd_from_transport (gs_kad gs))))"

lemma gossip_good_iff:
  "gossip_good E L H (gs, t) \<longleftrightarrow> table_good L H (kd_table (gs_kad gs)) \<and>
     good_sends E H (gs_to_transport_tx gs) \<and> good_rumours E H (gs_to_gossip_rx gs) \<and>
     cache_good E H (gs_cache gs) \<and> only_typed H (gs_to_app_tx gs) \<and> config_ok (gs_config gs) \<and>
     list_all (\<lambda>(a, k). good_kad E H k) (ch_queue (kd_from_transport (gs_kad gs)))"
  by (simp add: gossip_good_def)

context linked_hash_map begin

lemma safe_publish:
  assumes "few H" and "gen_range_ok E" and "good_message E H m"
  shows "safe (gossip_good E L H) (publish E L src m) returns"
proof (rule safeI)
  fix s :: "'m gss" assume s: "gossip_good E L H s"
  obtain gs t where st: "s = (gs, t)" by (cases s)
  have rt: "table_good L H (kd_table (gs_kad gs))" using s by (simp add: st gossip_good_iff)
  have "total_peers L (kd_table (gs_kad gs)) < 960"
    using table_total [OF rt assms(1)] by (simp add: MAX_BUCKET_LEN_def)
  from publish_ok [OF table_healthy [OF rt assms(1)] assms(2) this, of src m t] obtain as t' where
    "publish E L src m (gs, t) = (Inr (), (forwarded m as gs, t'))" by blast
  with s assms(3) show "\<exists>a s'. publish E L src m s = (Inr a, s') \<and> gossip_good E L H s' \<and> True"
    by (simp add: st gossip_good_iff) (simp add: forwarded_def good_sends_fold list_all_iff)
qed

lemma safe_clock: "safe (gossip_good E L H) (read_clock E') returns"
  unfolding read_clock_def
  by (intro safe_bind [OF safe_get [of _ returns]] safe_then [OF safe_modify] safe_ret)
    (auto simp: gossip_good_def)

lemma safe_remember:
  assumes "good_rumour E H m"
  shows "safe (gossip_good E L H) (remember E' k m) returns"
  unfolding remember_def
  by (intro safe_bind [OF safe_clock] safe_modify) (auto simp: gossip_good_def assms cache_good_insert)

lemma safe_gossip_handle:
  assumes "few H" and "gen_range_ok E" and "good_rumour E H m"
  shows "safe (gossip_good E L H) (gossip_handle_message E L src m) (\<lambda>r. case r of Some g \<Rightarrow> g \<in> lg_typed H | None \<Rightarrow> True)"
proof (cases "from_bytes (e_gossip E) (msg m)")
  case (Some g)
  with assms(3) have g: "g \<in> lg_typed H" by (simp add: good_rumour_def)
  then have app: "safe (gossip_good E L H) (act_modify (\<lambda>(gs, t). (gs\<lparr>gs_to_app_tx := chan_send g (gs_to_app_tx gs)\<rparr>, t))) returns"
    by (intro safe_modify) (auto simp: gossip_good_def)
  show ?thesis unfolding gossip_handle_message_def Some
    by (auto simp: Let_def g intro!: safe_bind [OF safe_get [of _ returns]] safe_if safe_ret
        safe_then [OF app] safe_then [OF safe_publish [OF assms(1,2) rumour_message [OF assms(3)]]]
        safe_then [OF safe_remember [OF assms(3)]])
qed (simp add: gossip_handle_message_def safe_ret)

lemma safe_gossip_recv:
  assumes "few H" and "gen_range_ok E" and "only_typed H tx"
  shows "safe (gossip_good E L H) (gossip_recv E L tx) (only_typed H)"
  unfolding gossip_recv_def
proof (rule safe_take [where R = "\<lambda>x. case x of Some (src, m) \<Rightarrow> good_rumour E H m | None \<Rightarrow> True"])
  fix x :: "(socket_addr \<times> message) option" assume "case x of Some (src, m) \<Rightarrow> good_rumour E H m | None \<Rightarrow> True"
  then show "safe (gossip_good E L H) (case x of
         None \<Rightarrow> act_ret tx
       | Some (src, m) \<Rightarrow>
           act_bind (gossip_handle_message E L src m) (\<lambda>r.
           case r of Some message \<Rightarrow> act_ret (chan_send message tx) | None \<Rightarrow> act_ret tx)) (only_typed H)"
    using assms(3)
    by (auto intro!: safe_ret safe_bind [OF safe_gossip_handle [OF assms(1,2)]] split: option.splits)
qed (auto simp: gossip_good_def good_rumours_def chan_try_recv_def split: list.splits)

text \<open>The heartbeat.\<close>

lemma safe_config: "safe (gossip_good E L H) (act_get (\<lambda>(gs, t). gs_config gs)) config_ok"
  by (rule safe_get) (auto simp: gossip_good_def)

lemma safe_duration:
  "config_ok c \<Longrightarrow> k \<in> {gc_history_gossip c, gc_history_len c, gc_check c} \<Longrightarrow>
   safe I (act_lift (dur_mul (gc_interval c) k)) returns"
  by (auto simp: config_ok_def dur_mul_ok intro: safe_lift)

lemma safe_gossip_entry:
  assumes "few H" and "gen_range_ok E" and "good_rumour E H m"
  shows "safe (gossip_good E L H) (gossip_entry E L now (k, m, e)) returns"
proof -
  have drop: "safe (gossip_good E L H) (act_modify (\<lambda>(gs, t). (gs\<lparr>gs_cache := hm_remove k (gs_cache gs)\<rparr>, t))) returns"
    by (rule safe_modify) (auto simp: gossip_good_def cache_good_remove)
  show ?thesis unfolding gossip_entry_def prod.case
    by (intro safe_bind [OF safe_config] safe_bind [OF safe_duration] safe_then [of _ _ returns] safe_if drop safe_ret)
      (auto intro: safe_ret safe_publish [OF assms(1,2) rumour_message [OF assms(3)]] split: option.split)
qed

lemma safe_heartbeat: "safe (gossip_good E L H) (heartbeat E') returns"
  unfolding heartbeat_def
  by (intro safe_bind [OF safe_clock] safe_bind [OF safe_get [of _ returns]] safe_if
      safe_then [OF safe_modify] safe_ret) (auto simp: gossip_good_def)

lemma safe_gossip:
  assumes "few H" and "gen_range_ok E"
  shows "safe (gossip_good E L H) (gossip E L) returns"
  unfolding gossip_def
proof (rule safe_bind [OF safe_clock], rule safe_bind [where R = "cache_good E H"])
  show "safe (gossip_good E L H) (act_get (\<lambda>(gs, t). gs_cache gs)) (cache_good E H)"
    by (rule safe_get) (auto simp: gossip_good_def)
next
  fix now cache_clone assume c: "cache_good E H cache_clone"
  have "safe (gossip_good E L H) (gossip_entry E L now x) returns"
    if "x \<in> set (hm_iter (\<lambda>k. e_ord_key E (inner k)) cache_clone)" for x
  proof -
    obtain k m e where x: "x = (k, m, e)" by (cases x)
    with c that have "good_rumour E H m" by (auto simp: cache_good_def list_all_iff)
    with x assms show ?thesis by (simp add: safe_gossip_entry)
  qed
  then show "safe (gossip_good E L H) (act_bind (heartbeat E) (\<lambda>due.
     if due
     then act_then (act_each (hm_iter (\<lambda>k. e_ord_key E (inner k)) cache_clone) (gossip_entry E L now))
         (act_bind (act_get (\<lambda>(gs, t). gs_config gs)) (\<lambda>config.
          act_bind (act_lift (dur_mul (gc_interval config) (gc_check config))) (\<lambda>ping_after.
          act_ret ())))
     else act_ret ())) returns"
    by (intro safe_bind [OF safe_heartbeat] safe_if safe_then [OF safe_each] safe_bind [OF safe_config]
        safe_bind [OF safe_duration] safe_ret) simp_all
qed

end

section \<open>The transport layer\<close>

text \<open>An entry of the outbox holds a good packet, and only true acknowledgements.\<close>

definition entry_good :: "env \<Rightarrow> ledger \<Rightarrow> inner_key \<Rightarrow> nat \<Rightarrow> entry \<Rightarrow> bool" where
  "entry_good E H i n = (\<lambda>(s, k, p, t). good_packet E H p \<and> (\<forall>a \<in> set k. (i, n, a) \<in> lg_received H))"

definition outbox_good :: "env \<Rightarrow> ledger \<Rightarrow> outbox \<Rightarrow> bool" where
  "outbox_good E H ob \<longleftrightarrow> ob_ok ob \<and>
     (\<forall>i n e. ob_get ob i n = Some e \<longrightarrow> entry_good E H i n e)"

definition sock_good :: "env \<Rightarrow> ledger \<Rightarrow> sock \<Rightarrow> bool" where
  "sock_good E H sk \<longleftrightarrow> sk_ttl_ok sk \<and> sk_clone_ok sk \<and> list_all (\<lambda>(b, a). good_datagram E H b) (sk_sent sk)"

definition gds_good :: "env \<Rightarrow> ledger \<Rightarrow> gds \<Rightarrow> bool" where
  "gds_good E H = (\<lambda>(g, sk). outbox_good E H (gd_outbox g) \<and> sock_good E H sk)"

definition transport_good :: "env \<Rightarrow> ledger \<Rightarrow> trs \<Rightarrow> bool" where
  "transport_good E H = (\<lambda>(tr, sk). outbox_good E H (gd_outbox (tr_gd_udp tr)) \<and> sock_good E H sk \<and>
     good_sends E H (om_rx tr) \<and> list_all (good_receipt H) (ch_queue (ia_rx tr)))"

lemma outbox_goodI:
  "ob_ok ob \<Longrightarrow> (\<And>i n e. ob_get ob i n = Some e \<Longrightarrow> entry_good E H i n e) \<Longrightarrow> outbox_good E H ob"
  unfolding outbox_good_def by blast

lemma outbox_goodD: "outbox_good E H ob \<Longrightarrow> ob_get ob i n = Some e \<Longrightarrow> entry_good E H i n e"
  unfolding outbox_good_def by blast

lemma outbox_good_ok: "outbox_good E H ob \<Longrightarrow> ob_ok ob"
  by (simp add: outbox_good_def)

lemma outbox_good_send: "outbox_good E H ob \<Longrightarrow> good_packet E H p \<Longrightarrow> outbox_good E H (record_send a p ob)"
proof (rule outbox_goodI)
  assume ob: "outbox_good E H ob" and p: "good_packet E H p"
  then show "ob_ok (record_send a p ob)" by (simp add: ob_ok_record_send outbox_good_ok)
  fix i n e assume "ob_get (record_send a p ob) i n = Some e"
  then show "entry_good E H i n e"
    using outbox_goodD [OF ob, of i n] p
    by (auto simp: ob_get_record_send sent_entry_def entry_good_def split: if_splits option.splits)
qed

lemma outbox_good_ack:
  "outbox_good E H ob \<Longrightarrow> (i, n, a) \<in> lg_received H \<Longrightarrow> outbox_good E H (record_ack i n a ob)"
proof (rule outbox_goodI)
  assume ob: "outbox_good E H ob" and a: "(i, n, a) \<in> lg_received H"
  from ob show "ob_ok (record_ack i n a ob)" by (simp add: ob_ok_record_ack outbox_good_ok)
  fix j m e assume "ob_get (record_ack i n a ob) j m = Some e"
  then show "entry_good E H j m e"
    using outbox_goodD [OF ob, of j m] a
    by (auto simp: ob_get_record_ack entry_good_def split: if_splits)
qed

lemma outbox_good_retain: "outbox_good E H ob \<Longrightarrow> outbox_good E H (retain_outbox ob)"
proof (rule outbox_goodI)
  assume ob: "outbox_good E H ob"
  then show "ob_ok (retain_outbox ob)" by (simp add: ob_ok_retain outbox_good_ok)
  fix i n e assume "ob_get (retain_outbox ob) i n = Some e"
  then show "entry_good E H i n e"
    using outbox_goodD [OF ob, of i n] by (simp add: ob_get_retain [OF outbox_good_ok [OF ob]] split: option.splits if_splits)
qed

lemma outbox_good_fold:
  "outbox_good E H ob \<Longrightarrow> list_all (good_packet E H) ps \<Longrightarrow> outbox_good E H (fold (record_send d) ps ob)"
  by (induction ps arbitrary: ob) (simp_all add: outbox_good_send)

context wire begin

lemma sock_good_datagram: "sock_good E H sk \<Longrightarrow> good_packet E H p \<Longrightarrow> sock_good E H (datagram E (a, p) sk)"
  using packet.dec_enc [of p]
  by (auto simp: sock_good_def datagram_def sock_send_def good_datagram_def split: option.split)

lemma sock_good_fold:
  "sock_good E H sk \<Longrightarrow> list_all (good_packet E H) ps \<Longrightarrow> sock_good E H (fold (datagram E) (to_dest d ps) sk)"
  by (induction ps arbitrary: sk) (simp_all add: to_dest_def sock_good_datagram)

lemma safe_send_reliable:
  assumes "good_packet E H p"
  shows "safe (gds_good E H) (send_reliable E a p) returns"
proof (rule safeI)
  fix st assume "gds_good E H st"
  moreover obtain g sk where st: "st = (g, sk)" by (cases st)
  ultimately have good: "outbox_good E H (gd_outbox g)" "sock_good E H sk" by (simp_all add: gds_good_def)
  then have "sk_ttl_ok sk" by (simp add: sock_good_def)
  moreover have "gds_good E H (send_state E (a, p) st)"
    using good assms by (simp add: st gds_good_def send_state_def outbox_good_send sock_good_datagram)
  ultimately show "\<exists>u st'. send_reliable E a p st = (Inr u, st') \<and> gds_good E H st' \<and> True"
    by (simp add: st send_reliable_ok)
qed

lemma safe_maintain: "safe (gds_good E H) (maintain E) returns"
  unfolding maintain_def act_each_resends
proof (rule safe_then [OF safe_modify], goal_cases)
  case (1 s)
  then show ?case by (auto simp: gds_good_def outbox_good_retain)
next
  case 2
  show ?case
  proof (rule safe_bind [where R = "outbox_good E H"])
    show "safe (gds_good E H) (act_get (\<lambda>(g, sk). gd_outbox g)) (outbox_good E H)"
      by (rule safe_get) (auto simp: gds_good_def)
    fix ob assume ob: "outbox_good E H ob"
    then have "good_packet E H p" if "(a, p) \<in> set (resends E ob)" for a p
      using in_resends [OF outbox_good_ok [OF ob] that] outbox_goodD [OF ob] by (fastforce simp: entry_good_def)
    then show "safe (gds_good E H) (act_each (resends E ob) (\<lambda>(peer, packet). send_reliable E peer packet)) returns"
      by (auto intro!: safe_each safe_send_reliable)
  qed
qed

lemma safe_check_time: "safe (transport_good E H) (check_time_elapsed E now now') returns"
proof -
  have "safe (gds_good E H) (gd_check_time_elapsed E now now') returns"
    unfolding gd_check_time_elapsed_def
  proof (rule safe_bind [where R = "\<lambda>(d, ok). ok"])
    show "safe (gds_good E H) (act_get (\<lambda>(g, sk). (now - gd_timer g, sk_clone_ok sk))) (\<lambda>(d, ok). ok)"
      by (rule safe_get) (auto simp: gds_good_def sock_good_def)
    fix x :: "nat \<times> bool" assume "case x of (d, ok) \<Rightarrow> ok"
    moreover have "safe (gds_good E H) (act_modify (\<lambda>(g, sk). (g\<lparr>gd_timer := now'\<rparr>, sk))) returns"
      by (rule safe_modify) (auto simp: gds_good_def)
    ultimately show "safe (gds_good E H) (case x of (time_elapsed, clone_ok) \<Rightarrow>
       if \<not> clone_ok then act_panic UnwrapErr
       else if MAINTENANCE \<le> time_elapsed
       then act_then (maintain E) (act_modify (\<lambda>(g, sk). (g\<lparr>gd_timer := now'\<rparr>, sk)))
       else act_ret ()) returns"
      by (cases x) (auto intro: safe_then [OF safe_maintain] safe_ret)
  qed
  then show ?thesis unfolding check_time_elapsed_def on_gd_def
    by (rule safe_zoom) (auto simp: gds_good_def transport_good_def)
qed

lemma incoming_ack_good:
  assumes "transport_good E H (tr, sk)"
  shows "\<exists>tr'. incoming_ack tr = (Inr (), tr') \<and> transport_good E H (tr', sk)"
  using assms
  by (auto simp: incoming_ack_def act_bind_apply act_then_apply act_apply act_zoom_apply chan_try_recv_def
      process_ack_def transport_good_def good_receipt_def outbox_good_ack split: list.splits option.splits)

text \<open>
  Sending a message: the ledger holds it under the id drawn for its packets, with the flag that
  says whether they ask for receipts.
\<close>

definition noted :: "ledger \<Rightarrow> inner_key \<Rightarrow> (socket_addr \<times> message) list \<Rightarrow> bool" where
  "noted H i q \<longleftrightarrow> (case q of [] \<Rightarrow> True
     | (src, m) # rest \<Rightarrow> lg_sent H i = Some (the (as_bytes (e_message E) m), if head m = Ack then 0 else 1))"

lemma packet_ids: "p \<in> set (packets_of E b i r) \<Longrightarrow> pkt_id p = i"
  by (auto simp: in_packets_of)

lemma outgoing_good:
  assumes "transport_good E H (tr, sk)" and "noted H (rand_arr (e_rand E) t) (ch_queue (om_rx tr))"
  shows "\<exists>st. outgoing_msg E t (tr, sk) = (Inr (), st) \<and> transport_good E H st"
proof (cases "ch_queue (om_rx tr)")
  case Nil
  with assms(1) show ?thesis by (simp add: outgoing_none)
next
  case (Cons x rest)
  obtain src m where x: "x = (src, m)" by (cases x)
  let ?i = "rand_arr (e_rand E) t" and ?b = "the (as_bytes (e_message E) m)"
  let ?r = "if head m = Ack then 0 else 1 :: u8"
  have b: "as_bytes (e_message E) m = Some ?b" by (rule message.enc_Some)
  have sent: "lg_sent H ?i = Some (?b, ?r)" using assms(2) by (simp add: noted_def Cons x)
  have good: "list_all (good_packet E H) (packets_of E ?b ?i ?r)"
    using sent packet_ids by (auto simp: list_all_iff good_packet_def)
  note tg = assms(1) [unfolded transport_good_def prod.case]
  show ?thesis
  proof (cases "head m = Ack")
    case True
    have "as_bytes (e_packet E) p \<noteq> None" for p by simp
    from outgoing_ack [OF _ True b this, of tr src rest t sk] Cons x
    show ?thesis using tg good True
      by (auto simp: transport_good_def good_sends_def sock_good_fold)
  next
    case False
    have "sk_ttl_ok sk" using tg by (simp add: sock_good_def)
    from outgoing_reliable [OF _ False this b, of tr src rest t] Cons x
    show ?thesis using tg good False
      by (auto simp: transport_good_def good_sends_def sock_good_fold outbox_good_fold)
  qed
qed

end

section \<open>The message handler\<close>

text \<open>What is collected under an id are packets of the message the id was drawn for.\<close>

definition pending_good :: "env \<Rightarrow> ledger \<Rightarrow> (inner_key, (nat, packet) hmap) hmap \<Rightarrow> bool" where
  "pending_good E H pend \<longleftrightarrow> (\<forall>i m. hm_get pend i = Some m \<longrightarrow> (\<exists>b r D. lg_sent H i = Some (b, r) \<and>
     D \<subseteq> set (packets_of E b i r) \<and> collected (packets_of E b i r) (Some m) D))"

definition handler_good :: "env \<Rightarrow> ledger \<Rightarrow> handler \<Rightarrow> bool" where
  "handler_good E H h \<longleftrightarrow> pending_good E H (pending h) \<and> good_sends E H (om_tx h) \<and>
     list_all (good_receipt H) (ch_queue (ia_tx h)) \<and> list_all (\<lambda>(a, k). good_kad E H k) (ch_queue (kad_tx h)) \<and>
     good_rumours E H (gossip_tx h)"

text \<open>
  What \<open>recv_from\<close> can return: an error, or a good datagram at the front of the buffer,
  whose packet is in the ledger as received at the local address.
\<close>

definition received :: "env \<Rightarrow> ledger \<Rightarrow> socket_addr \<Rightarrow> bytes \<Rightarrow> bool" where
  "received E H local b = (case from_bytes (e_packet E) b of
     Some p \<Rightarrow> good_packet E H p \<and> (pkt_id p, pkt_n p, local) \<in> lg_received H | None \<Rightarrow> True)"

definition good_arrival :: "env \<Rightarrow> ledger \<Rightarrow> socket_addr \<Rightarrow> (bytes \<times> nat \<times> socket_addr) option \<Rightarrow> bool" where
  "good_arrival E H local res = (case res of None \<Rightarrow> True
     | Some (buf, amt, src) \<Rightarrow> amt \<le> length buf \<and> received E H local (take amt buf))"

lemma handle_message_good:
  assumes "handler_good E H h" and "good_message E H m"
  shows "handler_good E H (handle_message E m src h)"
proof (cases "head m")
  case Ack
  with assms show ?thesis
    by (auto simp: handle_message_def handler_good_def good_message_def split: option.splits)
next
  case Gossip
  with assms show ?thesis
    by (auto simp: handle_message_def handler_good_def good_message_def)
qed (use assms in \<open>auto simp: handle_message_def handler_good_def good_message_def split: option.splits\<close>)

lemma deliver_good: "handler_good E H h \<Longrightarrow> good_bytes E H b \<Longrightarrow> handler_good E H (deliver E b src h)"
  by (auto simp: deliver_def good_bytes_def handle_message_good split: option.splits)

context wire begin

lemma safe_insert_packet:
  assumes "ledger_ok E H" and "good_packet E H p"
  shows "safe (handler_good E H) (insert_packet E p src) returns"
proof (rule safeI)
  fix h assume h: "handler_good E H h"
  let ?i = "pkt_id p"
  obtain b r where sent: "lg_sent H ?i = Some (b, r)" and p: "p \<in> set (packets_of E b ?i r)"
    using assms(2) by (auto simp: good_packet_def split: option.splits)
  let ?ps = "packets_of E b ?i r"
  have "\<exists>D. D \<subseteq> set ?ps \<and> collected ?ps (hm_get (pending h) ?i) D"
  proof (cases "hm_get (pending h) ?i")
    case None
    then show ?thesis by (intro exI [of _ "{}"]) (simp add: collected_def)
  next
    case (Some m)
    with h obtain b' r' D where "lg_sent H ?i = Some (b', r')" "D \<subseteq> set (packets_of E b' ?i r')"
      "collected (packets_of E b' ?i r') (Some m) D" unfolding handler_good_def pending_good_def by blast
    with sent Some show ?thesis by (intro exI [of _ D]) simp
  qed
  then obtain D where D: "D \<subseteq> set ?ps" "collected ?ps (hm_get (pending h) ?i) D" by blast
  from insert_packet_step [OF p D, of src] obtain pend where
    step: "insert_packet E p src h =
      (Inr (), (if insert p D = set ?ps then deliver E b src else id) (h\<lparr>pending := pend\<rparr>))"
    "collected ?ps (hm_get pend ?i) (insert p D)" "\<And>k. k \<noteq> ?i \<Longrightarrow> hm_get pend k = hm_get (pending h) k"
    by blast
  have "\<exists>b r D. lg_sent H k = Some (b, r) \<and> D \<subseteq> set (packets_of E b k r) \<and> collected (packets_of E b k r) (Some m) D"
    if m: "hm_get pend k = Some m" for k m
  proof (cases "k = ?i")
    case True
    have "insert p D \<subseteq> set ?ps" using D(1) p by simp
    with True m step(2) sent show ?thesis by (intro exI [of _ b] exI [of _ r] exI [of _ "insert p D"]) simp
  next
    case False
    with m step(3) h show ?thesis by (simp add: handler_good_def pending_good_def)
  qed
  then have "pending_good E H pend" unfolding pending_good_def by blast
  with h have "handler_good E H (h\<lparr>pending := pend\<rparr>)" by (simp add: handler_good_def)
  moreover have "good_bytes E H b" using assms(1) sent unfolding ledger_ok_def by blast
  ultimately show "\<exists>u h'. insert_packet E p src h = (Inr u, h') \<and> handler_good E H h' \<and> True"
    using step(1) deliver_good [of E H "h\<lparr>pending := pend\<rparr>" b src] by auto
qed

lemma safe_process_packet:
  assumes "amt \<le> length buf" and "received E H local (take amt buf)"
  shows "safe (handler_good E H) (process_packet E local buf amt src)
    (\<lambda>x. case x of Some p \<Rightarrow> good_packet E H p | None \<Rightarrow> True)"
proof -
  have slice: "slice buf 0 amt = Inr (take amt buf)" using assms(1) by (simp add: slice_def)
  have ack: "safe (handler_good E H) (act_modify (\<lambda>h. h\<lparr>om_tx := chan_send (src, \<lparr>head = Ack, msg =
      the (as_bytes (e_ack E) \<lparr>ack_packet_id = i, ack_packet_number = n, ack_src = str_bytes (addr_to_string local)\<rparr>)\<rparr>) (om_tx h)\<rparr>)) returns"
    if "(i, n, local) \<in> lg_received H" for i n
    by (rule safe_modify) (use that in \<open>auto simp: handler_good_def good_message_def good_receipt_def\<close>)
  show ?thesis
  proof (cases "from_bytes (e_packet E) (take amt buf)")
    case None
    then show ?thesis unfolding process_packet_def slice
      by (intro safe_bind [where R = "(=) (take amt buf)"]) (auto intro: safe_lift safe_ret)
  next
    case (Some p)
    with assms(2) have "good_packet E H p" "(pkt_id p, pkt_n p, local) \<in> lg_received H"
      by (simp_all add: received_def)
    with Some show ?thesis unfolding process_packet_def slice
      by (intro safe_bind [where R = "(=) (take amt buf)"])
        (auto intro!: safe_lift safe_then [of _ _ returns] safe_ret ack simp: ack.unwrap_enc Let_def)
  qed
qed

lemma safe_recv_msg:
  assumes "ledger_ok E H" and "good_arrival E H local res"
  shows "safe (handler_good E H) (recv_msg E res local) returns"
  using assms(2)
  by (auto simp: recv_msg_def good_arrival_def intro!: safe_ret safe_bind [OF safe_process_packet]
      safe_insert_packet [OF assms(1)] split: option.splits)

end

section \<open>Longer ledgers\<close>

lemma list_all_mono: "list_all P xs \<Longrightarrow> (\<And>x. P x \<Longrightarrow> Q x) \<Longrightarrow> list_all Q xs"
  by (simp add: list_all_iff)

lemma pending_good_mono [ledger_mono]: "ledger_le H H' \<Longrightarrow> pending_good E H x \<Longrightarrow> pending_good E H' x"
  unfolding pending_good_def ledger_le_def map_le_def by (metis domI)

lemma queues_mono [ledger_mono]:
  "ledger_le H H' \<Longrightarrow> good_sends E H c \<Longrightarrow> good_sends E H' c"
  "ledger_le H H' \<Longrightarrow> good_rumours E H c \<Longrightarrow> good_rumours E H' c"
  "ledger_le H H' \<Longrightarrow> cache_good E H k \<Longrightarrow> cache_good E H' k"
  "ledger_le H H' \<Longrightarrow> only_typed H g \<Longrightarrow> only_typed H' g"
  by (auto simp: good_sends_def good_rumours_def cache_good_def only_typed_def list_all_iff ledger_le_def
      intro: ledger_mono [unfolded ledger_le_def])

lemma sock_good_mono [ledger_mono]: "ledger_le H H' \<Longrightarrow> sock_good E H sk \<Longrightarrow> sock_good E H' sk"
  by (auto simp: sock_good_def intro: ledger_mono elim!: list_all_mono)

lemma outbox_good_mono [ledger_mono]: "ledger_le H H' \<Longrightarrow> outbox_good E H ob \<Longrightarrow> outbox_good E H' ob"
proof (rule outbox_goodI)
  assume le: "ledger_le H H'" and ob: "outbox_good E H ob"
  from ob show "ob_ok ob" by (rule outbox_good_ok)
  fix i n e assume "ob_get ob i n = Some e"
  from outbox_goodD [OF ob this] le show "entry_good E H' i n e"
    by (auto simp: entry_good_def intro: good_packet_mono) (auto simp: ledger_le_def)
qed

lemma transport_good_mono [ledger_mono]: "ledger_le H H' \<Longrightarrow> transport_good E H st \<Longrightarrow> transport_good E H' st"
  by (auto simp: transport_good_def intro: ledger_mono elim!: list_all_mono)

section \<open>Machines\<close>

text \<open>
  The nodes run the same code, with the same libraries, on machines of their own: each has its own
  random source, clock and iteration order of hash tables.
\<close>

record machine =
  mc_rand :: "nat \<Rightarrow> u8"
  mc_gen_range :: "nat \<Rightarrow> nat \<Rightarrow> nat"
  mc_now :: "nat \<Rightarrow> nat"
  mc_ord_key :: "inner_key \<Rightarrow> nat"
  mc_ord_n :: "nat \<Rightarrow> nat"
  mc_ord_addr :: "socket_addr \<Rightarrow> nat"
  mc_ord_prefix :: "string \<Rightarrow> nat"

definition on_machine :: "env \<Rightarrow> machine \<Rightarrow> env" where
  "on_machine E c = E\<lparr>e_rand := mc_rand c, e_gen_range := mc_gen_range c, e_now := mc_now c,
     e_ord_key := mc_ord_key c, e_ord_n := mc_ord_n c, e_ord_addr := mc_ord_addr c,
     e_ord_prefix := mc_ord_prefix c\<rparr>"

lemma on_machine_sel [simp]:
  "e_packet (on_machine E c) = e_packet E" "e_ack (on_machine E c) = e_ack E"
  "e_message (on_machine E c) = e_message E" "e_kad (on_machine E c) = e_kad E"
  "e_req (on_machine E c) = e_req E" "e_resp (on_machine E c) = e_resp E"
  "e_rpc (on_machine E c) = e_rpc E" "e_peer (on_machine E c) = e_peer E"
  "e_gossip (on_machine E c) = e_gossip E"
  "e_hex_encode (on_machine E c) = e_hex_encode E" "e_hex_decode (on_machine E c) = e_hex_decode E"
  by (simp_all add: on_machine_def)

lemma wire_on_machine [simp]: "wire (on_machine E c) = wire E"
  by (simp add: wire_def)

lemma packets_on_machine [simp]: "packets_of (on_machine E c) = packets_of E"
proof -
  have "packet_of (on_machine E c) = packet_of E" by (simp add: packet_of_def fun_eq_iff)
  then show ?thesis by (intro ext) (simp only: packets_of_def)
qed

text \<open>What good traffic is does not depend on the machine.\<close>

lemma good_on_machine [simp]:
  "good_peer (on_machine E c) = good_peer E" "sure_peer (on_machine E c) = sure_peer E"
  "good_rumour (on_machine E c) = good_rumour E" "good_packet (on_machine E c) = good_packet E"
  by (simp_all add: good_peer_def sure_peer_def good_rumour_def good_packet_def fun_eq_iff cong: option.case_cong kad_message.case_cong header.case_cong)

lemma good_messages_on_machine [simp]:
  "good_kad (on_machine E c) = good_kad E" "good_message (on_machine E c) = good_message E"
proof -
  have "good_call (on_machine E c) = good_call E" "good_result (on_machine E c) = good_result E"
    by (auto simp: good_call_def good_result_def fun_eq_iff split: rpc.split)
  then show "good_kad (on_machine E c) = good_kad E"
    by (simp add: good_kad_def good_req_def good_resp_def fun_eq_iff cong: option.case_cong kad_message.case_cong header.case_cong)
  then show "good_message (on_machine E c) = good_message E"
    by (simp add: good_message_def fun_eq_iff cong: option.case_cong kad_message.case_cong header.case_cong)
qed

lemma good_states_on_machine [simp]:
  "good_datagram (on_machine E c) = good_datagram E" "good_bytes (on_machine E c) = good_bytes E"
  "good_sends (on_machine E c) = good_sends E" "good_rumours (on_machine E c) = good_rumours E"
  "cache_good (on_machine E c) = cache_good E" "outbox_good (on_machine E c) = outbox_good E"
  "pending_good (on_machine E c) = pending_good E" "good_arrival (on_machine E c) = good_arrival E"
  by (simp_all add: good_datagram_def good_bytes_def good_sends_def good_rumours_def cache_good_def
      outbox_good_def entry_good_def pending_good_def good_arrival_def received_def fun_eq_iff
      cong: option.case_cong)

lemma invariants_on_machine [simp]:
  "sock_good (on_machine E c) = sock_good E" "transport_good (on_machine E c) = transport_good E"
  "handler_good (on_machine E c) = handler_good E" "kad_good (on_machine E c) L = kad_good E L"
  "gossip_good (on_machine E c) L = gossip_good E L" "ledger_ok (on_machine E c) = ledger_ok E"
proof -
  show s: "sock_good (on_machine E c) = sock_good E" by (simp add: sock_good_def fun_eq_iff cong: option.case_cong kad_message.case_cong header.case_cong)
  show "transport_good (on_machine E c) = transport_good E" by (simp add: transport_good_def s fun_eq_iff cong: option.case_cong kad_message.case_cong header.case_cong)
qed (simp_all add: handler_good_def kad_good_def gossip_good_def ledger_ok_def fun_eq_iff cong: option.case_cong kad_message.case_cong header.case_cong)

end
