(* ===== verification/Network.thy ===== *)
theory Network
  imports Node Traffic
begin

text \<open>
  Several nodes and the datagrams between them. A network is the nodes and the ledger of what
  they have sent; a step is one turn of one thread of one node. A datagram a node receives was
  sent by some node, to whomever, at any time before: datagrams may be lost, repeated, reordered
  and misdelivered, and their source address may be forged. A datagram that is no packet may also
  come from anywhere. The one assumption on chance is that an id drawn for the packets of a message
  was not drawn before, by any node.

  Proved: in a network of fewer than 30 nodes no thread of any node ever panics; the routing tables
  hold members of the network only; what a node shows was typed at one; and what a node takes for
  received was received.
\<close>

section \<open>Networks\<close>

record 'm network =
  nw_nodes :: "'m node list"
  nw_ledger :: ledger

text \<open>The id a transport thread is about to draw, and the message it will draw it for.\<close>

definition next_sent :: "env \<Rightarrow> 'm node \<Rightarrow> (inner_key \<times> bytes \<times> u8) option" where
  "next_sent E nd =
     (case (nd_transport_pc nd, ch_queue (om_rx (nd_transport nd))) of
        (OutgoingMsg, (src, m) # rest) \<Rightarrow>
          Some (rand_arr (e_rand E) (nd_tick nd), the (as_bytes (e_message E) m), if head m = Ack then 0 else 1)
      | _ \<Rightarrow> None)"

definition typed_message :: "env \<Rightarrow> 'm node \<Rightarrow> string \<Rightarrow> gossip_message" where
  "typed_message E nd line =
     \<lparr>gm_id = rand_arr (e_rand E) (nd_tick nd), gm_data = str_bytes (trim line), gm_sender = nd_addr nd\<rparr>"

text \<open>What an event adds to the ledger.\<close>

fun log_event :: "env \<Rightarrow> node_event \<Rightarrow> 'm node \<Rightarrow> ledger \<Rightarrow> ledger" where
  "log_event E TransportTurn nd H =
     (case next_sent E nd of Some (i, x) \<Rightarrow> H\<lparr>lg_sent := (lg_sent H)(i \<mapsto> x)\<rparr> | None \<Rightarrow> H)"
| "log_event E (Line (Some line)) nd H = H\<lparr>lg_typed := insert (typed_message E nd line) (lg_typed H)\<rparr>"
| "log_event E (Datagram (Some (buf, amt, src))) nd H =
     (case from_bytes (e_packet E) (take amt buf) of
        Some p \<Rightarrow> H\<lparr>lg_received := insert (pkt_id p, pkt_n p, gs_public_ip (nd_gossip nd)) (lg_received H)\<rparr>
      | None \<Rightarrow> H)"
| "log_event E e nd H = H"

fun fresh :: "env \<Rightarrow> node_event \<Rightarrow> 'm node \<Rightarrow> ledger \<Rightarrow> bool" where
  "fresh E TransportTurn nd H = (case next_sent E nd of Some (i, x) \<Rightarrow> lg_sent H i = None | None \<Rightarrow> True)"
| "fresh E e nd H = True"

definition in_the_air :: "'m node list \<Rightarrow> bytes \<Rightarrow> bool" where
  "in_the_air ns b \<longleftrightarrow> list_ex (\<lambda>nd. list_ex (\<lambda>(d, a). d = b) (sk_sent (nd_sock nd))) ns"

fun carried :: "env \<Rightarrow> 'm node list \<Rightarrow> node_event \<Rightarrow> bool" where
  "carried E ns (Datagram (Some (buf, amt, src))) =
     (amt \<le> length buf \<and> (in_the_air ns (take amt buf) \<or> from_bytes (e_packet E) (take amt buf) = None))"
| "carried E ns e = True"

definition net_turn :: "nat \<Rightarrow> env \<Rightarrow> (nat \<Rightarrow> machine) \<Rightarrow> 'm lhm \<Rightarrow> nat \<Rightarrow> node_event \<Rightarrow> 'm network \<Rightarrow> 'm network" where
  "net_turn d E mc L i e nw =
     (let nd = nw_nodes nw ! i in
      \<lparr>nw_nodes = (nw_nodes nw)[i := node_turn d (on_machine E (mc i)) L e nd],
       nw_ledger = log_event (on_machine E (mc i)) e nd (nw_ledger nw)\<rparr>)"

definition possible :: "env \<Rightarrow> (nat \<Rightarrow> machine) \<Rightarrow> nat \<Rightarrow> node_event \<Rightarrow> 'm network \<Rightarrow> bool" where
  "possible E mc i e nw \<longleftrightarrow> i < length (nw_nodes nw) \<and> enabled e (nw_nodes nw ! i) \<and>
     carried E (nw_nodes nw) e \<and> fresh (on_machine E (mc i)) e (nw_nodes nw ! i) (nw_ledger nw)"

inductive net_reachable ::
    "nat \<Rightarrow> env \<Rightarrow> (nat \<Rightarrow> machine) \<Rightarrow> 'm lhm \<Rightarrow> 'm network \<Rightarrow> 'm network \<Rightarrow> bool" for d E mc L nw where
  start: "net_reachable d E mc L nw nw"
| step: "net_reachable d E mc L nw nw' \<Longrightarrow> possible E mc i e nw' \<Longrightarrow>
    net_reachable d E mc L nw (net_turn d E mc L i e nw')"

text \<open>
  A network that has just been started: every node by \<open>node_new\<close>, with a socket whose
  options can be set, and a peer to dial whose address can be parsed, if any.
\<close>

definition dial_ok :: "string option \<Rightarrow> bool" where
  "dial_ok dial = (case dial of Some a \<Rightarrow> parse_addr a \<noteq> None | None \<Rightarrow> True)"

definition started :: "env \<Rightarrow> 'm lhm \<Rightarrow> 'm node \<Rightarrow> bool" where
  "started E L nd \<longleftrightarrow> (\<exists>digest_bytes factor t pub_ip sk dial.
     node_new E L digest_bytes factor t pub_ip (Some sk) dial = Inr nd \<and>
     sk_ttl_ok sk \<and> sk_sent sk = [] \<and> dial_ok dial)"

definition net_start :: "'m node list \<Rightarrow> 'm network" where
  "net_start ns = \<lparr>nw_nodes = ns,
     nw_ledger = \<lparr>lg_peers = nd_info ` set ns, lg_typed = {}, lg_sent = (\<lambda>_. None), lg_received = {}\<rparr>\<rparr>"

section \<open>The invariant of a node\<close>

definition all_up :: "'m node \<Rightarrow> bool" where
  "all_up nd \<longleftrightarrow> nd_main_up nd \<and> nd_transport_up nd \<and> nd_handler_up nd \<and> nd_input_up nd"

definition node_good :: "env \<Rightarrow> 'm lhm \<Rightarrow> ledger \<Rightarrow> 'm node \<Rightarrow> bool" where
  "node_good E L H nd \<longleftrightarrow> all_up nd \<and>
     transport_good E H (nd_transport nd, nd_sock nd) \<and> pending_good E H (pending (nd_handler nd)) \<and>
     table_good L H (kd_table (gs_kad (nd_gossip nd))) \<and>
     list_all (\<lambda>(a, k). good_kad E H k) (ch_queue (kd_from_transport (gs_kad (nd_gossip nd)))) \<and>
     good_rumours E H (gs_to_gossip_rx (nd_gossip nd)) \<and> cache_good E H (gs_cache (nd_gossip nd)) \<and>
     only_typed H (gs_to_app_tx (nd_gossip nd)) \<and> config_ok (gs_config (nd_gossip nd)) \<and>
     only_typed H (nd_chat nd) \<and> set (nd_screen nd) \<subseteq> lg_typed H \<and>
     nd_info nd \<in> lg_peers H \<and> dial_ok (nd_dial nd)"

lemma node_good_on_machine [simp]: "node_good (on_machine E c) L = node_good E L"
  by (simp add: node_good_def fun_eq_iff)

lemmas good_state_defs = transport_good_def handler_good_def kad_good_iff gossip_good_iff

lemma node_good_mono: "ledger_le H H' \<Longrightarrow> node_good E L H nd \<Longrightarrow> node_good E L H' nd"
  by (auto simp: node_good_def intro: ledger_mono elim!: list_all_mono)
    (auto simp: ledger_le_def)

lemma safe_on_handler: "safe (handler_good E H) m Q \<Longrightarrow> safe (node_good E L H) (on_handler m) Q"
  unfolding on_handler_def
  by (erule safe_zoom) (auto simp: node_good_def all_up_def good_state_defs view_defs)

lemma safe_on_kad: "safe (kad_good E L H) m Q \<Longrightarrow> safe (node_good E L H) (on_kad m) Q"
  unfolding on_kad_def
  by (erule safe_zoom) (auto simp: node_good_def all_up_def good_state_defs view_defs)

lemma safe_on_gossip: "safe (gossip_good E L H) m Q \<Longrightarrow> safe (node_good E L H) (on_gossip m) Q"
  unfolding on_gossip_def
  by (erule safe_zoom) (auto simp: node_good_def all_up_def good_state_defs view_defs)

section \<open>No turn of a good node panics\<close>

context wire begin

lemma on_machine_node: "linked_hash_map L \<Longrightarrow> kad_node (on_machine E c) L"
  by (simp add: kad_node_def wire_axioms)

lemma safe_dial:
  assumes "linked_hash_map L" and "few H"
  shows "safe (node_good E L H) (node_dial (on_machine E c) L) returns"
proof -
  let ?E = "on_machine E c"
  have boot: "safe (node_good E L H) (on_kad (bootstrap ?E L a)) returns" for a
    using kad_node.safe_bootstrap [OF on_machine_node [OF assms(1)] assms(2), of c a]
    by (simp add: safe_on_kad)
  have add: "safe (node_good E L H) (on_kad (add_peer ?E L b)) returns" if "sure_peer E H b" for b
    using kad_node.safe_add_peer [OF on_machine_node [OF assms(1)] assms(2), of c b] that
    by (simp add: safe_on_kad)
  show ?thesis unfolding node_dial_def
  proof (rule safe_bind [where R = "\<lambda>(dial, info). dial_ok dial \<and> info \<in> lg_peers H"])
    show "safe (node_good E L H) (act_get (\<lambda>nd. (nd_dial nd, nd_info nd))) (\<lambda>(dial, info). dial_ok dial \<and> info \<in> lg_peers H)"
      by (rule safe_get) (simp add: node_good_def)
    fix x :: "string option \<times> peer_info" assume x: "case x of (dial, info) \<Rightarrow> dial_ok dial \<and> info \<in> lg_peers H"
    obtain dial info where xx: "x = (dial, info)" by fastforce
    have "safe (node_good E L H) (case as_bytes (e_peer ?E) info of Some b \<Rightarrow> on_kad (add_peer ?E L b) | None \<Rightarrow> act_ret ()) returns"
      using x by (auto simp: xx sure_peer_def peer.dec_enc intro!: add safe_ret split: option.split)
    moreover have "safe (node_good E L H) (case dial of
          Some to_dial \<Rightarrow> act_bind (act_lift (unwrap_parse (parse_addr to_dial))) (\<lambda>addr. on_kad (bootstrap ?E L addr))
        | None \<Rightarrow> act_ret ()) returns"
      using x by (auto simp: xx dial_ok_def unwrap_parse_def intro!: safe_ret safe_bind [OF safe_lift [of returns]] boot
          split: option.splits)
    ultimately show "safe (node_good E L H) (case x of (dial, info) \<Rightarrow> act_then
       (case dial of
          Some to_dial \<Rightarrow> act_bind (act_lift (unwrap_parse (parse_addr to_dial))) (\<lambda>addr. on_kad (bootstrap ?E L addr))
        | None \<Rightarrow> act_ret ())
       (case as_bytes (e_peer ?E) info of
          Some b \<Rightarrow> on_kad (add_peer ?E L b)
        | None \<Rightarrow> act_ret ())) returns"
      by (simp add: xx safe_then)
  qed
qed

lemma safe_main_call:
  assumes "linked_hash_map L" and "few H" and "gen_range_ok (on_machine E c)"
  shows "safe (node_good E L H) (main_call_act (Suc d) (on_machine E c) L call) returns"
proof (cases call)
  case Dial
  then show ?thesis using safe_dial [OF assms(1,2)] by simp
next
  case KadRecv
  then show ?thesis
    using kad_node.safe_kad_recv [OF on_machine_node [OF assms(1)] assms(2), of c d]
    by (simp add: safe_on_kad)
next
  case GossipRecv
  have "safe (node_good E L H) (on_gossip (gossip_recv (on_machine E c) L tx)) (only_typed H)"
    if "only_typed H tx" for tx
    using linked_hash_map.safe_gossip_recv [OF assms that] by (simp add: safe_on_gossip)
  moreover have "safe (node_good E L H) (act_get nd_chat) (only_typed H)"
    by (rule safe_get) (simp add: node_good_def)
  moreover have "safe (node_good E L H) (act_modify (\<lambda>nd. nd\<lparr>nd_chat := tx\<rparr>)) returns" if "only_typed H tx" for tx
    by (rule safe_modify) (simp add: node_good_def all_up_def that)
  ultimately show ?thesis using GossipRecv by (auto intro: safe_bind)
next
  case GossipBeat
  then show ?thesis
    using linked_hash_map.safe_gossip [OF assms] by (simp add: safe_on_gossip)
qed

lemma main_turn_good:
  assumes "linked_hash_map L" and "few H" and "gen_range_ok (on_machine E c)" and "node_good E L H nd"
  shows "node_good E L H (main_turn (Suc d) (on_machine E c) L nd)"
proof -
  from safe_main_call [OF assms(1-3), of d "nd_main_pc nd"] assms(4) obtain nd' where
    "main_call_act (Suc d) (on_machine E c) L (nd_main_pc nd) nd = (Inr (), nd')" "node_good E L H nd'"
    by (rule safeE) simp
  then show ?thesis by (simp add: main_turn_def node_good_def all_up_def)
qed

lemma transport_turn_good:
  assumes "node_good E L H nd"
    and "case next_sent (on_machine E c) nd of Some (i, x) \<Rightarrow> lg_sent H i = Some x | None \<Rightarrow> True"
  shows "node_good E L H (transport_turn (on_machine E c) nd)"
proof -
  let ?E = "on_machine E c" and ?st = "(nd_transport nd, nd_sock nd)"
  have good: "transport_good E H ?st" using assms(1) by (simp add: node_good_def)
  have w: "wire ?E" by (simp add: wire_axioms)
  have "\<exists>st. transport_call_act ?E (nd_tick nd) (nd_transport_pc nd) ?st = (Inr (), st) \<and> transport_good E H st"
  proof (cases "nd_transport_pc nd")
    case IncomingAck
    with incoming_ack_good [OF good] show ?thesis by auto
  next
    case OutgoingMsg
    have "wire.noted ?E H (rand_arr (e_rand ?E) (nd_tick nd)) (ch_queue (om_rx (nd_transport nd)))"
      using assms(2) OutgoingMsg by (auto simp: wire.noted_def [OF w] next_sent_def split: list.split)
    from wire.outgoing_good [OF w _ this, of "nd_sock nd"] good OutgoingMsg show ?thesis by simp
  next
    case CheckTime
    have "safe (transport_good E H) (check_time_elapsed ?E (e_now ?E (nd_tick nd)) (e_now ?E (nd_tick nd + 1))) returns"
      using wire.safe_check_time [OF w, of H] by simp
    from this good show ?thesis by (rule safeE) (simp add: CheckTime)
  qed
  then obtain tr sk where "transport_call_act ?E (nd_tick nd) (nd_transport_pc nd) ?st = (Inr (), (tr, sk))"
    "transport_good E H (tr, sk)" by auto
  with assms(1) show ?thesis
    by (simp add: transport_turn_def on_transport_def act_zoom_apply node_good_def all_up_def)
qed

lemma handler_turn_good:
  assumes "ledger_ok E H" and "node_good E L H nd" and "good_arrival E H (gs_public_ip (nd_gossip nd)) res"
  shows "node_good E L H (handler_turn (on_machine E c) res nd)"
proof -
  have "wire (on_machine E c)" by (simp add: wire_axioms)
  from wire.safe_recv_msg [OF this, of H "get_pub_ip (nd_gossip nd)" res] assms(1,3)
  have "safe (node_good E L H) (on_handler (recv_msg (on_machine E c) res (get_pub_ip (nd_gossip nd)))) returns"
    by (simp add: safe_on_handler get_pub_ip_def)
  from this assms(2) show ?thesis by (rule safeE) (simp add: handler_turn_def)
qed

lemma input_turn_good:
  assumes "node_good E L H nd"
    and "case input of Some line \<Rightarrow> typed_message (on_machine E c) nd line \<in> lg_typed H | None \<Rightarrow> True"
  shows "node_good E L H (input_turn (on_machine E c) input nd)"
proof (cases input)
  case None
  with assms(1) show ?thesis by (simp add: input_turn_def node_input_def act_apply)
next
  case (Some line)
  let ?g = "typed_message (on_machine E c) nd line"
  have "good_rumour E H \<lparr>head = Gossip, msg = the (as_bytes (e_gossip E) ?g)\<rparr>"
    using assms(2) Some by (simp add: good_rumour_def)
  with assms(1) Some show ?thesis
    by (simp add: input_turn_def node_input_def act_bind_apply act_then_apply act_apply Let_def gossip.unwrap_enc
        message_key_rand_def typed_message_def node_good_def all_up_def)
qed

lemma show_turn_good: "node_good E L H nd \<Longrightarrow> node_good E L H (show_turn nd)"
  by (auto simp: show_turn_def chan_try_recv_def node_good_def all_up_def only_typed_def split: list.split)

end

section \<open>The invariant of a network\<close>

definition net_good :: "env \<Rightarrow> 'm lhm \<Rightarrow> 'm network \<Rightarrow> bool" where
  "net_good E L nw \<longleftrightarrow> ledger_ok E (nw_ledger nw) \<and> list_all (node_good E L (nw_ledger nw)) (nw_nodes nw)"

lemma log_event_le: "fresh E e nd H \<Longrightarrow> ledger_le H (log_event E e nd H)"
  by (cases "(E, e, nd, H)" rule: log_event.cases)
    (auto simp: ledger_le_def map_le_def split: option.split)

lemma air_good:
  assumes "net_good E L nw" and "in_the_air (nw_nodes nw) b"
  shows "good_datagram E (nw_ledger nw) b"
  using assms
  by (fastforce simp: net_good_def in_the_air_def list_ex_iff list_all_iff node_good_def transport_good_def
      sock_good_def)

lemma carried_good:
  assumes "net_good E L nw" and "carried E (nw_nodes nw) (Datagram res)"
    and "ledger_le (log_event E' (Datagram res) nd (nw_ledger nw)) H"
    and "ledger_le (nw_ledger nw) H" and "e_packet E' = e_packet E"
  shows "good_arrival E H (gs_public_ip (nd_gossip nd)) res"
proof (cases res)
  case (Some x)
  obtain buf amt src where x: "x = (buf, amt, src)" by (cases x)
  with assms Some have amt: "amt \<le> length buf" and good: "good_datagram E (nw_ledger nw) (take amt buf)"
    using air_good [OF assms(1), of "take amt buf"] by (auto, simp add: good_datagram_def)
  have "received E H (gs_public_ip (nd_gossip nd)) (take amt buf)"
    using good_datagram_mono [OF assms(4) good] assms(3,5) Some x
    by (auto simp: received_def good_datagram_def ledger_le_def split: option.splits)
  with Some x amt show ?thesis by (simp add: good_arrival_def)
qed (simp add: good_arrival_def)

lemma log_event_ok:
  assumes "wire E" and "ledger_ok E H" and "node_good E L H nd" and "fresh E e nd H"
  shows "ledger_ok E (log_event E e nd H)"
proof -
  let ?H = "log_event E e nd H"
  have le: "ledger_le H ?H" by (rule log_event_le [OF assms(4)])
  have few: "few ?H" using assms(2)
    by (cases "(E, e, nd, H)" rule: log_event.cases) (auto simp: few_def ledger_ok_def split: option.split)
  have "good_bytes E H b" if "lg_sent ?H i = Some (b, r)" for i b r
  proof (cases "lg_sent H i = Some (b, r)")
    case True
    with assms(2) show ?thesis unfolding ledger_ok_def by blast
  next
    case False
    with that obtain src m rest where "ch_queue (om_rx (nd_transport nd)) = (src, m) # rest"
      "b = the (as_bytes (e_message E) m)"
      by (cases "(E, e, nd, H)" rule: log_event.cases)
        (auto simp: next_sent_def split: option.splits transport_call.splits list.splits if_splits)
    moreover from this assms(3) have "good_message E H m"
      by (simp add: node_good_def transport_good_def good_sends_def)
    ultimately show ?thesis
      using codec.dec_the_enc [OF serde_codec, of "e_message E" m] assms(1) by (simp add: good_bytes_def wire_def)
  qed
  then have "good_bytes E ?H b" if "lg_sent ?H i = Some (b, r)" for i b r
    using that good_bytes_mono [OF le] by blast
  with few show ?thesis unfolding ledger_ok_def by blast
qed

lemma node_turn_good:
  assumes "wire E" and "linked_hash_map L" and "gen_range_ok (on_machine E c)" and "ledger_ok E H"
    and "node_good E L H nd" and "ledger_le (log_event (on_machine E c) e nd H0) H"
    and "case e of Datagram res \<Rightarrow> good_arrival E H (gs_public_ip (nd_gossip nd)) res | _ \<Rightarrow> True"
  shows "node_good E L H (node_turn (Suc d) (on_machine E c) L e nd)"
proof (cases e)
  case TransportTurn
  have "case next_sent (on_machine E c) nd of Some (i, x) \<Rightarrow> lg_sent H i = Some x | None \<Rightarrow> True"
    using assms(6) TransportTurn by (auto simp: ledger_le_def map_le_def split: option.splits)
  with wire.transport_turn_good [OF assms(1,5)] TransportTurn show ?thesis by simp
next
  case (Datagram res)
  with wire.handler_turn_good [OF assms(1,4,5)] assms(7) show ?thesis by simp
next
  case MainTurn
  have "few H" using assms(4) by (simp add: ledger_ok_def)
  from wire.main_turn_good [OF assms(1,2) this assms(3,5)] MainTurn show ?thesis by simp
next
  case (Line input)
  have "case input of Some line \<Rightarrow> typed_message (on_machine E c) nd line \<in> lg_typed H | None \<Rightarrow> True"
    using assms(6) Line by (auto simp: ledger_le_def split: option.split)
  with wire.input_turn_good [OF assms(1,5)] Line show ?thesis by simp
next
  case ShowTurn
  with wire.show_turn_good [OF assms(1,5)] show ?thesis by simp
qed

lemma net_turn_good:
  assumes "wire E" and "linked_hash_map L" and "\<And>i. gen_range_ok (on_machine E (mc i))"
    and "net_good E L nw" and "possible E mc i e nw"
  shows "net_good E L (net_turn (Suc d) E mc L i e nw)"
proof -
  let ?nd = "nw_nodes nw ! i" and ?E = "on_machine E (mc i)" and ?H = "nw_ledger nw"
  let ?H' = "log_event ?E e ?nd ?H"
  have i: "i < length (nw_nodes nw)" and fresh: "fresh ?E e ?nd ?H"
    using assms(5) by (simp_all add: possible_def)
  have ok: "ledger_ok E ?H" and nodes: "list_all (node_good E L ?H) (nw_nodes nw)"
    using assms(4) by (simp_all add: net_good_def)
  have le: "ledger_le ?H ?H'" by (rule log_event_le [OF fresh])
  have "node_good E L ?H ?nd" using nodes i by (simp add: list_all_length)
  then have nd': "node_good E L ?H' ?nd" and "node_good ?E L ?H ?nd"
    by (simp_all add: node_good_mono [OF le])
  with log_event_ok [of ?E ?H L ?nd e] fresh ok assms(1) have ok': "ledger_ok E ?H'" by simp
  have nodes': "list_all (node_good E L ?H') (nw_nodes nw)"
    using nodes by (rule list_all_mono) (rule node_good_mono [OF le])
  have arrival: "case e of Datagram res \<Rightarrow> good_arrival E ?H' (gs_public_ip (nd_gossip ?nd)) res | _ \<Rightarrow> True"
  proof (cases e)
    case (Datagram res)
    have "carried E (nw_nodes nw) (Datagram res)" using assms(5) Datagram by (simp add: possible_def)
    from carried_good [OF assms(4) this, of ?E ?nd ?H'] le Datagram show ?thesis by simp
  qed simp_all
  have "node_good E L ?H' (node_turn (Suc d) ?E L e ?nd)"
    by (rule node_turn_good [OF assms(1,2) assms(3) ok' nd' ledger_le_refl arrival])
  with nodes' i ok' show ?thesis
    by (auto simp: net_good_def net_turn_def Let_def list_all_length nth_list_update)
qed

lemma net_reachable_good:
  assumes "net_reachable (Suc d) E mc L nw nw'" and "wire E" and "linked_hash_map L"
    and "\<And>i. gen_range_ok (on_machine E (mc i))" and "net_good E L nw"
  shows "net_good E L nw'"
  using assms(1)
  by (induction rule: net_reachable.induct) (use assms in \<open>auto intro: net_turn_good\<close>)

text \<open>A started network is good.\<close>

lemma new_gossip_config_ok:
  "config_ok (gossip_config_new ''vrrb-0.1.0-test-net'' 8 3 8 3 12 3 factor 250000000 80)"
  by (simp add: config_ok_def gossip_config_new_def)

context linked_hash_map begin

lemma table_new_good:
  assumes "routing_table_new L now now' li = Inr rt" and "li \<in> lg_peers H"
  shows "table_good L H rt"
proof -
  have rt: "rt = \<lparr>tree = [(''0'', upsert L now' li (kbucket_new L now))], local_info = li\<rparr>"
    using assms(1) by (simp add: routing_table_new_eq)
  have "rt_peers L rt = {li}"
    by (auto simp: rt_peers_def rt hm_get_def nodes_upsert_new split: if_splits)
  moreover have "pi_id li \<in> known_ids L rt"
    unfolding known_ids_def rt by (auto simp: hm_get_def upsert_def kbucket_new_def Let_def)
  ultimately show ?thesis using table_new [OF assms(1)] assms(2) by (simp add: table_good_def)
qed

lemma started_good:
  assumes "started E L nd" and "nd_info nd \<in> lg_peers H"
  shows "node_good E L H nd"
proof -
  obtain digest_bytes factor t pub_ip sk dial where
    new: "node_new E L digest_bytes factor t pub_ip (Some sk) dial = Inr nd"
    and sk: "sk_ttl_ok sk" "sk_sent sk = []" "dial_ok dial"
    using assms(1) unfolding started_def by blast
  show ?thesis
    by (insert node_new_fields [OF new], elim exE conjE, frule table_new_good [where H = H])
      (use assms(2) sk new_gossip_config_ok in \<open>simp_all add: node_good_def all_up_def transport_good_def
        transport_new_def gd_udp_new_def outbox_good_def sock_good_def good_sends_def handler_new_def pending_good_def
        gossip_service_new_def kademlia_new_def good_rumours_def cache_good_def only_typed_def\<close>)
qed

end

lemma net_start_good:
  assumes "linked_hash_map L" and "list_all2 (\<lambda>i. started (on_machine E (mc i)) L) [0..<length ns] ns"
    and "length ns < MAX_BUCKET_LEN"
  shows "net_good E L (net_start ns)"
proof -
  let ?H = "nw_ledger (net_start ns)"
  have "card (nd_info ` set ns) < MAX_BUCKET_LEN"
    using card_image_le [OF finite_set, of nd_info ns] card_length [of ns] assms(3) by linarith
  then have "ledger_ok E ?H" by (simp add: ledger_ok_def few_def net_start_def)
  moreover have "node_good E L ?H (ns ! i)" if i: "i < length ns" for i
  proof -
    have "started (on_machine E (mc i)) L (ns ! i)" using list_all2_nthD [OF assms(2), of i] i by simp
    moreover have "nd_info (ns ! i) \<in> lg_peers ?H" using i by (simp add: net_start_def)
    ultimately show ?thesis using linked_hash_map.started_good [OF assms(1)] by fastforce
  qed
  ultimately show ?thesis by (simp add: net_good_def list_all_length) (simp add: net_start_def)
qed

lemma net_run_good:
  assumes "wire E" and "linked_hash_map L" and "\<And>i. gen_range_ok (on_machine E (mc i))"
    and "list_all2 (\<lambda>i. started (on_machine E (mc i)) L) [0..<length ns] ns"
    and "length ns < MAX_BUCKET_LEN" and "net_reachable (Suc d) E mc L (net_start ns) nw"
  shows "net_good E L nw"
  using net_reachable_good [OF assms(6,1-3) net_start_good [OF assms(2,4,5)]] .

lemma net_run_node:
  assumes "wire E" and "linked_hash_map L" and "\<And>i. gen_range_ok (on_machine E (mc i))"
    and "list_all2 (\<lambda>i. started (on_machine E (mc i)) L) [0..<length ns] ns" and "length ns < 30"
    and "net_reachable (Suc d) E mc L (net_start ns) nw" and "nd \<in> set (nw_nodes nw)"
  shows "node_good E L (nw_ledger nw) nd \<and> few (nw_ledger nw)"
  using net_run_good [OF assms(1-4) _ assms(6)] assms(5,7)
  by (simp add: MAX_BUCKET_LEN_def net_good_def list_all_iff ledger_ok_def)

lemma log_event_peers: "lg_peers (log_event E e nd H) = lg_peers H"
  by (cases "(E, e, nd, H)" rule: log_event.cases) (auto split: option.split)

lemma net_reachable_peers:
  "net_reachable d E mc L nw nw' \<Longrightarrow> lg_peers (nw_ledger nw') = lg_peers (nw_ledger nw)"
  by (induction rule: net_reachable.induct) (simp_all add: net_turn_def Let_def log_event_peers)

section \<open>Properties\<close>

text \<open>
  C1: in a network of fewer than 30 nodes that run this program, each started on a
  machine of its own, no thread of any node ever panics: whatever the threads' interleaving,
  whatever is typed, however the datagrams are lost, repeated, reordered, misdelivered or
  disguised, and whatever datagrams arrive that are no packets.
\<close>

theorem network_safe:
  assumes "wire E" and "linked_hash_map L" and "\<And>i. gen_range_ok (on_machine E (mc i))"
    and "list_all2 (\<lambda>i. started (on_machine E (mc i)) L) [0..<length ns] ns" and "length ns < 30"
    and "net_reachable (Suc d) E mc L (net_start ns) nw"
  shows "list_all all_up (nw_nodes nw)"
  using net_run_node [OF assms] by (simp add: list_all_iff node_good_def)

text \<open>
  C6: in such a network every message that a node shows, or holds for its
  application, was typed at a node of the network: it has the id, the text and the address that
  node gave it.
\<close>

theorem shown_was_typed:
  assumes "wire E" and "linked_hash_map L" and "\<And>i. gen_range_ok (on_machine E (mc i))"
    and "list_all2 (\<lambda>i. started (on_machine E (mc i)) L) [0..<length ns] ns" and "length ns < 30"
    and "net_reachable (Suc d) E mc L (net_start ns) nw" and "nd \<in> set (nw_nodes nw)"
  shows "set (nd_screen nd) \<union> set (ch_queue (nd_chat nd)) \<union> set (ch_queue (gs_to_app_tx (nd_gossip nd))) \<subseteq>
    lg_typed (nw_ledger nw)"
  using net_run_node [OF assms] by (auto simp: node_good_def only_typed_def list_all_iff)

text \<open>
  C8: in such a network the routing table of every node holds nodes of the network
  only, as they were started, and fewer than 30 of them; no bucket ever fills up.
\<close>

theorem members_only:
  assumes "wire E" and "linked_hash_map L" and "\<And>i. gen_range_ok (on_machine E (mc i))"
    and "list_all2 (\<lambda>i. started (on_machine E (mc i)) L) [0..<length ns] ns" and "length ns < 30"
    and "net_reachable (Suc d) E mc L (net_start ns) nw" and "nd \<in> set (nw_nodes nw)"
  shows "set (get_all_peers E L (kd_table (gs_kad (nd_gossip nd)))) \<subseteq> nd_info ` set ns \<and>
    total_peers L (kd_table (gs_kad (nd_gossip nd))) < 30"
proof -
  let ?rt = "kd_table (gs_kad (nd_gossip nd))" and ?H = "nw_ledger nw"
  have good: "table_good L ?H ?rt" "few ?H" using net_run_node [OF assms] by (simp_all add: node_good_def)
  have "lg_peers ?H = nd_info ` set ns"
    using net_reachable_peers [OF assms(6)] by (simp add: net_start_def)
  with good linked_hash_map.table_total [OF assms(2) good] linked_hash_map.in_all_rt_peers [OF assms(2)]
  show ?thesis by (simp add: table_good_def MAX_BUCKET_LEN_def)
qed

text \<open>The receipts an outbox has noted: packet, number and the peer that is taken to have it.\<close>

definition noted_receipts :: "outbox \<Rightarrow> (inner_key \<times> nat \<times> socket_addr) set" where
  "noted_receipts ob = {(i, n, a). \<exists>s k p t. ob_get ob i n = Some (s, k, p, t) \<and> a \<in> set k}"

text \<open>
  C7: in such a network no node takes a packet for received that was not: every
  receipt in the outbox of a node names a packet, by its id and its number, that reached a node
  whose public address is the one in the receipt.
\<close>

theorem receipts_are_true:
  assumes "wire E" and "linked_hash_map L" and "\<And>i. gen_range_ok (on_machine E (mc i))"
    and "list_all2 (\<lambda>i. started (on_machine E (mc i)) L) [0..<length ns] ns" and "length ns < 30"
    and "net_reachable (Suc d) E mc L (net_start ns) nw" and "nd \<in> set (nw_nodes nw)"
  shows "noted_receipts (gd_outbox (tr_gd_udp (nd_transport nd))) \<subseteq> lg_received (nw_ledger nw)"
proof -
  have "outbox_good E (nw_ledger nw) (gd_outbox (tr_gd_udp (nd_transport nd)))"
    using net_run_node [OF assms] by (simp add: node_good_def transport_good_def)
  from outbox_goodD [OF this] show ?thesis by (fastforce simp: noted_receipts_def entry_good_def)
qed

section \<open>Concrete instances\<close>

definition demo_machine :: machine where
  "demo_machine = \<lparr>mc_rand = word_of_nat, mc_gen_range = (\<lambda>t n. t mod n), mc_now = (\<lambda>t. t),
     mc_ord_key = (\<lambda>_. 0), mc_ord_n = (\<lambda>n. n), mc_ord_addr = (\<lambda>_. 0), mc_ord_prefix = length\<rparr>"

lemma demo_on_machine [simp]: "on_machine ref_env demo_machine = ref_env"
  by (simp add: on_machine_def demo_machine_def ref_env_def)

text \<open>Two nodes, the second of which dials the first.\<close>

definition demo_member :: "ipv4 \<Rightarrow> nat \<Rightarrow> string option \<Rightarrow> (peer_id, peer_info) alist node" where
  "demo_member ip t dial =
     (case node_new ref_env lru (\<lambda>b. map char_of_byte b) (\<lambda>n. 4 * n div 10) t (Some ip) (Some demo_sock) dial of
        Inr nd \<Rightarrow> nd)"

lemma demo_member_new:
  "node_new ref_env lru (\<lambda>b. map char_of_byte b) (\<lambda>n. 4 * n div 10) t (Some ip) (Some demo_sock) dial = Inr (demo_member ip t dial)"
proof -
  have "t mod 10000 < 10000" by simp
  then have "9292 + t mod 10000 < 65536" by linarith
  then show ?thesis
    by (simp add: demo_member_def node_new_def parse_format_addr peer_info_new_def lru.routing_table_new_eq Let_def
      unwrap_parse_def demo_sock_def ref_env_def unat_of_nat take_bit_nat_eq_self)
qed

lemma demo_member_started: "dial_ok dial \<Longrightarrow> started ref_env lru (demo_member ip t dial)"
  unfolding started_def
  by (rule exI, rule exI, rule exI, rule exI, rule exI, rule exI, rule conjI, rule demo_member_new)
    (simp add: demo_sock_def)

lemma demo_member_up: "dial_ok dial \<Longrightarrow> all_up (demo_member ip t dial)"
  using lru.started_good [OF demo_member_started, of dial ip t
      "\<lparr>lg_peers = {nd_info (demo_member ip t dial)}, lg_typed = {}, lg_sent = (\<lambda>_. None), lg_received = {}\<rparr>"]
  by (simp add: node_good_def)

definition demo_dial :: "string option" where
  "demo_dial = Some (addr_to_string (SocketAddrV4 (Ipv4 10 0 0 9) 9292))"

definition demo_members :: "(peer_id, peer_info) alist node list" where
  "demo_members = [demo_member (Ipv4 10 0 0 9) 0 None, demo_member (Ipv4 10 0 0 8) 1000 demo_dial]"

lemma demo_dial_ok: "dial_ok demo_dial" "dial_ok None"
  by (simp_all add: dial_ok_def demo_dial_def)

lemma demo_started:
  "list_all2 (\<lambda>i. started (on_machine ref_env demo_machine) lru) [0..<length demo_members] demo_members"
  using demo_member_started demo_dial_ok by (simp add: demo_members_def upt_conv_Cons)

lemma demo_gen_range_machine: "gen_range_ok (on_machine ref_env demo_machine)"
  by (simp add: demo_gen_range)

text \<open>The network once the second node has dialled.\<close>

definition demo_net :: "(peer_id, peer_info) alist network" where
  "demo_net = net_turn 1 ref_env (\<lambda>_. demo_machine) lru 1 MainTurn (net_start demo_members)"

lemma demo_net_reachable: "net_reachable (Suc 0) ref_env (\<lambda>_. demo_machine) lru (net_start demo_members) demo_net"
proof -
  have "possible ref_env (\<lambda>_. demo_machine) 1 MainTurn (net_start demo_members)"
    using demo_member_up [OF demo_dial_ok(1)]
    by (simp add: possible_def net_start_def demo_members_def all_up_def)
  from net_reachable.step [OF net_reachable.start this] show ?thesis by (simp add: demo_net_def)
qed

lemma demo_net_member: "nw_nodes demo_net ! 1 \<in> set (nw_nodes demo_net)"
  by (rule nth_mem) (simp add: demo_net_def net_turn_def net_start_def demo_members_def Let_def)

lemmas demo_net_facts = ref.wire_axioms lru.linked_hash_map_axioms demo_gen_range_machine demo_started

theorem network_safe_witness:
  "net_reachable 1 ref_env (\<lambda>_. demo_machine) lru (net_start demo_members) demo_net \<and>
   list_all all_up (nw_nodes demo_net)"
  using network_safe [OF demo_net_facts _ demo_net_reachable] demo_net_reachable
  by (simp add: demo_members_def)

theorem members_only_witness:
  "\<exists>nd \<in> set (nw_nodes demo_net).
     set (get_all_peers ref_env lru (kd_table (gs_kad (nd_gossip nd)))) \<subseteq> nd_info ` set demo_members"
  using members_only [OF demo_net_facts _ demo_net_reachable demo_net_member] demo_net_member
  by (intro bexI [of _ "nw_nodes demo_net ! 1"]) (simp_all add: demo_members_def)

end
