(* ===== verification/Chat.thy ===== *)
theory Chat
  imports Network
begin

text \<open>
  The chat program end to end (\<open>examples/chat.rs\<close>): from the line typed at one node to
  the screen of another. Proved: the transport thread works off its queue; a line typed at a node
  can be put on the wire for each of the peers it knows, and its datagrams, in any order, make the
  peer show the line; once its cache entry has expired they make the peer show it again; and a node
  that knows no other peer gossips to itself.
\<close>

section \<open>The transport thread works off its queue\<close>

text \<open>A socket none of whose calls fails, and a node whose transport thread has a queue to send.\<close>

definition working :: "sock \<Rightarrow> bool" where
  "working sk \<longleftrightarrow> sk_ttl_ok sk \<and> sk_clone_ok sk \<and> sk_send_ok sk = (\<lambda>b a. True)"

definition sendable :: "(socket_addr \<times> message) list \<Rightarrow> 'm node \<Rightarrow> bool" where
  "sendable q nd \<longleftrightarrow> nd_main_up nd \<and> nd_transport_up nd \<and>
     ch_queue (om_rx (nd_transport nd)) = q \<and> ch_queue (ia_rx (nd_transport nd)) = [] \<and>
     working (nd_sock nd)"

lemma fold_datagram_flags:
  "sk_ttl_ok (fold (datagram E) L sk) = sk_ttl_ok sk"
  "sk_clone_ok (fold (datagram E) L sk) = sk_clone_ok sk"
  "sk_send_ok (fold (datagram E) L sk) = sk_send_ok sk"
  by (induction L arbitrary: sk) simp_all

lemma fold_datagram_working [simp]: "working (fold (datagram E) L sk) = working sk"
  by (simp add: working_def fold_datagram_flags)

lemma check_time_ok:
  assumes "working sk"
  shows "\<exists>tr' sk'. check_time_elapsed E now now' (tr, sk) = (Inr (), (tr', sk')) \<and>
    om_rx tr' = om_rx tr \<and> ia_rx tr' = ia_rx tr \<and> working sk'"
  using assms
  by (auto simp: check_time_elapsed_def on_gd_apply gd_check_time_elapsed_def act_bind_apply act_then_apply act_apply
      maintain_ok Let_def working_def fold_datagram_flags)

text \<open>What the turns of the transport thread leave alone.\<close>

definition only_transport :: "'m node \<Rightarrow> 'm node \<Rightarrow> bool" where
  "only_transport nd nd' \<longleftrightarrow> (\<exists>tr sk pc t. nd' = nd\<lparr>nd_transport := tr, nd_sock := sk, nd_tick := t, nd_transport_pc := pc\<rparr> \<and>
     gd_addr (tr_gd_udp tr) = gd_addr (tr_gd_udp (nd_transport nd)))"

lemma only_transportI:
  "gd_addr (tr_gd_udp tr) = gd_addr (tr_gd_udp (nd_transport nd)) \<Longrightarrow>
   only_transport nd (nd\<lparr>nd_transport := tr, nd_sock := sk, nd_tick := t, nd_transport_pc := pc\<rparr>)"
  unfolding only_transport_def by blast

interpretation otf: frame only_transport
proof
  show "only_transport nd nd" for nd :: "'m node"
    using only_transportI [where tr = "nd_transport nd" and nd = nd and sk = "nd_sock nd" and pc = "nd_transport_pc nd" and t = "nd_tick nd"] by simp
  fix nd nd' nd'' :: "'m node"
  assume "only_transport nd nd'" "only_transport nd' nd''"
  then obtain tr sk pc t tr' sk' pc' t' where
    "nd' = nd\<lparr>nd_transport := tr, nd_sock := sk, nd_tick := t, nd_transport_pc := pc\<rparr>"
    "nd'' = nd'\<lparr>nd_transport := tr', nd_sock := sk', nd_tick := t', nd_transport_pc := pc'\<rparr>"
    "gd_addr (tr_gd_udp tr') = gd_addr (tr_gd_udp (nd_transport nd))"
    unfolding only_transport_def by auto
  with only_transportI [where tr = tr' and nd = nd and sk = sk' and pc = pc' and t = t'] show "only_transport nd nd''" by simp
qed

lemma only_transportD:
  assumes "only_transport nd nd'"
  shows "nd_gossip nd' = nd_gossip nd" "nd_handler nd' = nd_handler nd" "nd_main_up nd' = nd_main_up nd"
    "nd_main_pc nd' = nd_main_pc nd" "nd_handler_up nd' = nd_handler_up nd" "nd_info nd' = nd_info nd"
    "gd_addr (tr_gd_udp (nd_transport nd')) = gd_addr (tr_gd_udp (nd_transport nd))"
  using assms by (auto simp: only_transport_def)

text \<open>One call, and what a call on a waiting message sends.\<close>

lemma transport_call_ok:
  assumes "wire E" and "sendable q nd"
  shows "\<exists>tr sk. transport_call_act E t (nd_transport_pc nd) (nd_transport nd, nd_sock nd) = (Inr (), (tr, sk)) \<and>
    ch_queue (om_rx tr) = (if nd_transport_pc nd = OutgoingMsg then tl q else q) \<and> ch_queue (ia_rx tr) = [] \<and>
    working sk"
proof -
  let ?tr = "nd_transport nd" and ?sk = "nd_sock nd"
  note sd = assms(2) [unfolded sendable_def]
  show ?thesis
  proof (cases "nd_transport_pc nd")
    case IncomingAck
    with sd show ?thesis
      by (simp add: incoming_ack_def act_bind_apply act_then_apply act_apply chan_try_recv_def)
  next
    case CheckTime
    with sd check_time_ok [of ?sk E "e_now E t" "e_now E (t + 1)" ?tr] show ?thesis by auto
  next
    case OutgoingMsg
    show ?thesis
    proof (cases q)
      case Nil
      with sd OutgoingMsg outgoing_none [of ?tr E t ?sk] show ?thesis by simp
    next
      case (Cons x rest)
      obtain a m where x: "x = (a, m)" by (cases x)
      obtain b where b: "as_bytes (e_message E) m = Some b"
        using codec.round_trip [OF serde_codec, of "e_message E" m] assms(1) by (auto simp: wire_def)
      have enc: "as_bytes (e_packet E) p \<noteq> None" for p by (rule packet_encodes [OF assms(1)])
      have q: "ch_queue (om_rx ?tr) = (a, m) # rest" using sd Cons x by simp
      show ?thesis
      proof (cases "head m = Ack")
        case True
        from outgoing_ack [OF q True b enc, of t ?sk] sd OutgoingMsg Cons show ?thesis
          by simp
      next
        case False
        have "sk_ttl_ok ?sk" using sd by (simp add: working_def)
        from outgoing_reliable [OF q False this b, of t] sd OutgoingMsg Cons show ?thesis
          by simp
      qed
    qed
  qed
qed

lemma transport_turn_sendable:
  assumes "wire E" and "sendable q nd"
  shows "sendable (if nd_transport_pc nd = OutgoingMsg then tl q else q) (transport_turn E nd)"
    and "nd_transport_pc (transport_turn E nd) = next_transport_call (nd_transport_pc nd)"
    and "only_transport nd (transport_turn E nd)"
proof -
  obtain tr sk where c: "transport_call_act E (nd_tick nd) (nd_transport_pc nd) (nd_transport nd, nd_sock nd) = (Inr (), (tr, sk))"
    "ch_queue (om_rx tr) = (if nd_transport_pc nd = OutgoingMsg then tl q else q)" "ch_queue (ia_rx tr) = []"
    "working sk"
    using transport_call_ok [OF assms] by blast
  have t: "transport_turn E nd = nd\<lparr>nd_transport := tr, nd_sock := sk, nd_tick := nd_tick nd + 32,
      nd_transport_pc := next_transport_call (nd_transport_pc nd)\<rparr>"
    using c(1) by (simp add: transport_turn_def on_transport_def act_zoom_apply)
  show "sendable (if nd_transport_pc nd = OutgoingMsg then tl q else q) (transport_turn E nd)"
    using c(2-) assms(2) by (simp add: t sendable_def)
  show "nd_transport_pc (transport_turn E nd) = next_transport_call (nd_transport_pc nd)" by (simp add: t)
  have "tr_keeps (nd_transport nd, nd_sock nd) (tr, sk)"
    by (rule framedD [OF framed_transport_call c(1)])
  then show "only_transport nd (transport_turn E nd)" 
    using only_transportI [where tr = tr and nd = nd and sk = sk and pc = "next_transport_call (nd_transport_pc nd)" and t = "nd_tick nd + 32"]
    by (simp add: t tr_keeps_def)
qed

lemma transport_turn_sends:
  assumes "wire E" and "sendable ((a, m) # rest) nd" and "nd_transport_pc nd = OutgoingMsg" and "head m \<noteq> Ack"
    and "as_bytes (e_message E) m = Some b"
  shows "set (encoded E (dest_of (gd_addr (tr_gd_udp (nd_transport nd))) a)
      (packets_of E b (rand_arr (e_rand E) (nd_tick nd)) 1)) \<subseteq> set (sk_sent (nd_sock (transport_turn E nd)))"
proof -
  have enc: "as_bytes (e_packet E) p \<noteq> None" for p by (rule packet_encodes [OF assms(1)])
  note sd = assms(2) [unfolded sendable_def]
  from outgoing_reliable [OF _ assms(4) _ assms(5), of "nd_transport nd" a rest "nd_sock nd" "nd_tick nd"] sd
  show ?thesis
    using fold_datagram_sent [OF enc, of "nd_sock nd"] assms(3)
    by (auto simp: working_def transport_turn_def on_transport_def act_zoom_apply)
qed

text \<open>Every waiting message gets on the wire.\<close>

lemma enabled_transport: "sendable q nd \<Longrightarrow> enabled TransportTurn nd"
  by (simp add: sendable_def)

lemma transport_runs:
  "runs d E L (replicate m TransportTurn) nd nd' \<Longrightarrow> runs d E L (replicate n TransportTurn) nd' nd'' \<Longrightarrow>
   runs d E L (replicate (m + n) TransportTurn) nd nd''"
  by (auto simp: replicate_add runs_append)

lemma transport_turn_tick [simp]: "nd_tick (transport_turn E nd) = nd_tick nd + 32"
  by (auto simp: transport_turn_def on_transport_def act_zoom_apply drop_transport_def split: prod.split sum.split)

lemma reach_outgoing:
  assumes "wire E" and "sendable q nd"
  shows "\<exists>k nd'. k \<le> 2 \<and> runs d E L (replicate k TransportTurn) nd nd' \<and> sendable q nd' \<and>
    nd_transport_pc nd' = OutgoingMsg \<and> only_transport nd nd'"
proof -
  have one: "runs d E L [TransportTurn] nd (transport_turn E nd) \<and> sendable q (transport_turn E nd) \<and>
      nd_transport_pc (transport_turn E nd) = next_transport_call (nd_transport_pc nd) \<and>
      only_transport nd (transport_turn E nd)"
    if "sendable q nd" "nd_transport_pc nd \<noteq> OutgoingMsg" for nd :: "'a node"
    using transport_turn_sendable [OF assms(1) that(1)] that(2) enabled_transport [OF that(1)] by simp
  consider "nd_transport_pc nd = OutgoingMsg" | "nd_transport_pc nd = IncomingAck" | "nd_transport_pc nd = CheckTime"
    by (cases "nd_transport_pc nd")
  then show ?thesis
  proof cases
    case 1
    with assms(2) show ?thesis by (intro exI [of _ 0] exI [of _ nd]) (simp add: otf.frame_refl)
  next
    case 2
    with one [OF assms(2)] show ?thesis by (intro exI [of _ "Suc 0"] exI [of _ "transport_turn E nd"]) simp
  next
    case 3
    with one [OF assms(2)] one [of "transport_turn E nd"]
    show ?thesis by (intro exI [of _ "Suc (Suc 0)"] exI [of _ "transport_turn E (transport_turn E nd)"])
      (auto intro: otf.frame_trans)
  qed
qed

lemma queue_flushed:
  assumes "wire E" and "sendable q nd" and "(a, m) \<in> set q" and "head m \<noteq> Ack"
    and "as_bytes (e_message E) m = Some b"
  shows "\<exists>k nd' t q'. k \<le> 3 * length q \<and> runs d E L (replicate k TransportTurn) nd nd' \<and> only_transport nd nd' \<and> sendable q' nd' \<and>
    set (encoded E (dest_of (gd_addr (tr_gd_udp (nd_transport nd))) a)
      (packets_of E b (rand_arr (e_rand E) t) 1)) \<subseteq> set (sk_sent (nd_sock nd'))"
  using assms(2,3)
proof (induction q arbitrary: nd)
  case (Cons x q)
  obtain k nd1 where k: "k \<le> 2" and nd1: "runs d E L (replicate k TransportTurn) nd nd1" "sendable (x # q) nd1"
    "nd_transport_pc nd1 = OutgoingMsg" "only_transport nd nd1"
    using reach_outgoing [OF assms(1) Cons.prems(1)] by blast
  have turn: "runs d E L (replicate (k + 1) TransportTurn) nd (transport_turn E nd1)"
    by (rule transport_runs [OF nd1(1)]) (use enabled_transport [OF nd1(2)] in simp)
  note after = transport_turn_sendable [OF assms(1) nd1(2), simplified nd1(3), simplified]
  have only: "only_transport nd (transport_turn E nd1)" by (rule otf.frame_trans [OF nd1(4) after(3)])
  show ?case
  proof (cases "x = (a, m)")
    case True
    from transport_turn_sends [OF assms(1) nd1(2) [unfolded True] nd1(3) assms(4,5)] turn after(1) only
      only_transportD(7) [OF nd1(4)] k
    show ?thesis
      by (intro exI [of _ "k + 1"] exI [of _ "transport_turn E nd1"] exI [of _ "nd_tick nd1"] exI [of _ q]) simp
  next
    case False
    with Cons.prems(2) have "(a, m) \<in> set q" by simp
    from Cons.IH [OF after(1) this] obtain n nd' t q' where "n \<le> 3 * length q" "runs d E L (replicate n TransportTurn) (transport_turn E nd1) nd'"
      "only_transport (transport_turn E nd1) nd'" "sendable q' nd'"
      "set (encoded E (dest_of (gd_addr (tr_gd_udp (nd_transport nd))) a)
        (packets_of E b (rand_arr (e_rand E) t) 1)) \<subseteq> set (sk_sent (nd_sock nd'))"
      using only_transportD(7) [OF only] by auto
    with k transport_runs [OF turn, of n nd'] otf.frame_trans [OF only, of nd'] show ?thesis
      by (intro exI [of _ "k + 1 + n"] exI [of _ nd'] exI [of _ t] exI [of _ q']) simp
  qed
qed simp

text \<open>The datagrams of a message of the queue, as they are on the wire.\<close>

lemma message_sent:
  assumes "wire E" and "sendable q nd" and "(a, m) \<in> set q" and "head m \<noteq> Ack"
  shows "\<exists>k nd' q' b i. k \<le> 3 * length q \<and> runs d E L (replicate k TransportTurn) nd nd' \<and>
    only_transport nd nd' \<and> sendable q' nd' \<and> as_bytes (e_message E) m = Some b \<and>
    (\<forall>p \<in> set (packets_of E b i 1). (the (as_bytes (e_packet E) p),
       dest_of (gd_addr (tr_gd_udp (nd_transport nd))) a) \<in> set (sk_sent (nd_sock nd')))"
proof -
  obtain b where b: "as_bytes (e_message E) m = Some b"
    using codec.round_trip [OF serde_codec, of "e_message E" m] assms(1) by (auto simp: wire_def)
  from queue_flushed [OF assms this, of d L] obtain k nd' t q' where "k \<le> 3 * length q" "runs d E L (replicate k TransportTurn) nd nd'"
    "only_transport nd nd'" "sendable q' nd'"
    "set (encoded E (dest_of (gd_addr (tr_gd_udp (nd_transport nd))) a)
      (packets_of E b (rand_arr (e_rand E) t) 1)) \<subseteq> set (sk_sent (nd_sock nd'))" by blast
  with b show ?thesis
    by (intro exI [of _ k] exI [of _ nd'] exI [of _ q'] exI [of _ b] exI [of _ "rand_arr (e_rand E) t"]) (auto simp: encoded_def)
qed

text \<open>A node that has joined the network and waits for rumours.\<close>

definition listening :: "env \<Rightarrow> 'm lhm \<Rightarrow> 'm node \<Rightarrow> bool" where
  "listening E L nd \<longleftrightarrow> node_ok E L nd \<and> healthy L (Suc 0) (kd_table (gs_kad (nd_gossip nd))) \<and>
     nd_main_up nd \<and> nd_handler_up nd \<and> nd_input_up nd \<and> nd_main_pc nd = GossipRecv \<and>
     ch_queue (gs_to_gossip_rx (nd_gossip nd)) = []"

text \<open>The datagrams of a rumour, in any order, and the turns that take it up and print it.\<close>

lemma rumour_printed:
  fixes E :: env
  assumes "wire E" and "linked_hash_map L" and "gen_range_ok E" and "listening E L nd"
    and "hm_get (pending (nd_handler nd)) i = None" and "src \<noteq> nd_addr nd" and "ch_queue (nd_chat nd) = []"
    and "\<not> hm_contains (gs_cache (nd_gossip nd)) (from_inner (gm_id g))"
    and "as_bytes (e_gossip E) g = Some gb" and "as_bytes (e_message E) \<lparr>head = Gossip, msg = gb\<rparr> = Some b"
    and "mset ds = mset (map (\<lambda>p. the (as_bytes (e_packet E) p)) (packets_of E b i 1))"
  shows "\<exists>nd'. runs d E L (map (\<lambda>b. Datagram (arrival src [] b)) ds @ [MainTurn, ShowTurn]) nd nd' \<and>
    nd_screen nd' = nd_screen nd @ [g]"
proof -
  obtain nd1 where nd1: "runs d E L (map (\<lambda>b. Datagram (arrival src [] b)) ds @ [MainTurn]) nd nd1"
    "nd_main_up nd1" "nd_main_pc nd1 = GossipBeat" "nd_screen nd1 = nd_screen nd" "ch_queue (nd_chat nd1) = [g]"
    using rumour_runs [OF assms(1,2) _ assms(3) _ _ _ _ _ assms(5,6,8-11), of 0 d] assms(4,7)
    by (auto simp: listening_def)
  have "runs d E L [ShowTurn] nd1 (show_turn nd1)" "nd_screen (show_turn nd1) = nd_screen nd @ [g]"
    using nd1(2-) by (simp_all add: show_turn_def chan_try_recv_def)
  with nd1(1) have "runs d E L ((map (\<lambda>b. Datagram (arrival src [] b)) ds @ [MainTurn]) @ [ShowTurn]) nd (show_turn nd1)"
    unfolding runs_append by blast
  with \<open>nd_screen (show_turn nd1) = nd_screen nd @ [g]\<close> show ?thesis by auto
qed

section \<open>A rumour that is forgotten\<close>

text \<open>The heartbeat after the history has passed drops the rumour from the cache.\<close>

lemma forgetting_turn:
  assumes "linked_hash_map L" and "nd_main_pc nd = GossipBeat" and "healthy L (Suc n) (kd_table (gs_kad (nd_gossip nd)))"
    and "gen_range_ok E" and "config_ok (gs_config (nd_gossip nd))" and "hm_wf (gs_cache (nd_gossip nd))"
    and "gc_interval (gs_config (nd_gossip nd)) < e_now E (nd_tick nd + 1) - gs_heartbeat (nd_gossip nd)"
    and "\<And>m e. hm_get (gs_cache (nd_gossip nd)) k = Some (m, e) \<Longrightarrow>
      gc_interval (gs_config (nd_gossip nd)) * gc_history_len (gs_config (nd_gossip nd)) < e_now E (nd_tick nd) - e"
  shows "\<exists>gs t. main_turn d E L nd = (put_gossip (gs, t) nd)\<lparr>nd_main_pc := KadRecv\<rparr> \<and>
    \<not> hm_contains (gs_cache gs) k \<and> gs_kad gs = gs_kad (nd_gossip nd) \<and>
    gs_to_gossip_rx gs = gs_to_gossip_rx (nd_gossip nd)"
proof -
  let ?gs = "(nd_gossip nd)\<lparr>gs_to_transport_tx := om_rx (nd_transport nd)\<rparr>"
  let ?es = "hm_iter (\<lambda>k. e_ord_key E (inner k)) (gs_cache ?gs)"
  let ?c = "fold (drop_expired (gc_interval (gs_config ?gs) * gc_history_len (gs_config ?gs)) (e_now E (nd_tick nd))) ?es
    (gs_cache ?gs)"
  obtain outs t where g: "gossip E L (?gs, nd_tick nd) = (Inr (), (with_cache ?c
      (queued (concat outs) (?gs\<lparr>gs_heartbeat := e_now E (nd_tick nd + 1)\<rparr>)), t))" (is "_ = (_, (?gs', t))")
    using linked_hash_map.gossip_ok [OF assms(1), of n ?gs E "nd_tick nd"] assms(3-5,7) by auto
  have "hm_get ?c k = None"
    using hm_entries [OF assms(6), of k _ "\<lambda>k. e_ord_key E (inner k)"] assms(8)
    by (cases "hm_get (gs_cache (nd_gossip nd)) k") (auto simp: fold_drop_expired)
  then have "\<not> hm_contains (gs_cache ?gs') k" "gs_kad ?gs' = gs_kad (nd_gossip nd)"
    "gs_to_gossip_rx ?gs' = gs_to_gossip_rx (nd_gossip nd)"
    by (simp_all add: with_cache_def queued_def not_contains)
  moreover have "main_turn d E L nd = (put_gossip (?gs', t) nd)\<lparr>nd_main_pc := KadRecv\<rparr>"
    using g assms(2) by (simp add: main_turn_def on_gossip_def act_zoom_apply gossip_view_def)
  ultimately show ?thesis by (intro exI [of _ ?gs'] exI [of _ t] conjI)
qed

lemma idle_kad_turn:
  assumes "nd_main_pc nd = KadRecv" and "ch_queue (kd_from_transport (gs_kad (nd_gossip nd))) = []"
  shows "main_turn d E L nd = (put_kad (kad_view (nd\<lparr>nd_tick := nd_tick nd + 1\<rparr>)) nd)\<lparr>nd_main_pc := GossipRecv\<rparr>"
proof -
  have "kad_recv d E L (kad_view nd) = (Inr (), kad_view (nd\<lparr>nd_tick := nd_tick nd + 1\<rparr>))"
    using assms(2) by (simp add: kad_recv_def kad_view_def act_bind_apply act_then_apply act_apply chan_try_recv_def)
  with assms(1) show ?thesis by (simp add: main_turn_def on_kad_def act_zoom_apply)
qed

lemma idle_gossip_turn:
  assumes "nd_main_pc nd = GossipRecv" and "ch_queue (gs_to_gossip_rx (nd_gossip nd)) = []"
  shows "main_turn d E L nd = (put_gossip (gossip_view nd) nd)\<lparr>nd_main_pc := GossipBeat\<rparr>"
proof -
  have "gossip_recv E L (nd_chat nd) (gossip_view nd) = (Inr (nd_chat nd), gossip_view nd)"
    using assms(2) by (simp add: gossip_recv_def gossip_view_def act_bind_apply act_then_apply act_apply chan_try_recv_def)
  with assms(1) show ?thesis by (simp add: main_turn_def on_gossip_def act_zoom_apply act_bind_apply act_apply put_gossip_def case_prod_unfold)
qed

text \<open>A round of the main loop without messages, in which the heartbeat drops the rumour.\<close>

lemma forgetting_round:
  fixes nd :: "'m node"
  assumes "linked_hash_map L" and "listening E L nd" and "gen_range_ok E" and "config_ok (gs_config (nd_gossip nd))"
    and "kd_from_transport (gs_kad (nd_gossip nd)) = chan_new"
    and "gc_interval (gs_config (nd_gossip nd)) < e_now E (nd_tick nd + 1) - gs_heartbeat (nd_gossip nd)"
    and "hm_get (gs_cache (nd_gossip nd)) k = Some (m, e)"
    and "gc_interval (gs_config (nd_gossip nd)) * gc_history_len (gs_config (nd_gossip nd)) < e_now E (nd_tick nd) - e"
  shows "\<exists>nd'. runs d E L [MainTurn, MainTurn, MainTurn] nd nd' \<and> listening E L nd' \<and>
    \<not> hm_contains (gs_cache (nd_gossip nd')) k \<and> nd_handler nd' = nd_handler nd \<and> nd_chat nd' = nd_chat nd \<and>
    nd_screen nd' = nd_screen nd \<and> nd_addr nd' = nd_addr nd"
proof -
  note ls = assms(2) [unfolded listening_def]
  have ok: "node_ok E L (main_turn d E L x)" if "node_ok E L x" for x
    using linked_hash_map.node_turn_ok [OF assms(1) that, of d MainTurn] by simp
  obtain nd1 nd2 nd3 where turns: "main_turn d E L nd = nd1" "main_turn d E L nd1 = nd2" "main_turn d E L nd2 = nd3"
    by simp
  have nd1: "nd1 = (put_gossip (gossip_view nd) nd)\<lparr>nd_main_pc := GossipBeat\<rparr>"
    using idle_gossip_turn [of nd d E L] ls turns by simp
  have wf: "hm_wf (gs_cache (nd_gossip nd))" using ls by (simp add: node_ok_def cache_ok_def)
  have "\<exists>gs t. main_turn d E L nd1 = (put_gossip (gs, t) nd1)\<lparr>nd_main_pc := KadRecv\<rparr> \<and>
    \<not> hm_contains (gs_cache gs) k \<and> gs_kad gs = gs_kad (nd_gossip nd1) \<and>
    gs_to_gossip_rx gs = gs_to_gossip_rx (nd_gossip nd1)"
    by (rule forgetting_turn [OF assms(1) _ _ assms(3), where n = 0])
      (use ls wf assms(4,6-8) in \<open>simp_all add: nd1 gossip_view_def\<close>)
  then obtain gs t where nd2: "nd2 = (put_gossip (gs, t) nd1)\<lparr>nd_main_pc := KadRecv\<rparr>"
    and gs: "\<not> hm_contains (gs_cache gs) k" "gs_kad gs = gs_kad (nd_gossip nd)"
      "gs_to_gossip_rx gs = gs_to_gossip_rx (nd_gossip nd)"
    unfolding turns by (auto simp: nd1 gossip_view_def)
  have nd3: "nd3 = (put_kad (kad_view (nd2\<lparr>nd_tick := nd_tick nd2 + 1\<rparr>)) nd2)\<lparr>nd_main_pc := GossipRecv\<rparr>"
    using idle_kad_turn [of nd2 d E L] gs(2) assms(5) unfolding turns by (simp add: nd2 chan_new_def)
  have "node_ok E L nd3" using ls ok turns by metis
  moreover have "nd_main_up nd1" "nd_main_up nd2" "nd_main_up nd3" "nd_handler_up nd3" "nd_input_up nd3"
    "nd_main_pc nd3 = GossipRecv" "nd_handler nd3 = nd_handler nd" "nd_chat nd3 = nd_chat nd"
    "nd_screen nd3 = nd_screen nd" "nd_addr nd3 = nd_addr nd"
    using ls by (simp_all add: nd3 put_kad_def kad_view_def nd2 nd1 put_gossip_def gossip_view_def)
  moreover have "gs_cache (nd_gossip nd3) = gs_cache gs" "kd_table (gs_kad (nd_gossip nd3)) = kd_table (gs_kad (nd_gossip nd))"
    "gs_to_gossip_rx (nd_gossip nd3) = gs_to_gossip_rx (nd_gossip nd)"
    using gs by (simp_all add: nd3 put_kad_def kad_view_def nd2)
  ultimately show ?thesis using ls gs(1) turns by (intro exI [of _ nd3]) (simp add: listening_def)
qed

section \<open>A line on the wire\<close>

lemma line_on_wire:
  fixes E :: env and A :: "'m node" and line :: string
  defines "g \<equiv> typed_message E A line"
  assumes "wire E" and "linked_hash_map L" and "gen_range_ok E" and "listening E L A" and "sendable q A"
    and "config_ok (gs_config (nd_gossip A))" and "total_peers L (kd_table (gs_kad (nd_gossip A))) \<le> 7"
    and "p \<in> set (get_all_peers E L (kd_table (gs_kad (nd_gossip A))))" and "pi_address p \<noteq> nd_addr A"
    and "\<not> hm_contains (gs_cache (nd_gossip A)) (from_inner (gm_id g))"
    and "e_now E (nd_tick A + 33) - e_now E (nd_tick A + 32) <
      gc_interval (gs_config (nd_gossip A)) * gc_history_gossip (gs_config (nd_gossip A))"
    and "gc_interval (gs_config (nd_gossip A)) < e_now E (nd_tick A + 34) - gs_heartbeat (nd_gossip A)"
  shows "\<exists>A1 k A2 gb b i. runs d E L [Line (Some line), MainTurn, MainTurn] A A1 \<and> nd_tick A1 = nd_tick A + 35 \<and>
    runs d E L (replicate k TransportTurn) A1 A2 \<and>
    k \<le> 3 * (length q + 7 * Suc (length (gs_cache (nd_gossip A)))) \<and>
    as_bytes (e_gossip E) g = Some gb \<and> as_bytes (e_message E) \<lparr>head = Gossip, msg = gb\<rparr> = Some b \<and>
    (\<forall>x \<in> set (packets_of E b i 1). (the (as_bytes (e_packet E) x),
      dest_of (pi_address (nd_info A)) (pi_address p)) \<in> set (sk_sent (nd_sock A2)))"
proof -
  note sd = assms(6) [unfolded sendable_def] and lA = assms(5) [unfolded listening_def]
  obtain gs t' as gb where run: "runs d E L [Line (Some line), MainTurn, MainTurn] A ((put_gossip (gs, t') A)\<lparr>nd_main_pc := KadRecv\<rparr>)"
      (is "runs d E L _ A ?A1")
    and gb: "as_bytes (e_gossip E) g = Some gb" and fair: "fair_choice E L (nd_addr A) (nd_gossip A) as"
    and queue: "\<forall>a \<in> set as. (a, \<lparr>head = Gossip, msg = gb\<rparr>) \<in> set (ch_queue (gs_to_transport_tx gs))"
    and small: "t' = nd_tick A + 35" "length (ch_queue (gs_to_transport_tx gs)) \<le> length q + 7 * Suc (length (gs_cache (nd_gossip A)))"
    using line_queued [OF assms(2,3) _ assms(4), of A 0 line d] lA sd assms(7,8,11-13)
    unfolding g_def typed_message_def by auto
  have "gs_address (nd_gossip A) = nd_addr A" and addr: "gd_addr (tr_gd_udp (nd_transport A)) = pi_address (nd_info A)"
    using lA by (simp_all add: node_ok_def)
  with fair assms(8-10) have "pi_address p \<in> set as" by (auto simp: fair_choice_def Let_def)
  with queue have q: "(pi_address p, \<lparr>head = Gossip, msg = gb\<rparr>) \<in> set (ch_queue (gs_to_transport_tx gs))"
    (is "(_, ?m) \<in> _") by blast
  have "sendable (ch_queue (gs_to_transport_tx gs)) ?A1" using sd by (simp add: sendable_def)
  then obtain k A' q' b i where A': "runs d E L (replicate k TransportTurn) ?A1 A'" "k \<le> 3 * length (ch_queue (gs_to_transport_tx gs))"
    and b: "as_bytes (e_message E) ?m = Some b"
    and sent: "\<forall>x \<in> set (packets_of E b i 1). (the (as_bytes (e_packet E) x),
      dest_of (pi_address (nd_info A)) (pi_address p)) \<in> set (sk_sent (nd_sock A'))"
    using message_sent [OF assms(2) _ q, of ?A1 d L] addr by auto
  with run gb small show ?thesis
    by (intro exI [of _ ?A1] exI [of _ k] exI [of _ A'] exI [of _ gb] exI [of _ b] exI [of _ i]) (simp del: runs.simps)
qed

section \<open>Properties\<close>

text \<open>
  C3: a line typed at a node reaches the screen of any peer whose address it knows, when it knows
  at most seven: once it is typed, two turns of the main thread and some of the transport thread
  put on the wire, to that peer (over the loopback interface when both have one host), datagrams
  that in every order of arrival make the peer print exactly that line, under the id and the
  address of the node.
\<close>

theorem typed_line_shown:
  fixes E :: env and line :: string and A B :: "'m node" and ca cb :: machine
  defines "EA \<equiv> on_machine E ca" and "EB \<equiv> on_machine E cb"
  assumes "wire E" and "linked_hash_map L" and "gen_range_ok EA" and "gen_range_ok EB"
    and "listening EA L A" and "listening EB L B" and "sendable q A" and "config_ok (gs_config (nd_gossip A))"
    and "total_peers L (kd_table (gs_kad (nd_gossip A))) \<le> 7"
    and "nd_info B \<in> set (get_all_peers EA L (kd_table (gs_kad (nd_gossip A))))" and "pi_address (nd_info B) \<noteq> nd_addr A"
    and "\<not> hm_contains (gs_cache (nd_gossip A)) (from_inner (gm_id (typed_message EA A line)))"
    and "e_now EA (nd_tick A + 33) - e_now EA (nd_tick A + 32) <
      gc_interval (gs_config (nd_gossip A)) * gc_history_gossip (gs_config (nd_gossip A))"
    and "gc_interval (gs_config (nd_gossip A)) < e_now EA (nd_tick A + 34) - gs_heartbeat (nd_gossip A)"
    and "pending (nd_handler B) = []" and "ch_queue (nd_chat B) = []" and "src \<noteq> nd_addr B"
    and "\<not> hm_contains (gs_cache (nd_gossip B)) (from_inner (gm_id (typed_message EA A line)))"
  shows "\<exists>k A' ds. runs d EA L ([Line (Some line), MainTurn, MainTurn] @ replicate k TransportTurn) A A' \<and> ds \<noteq> [] \<and>
    (\<forall>b \<in> set ds. (b, dest_of (pi_address (nd_info A)) (pi_address (nd_info B))) \<in> set (sk_sent (nd_sock A'))) \<and>
    (\<forall>es. mset es = mset ds \<longrightarrow> (\<exists>B'.
       runs d EB L (map (\<lambda>b. Datagram (arrival src [] b)) es @ [MainTurn, ShowTurn]) B B' \<and>
       nd_screen B' = nd_screen B @ [typed_message EA A line]))"
proof -
  let ?g = "typed_message EA A line"
  have wA: "wire EA" and wB: "wire EB" using assms(3) by (simp_all add: EA_def EB_def)
  obtain A1 k A' gb b i where run: "runs d EA L [Line (Some line), MainTurn, MainTurn] A A1"
    and A': "runs d EA L (replicate k TransportTurn) A1 A'" and gb: "as_bytes (e_gossip EA) ?g = Some gb"
    and b: "as_bytes (e_message EA) \<lparr>head = Gossip, msg = gb\<rparr> = Some b" (is "as_bytes _ ?m = _")
    and sent: "\<forall>p \<in> set (packets_of EA b i 1). (the (as_bytes (e_packet EA) p),
      dest_of (pi_address (nd_info A)) (pi_address (nd_info B))) \<in> set (sk_sent (nd_sock A'))"
    using line_on_wire [OF wA assms(4,5,7,9-16)] by blast
  let ?ps = "packets_of E b i 1"
  let ?ds = "map (\<lambda>p. the (as_bytes (e_packet E) p)) ?ps"
  have "?ds \<noteq> []" using packet_count_pos [of "length b"] by (auto simp flip: length_0_conv)
  moreover have "\<forall>x \<in> set ?ds. (x, dest_of (pi_address (nd_info A)) (pi_address (nd_info B))) \<in> set (sk_sent (nd_sock A'))"
    using sent by (simp add: EA_def)
  moreover have "\<exists>B'. runs d EB L (map (\<lambda>b. Datagram (arrival src [] b)) es @ [MainTurn, ShowTurn]) B B' \<and>
       nd_screen B' = nd_screen B @ [?g]" if es: "mset es = mset ?ds" for es
  proof -
    have "as_bytes (e_gossip EB) ?g = Some gb" "as_bytes (e_message EB) ?m = Some b"
      "mset es = mset (map (\<lambda>p. the (as_bytes (e_packet EB) p)) (packets_of EB b i 1))"
      using gb b es by (simp_all add: EA_def EB_def)
    from rumour_printed [OF wB assms(4,6,8) _ assms(19,18,20) this, of d] assms(17)
    show ?thesis by (simp add: hm_get_Nil)
  qed
  moreover have "runs d EA L ([Line (Some line), MainTurn, MainTurn] @ replicate k TransportTurn) A A'"
    unfolding runs_append using run A' by blast
  ultimately show ?thesis by blast
qed

text \<open>
  C15: the cache does not keep a message from being shown again for longer than the
  history: when that much time has passed since a node cached a message, then after one round of
  its main thread without messages the datagrams of the same message, in any order, make it print
  the message again. With the configuration of the example that is two seconds, less than
  the time for which an unacknowledged packet is sent again.
\<close>

theorem rumour_repeated:
  fixes E :: env
  assumes "wire E" and "linked_hash_map L" and "gen_range_ok E" and "listening E L nd"
    and "config_ok (gs_config (nd_gossip nd))" and "kd_from_transport (gs_kad (nd_gossip nd)) = chan_new"
    and "gc_interval (gs_config (nd_gossip nd)) < e_now E (nd_tick nd + 1) - gs_heartbeat (nd_gossip nd)"
    and "hm_get (gs_cache (nd_gossip nd)) (from_inner (gm_id g)) = Some (m, e)"
    and "gc_interval (gs_config (nd_gossip nd)) * gc_history_len (gs_config (nd_gossip nd)) < e_now E (nd_tick nd) - e"
    and "hm_get (pending (nd_handler nd)) i = None" and "src \<noteq> nd_addr nd" and "ch_queue (nd_chat nd) = []"
    and "as_bytes (e_gossip E) g = Some gb" and "as_bytes (e_message E) \<lparr>head = Gossip, msg = gb\<rparr> = Some b"
    and "mset ds = mset (map (\<lambda>p. the (as_bytes (e_packet E) p)) (packets_of E b i 1))"
  shows "\<exists>nd'. runs d E L ([MainTurn, MainTurn, MainTurn] @ map (\<lambda>b. Datagram (arrival src [] b)) ds @ [MainTurn, ShowTurn]) nd nd' \<and>
    nd_screen nd' = nd_screen nd @ [g]"
proof -
  obtain nd1 where nd1: "runs d E L [MainTurn, MainTurn, MainTurn] nd nd1" "listening E L nd1"
    "\<not> hm_contains (gs_cache (nd_gossip nd1)) (from_inner (gm_id g))" "nd_handler nd1 = nd_handler nd"
    "nd_chat nd1 = nd_chat nd" "nd_screen nd1 = nd_screen nd" "nd_addr nd1 = nd_addr nd"
    using forgetting_round [OF assms(2,4,3,5-9), of d] by blast
  from rumour_printed [OF assms(1-3) nd1(2) _ _ _ nd1(3) assms(13-15), of src d] assms(10-12) nd1(4-7)
  obtain nd' where "runs d E L (map (\<lambda>b. Datagram (arrival src [] b)) ds @ [MainTurn, ShowTurn]) nd1 nd'"
    "nd_screen nd' = nd_screen nd @ [g]" by auto
  with nd1(1) show ?thesis unfolding runs_append by blast
qed

text \<open>
  The local address that publishing leaves out is the one the socket is bound to, while the routing
  table lists the node under its public address: a node that knows no other peer forwards what is
  typed, and all it hears, to itself.
\<close>

theorem gossip_to_self:
  assumes "linked_hash_map L" and "node_new E L digest_bytes factor t (Some ip) sk dial = Inr nd"
    and "gen_range_ok E" and "ip \<noteq> Ipv4 0 0 0 0" and "src \<noteq> pi_address (nd_info nd)"
  shows "ch_queue (gs_to_transport_tx (fst (snd (publish E L src m (nd_gossip nd, t'))))) = [(pi_address (nd_info nd), m)]"
proof -
  let ?rt = "kd_table (gs_kad (nd_gossip nd))" and ?a = "pi_address (nd_info nd)"
  obtain now now' pid k port where new: "routing_table_new L now now' (nd_info nd) = Inr ?rt"
    and info: "peer_info_new pid k ip port = Inr (nd_info nd)"
    and addr: "parse_addr (format_addr (Ipv4 0 0 0 0) (9292 + e_gen_range E t 10000)) = Some (gs_address (nd_gossip nd))"
    and gs: "gs_to_transport_tx (nd_gossip nd) = chan_new"
    using assms(2) unfolding node_new_def Let_def res_bind_eq_Inr
    by (auto simp: gossip_service_new_def kademlia_new_def unwrap_parse_def split: if_splits option.splits)
  have ips: "addr_ip ?a = ip" "addr_ip (gs_address (nd_gossip nd)) = Ipv4 0 0 0 0"
    using info addr by (auto simp: peer_info_new_def parse_format_addr split: if_splits dest!: sym [of _ "nd_info nd"] sym [of _ "gs_address (nd_gossip nd)"])
  have tree: "tree ?rt = [(''0'', upsert L now' (nd_info nd) (kbucket_new L now))]"
    using new by (auto simp: linked_hash_map.routing_table_new_eq [OF assms(1)] dest: sym)
  then have peers: "get_all_peers E L ?rt = [nd_info nd]"
    by (simp add: get_all_peers_def hm_iter_def linked_hash_map.nodes_upsert_new [OF assms(1)])
  have total: "total_peers L ?rt = 1" by (rule linked_hash_map.table_new(3) [OF assms(1) new])
  have "healthy L (Suc 0) ?rt"
    using linked_hash_map.table_new [OF assms(1) new] linked_hash_map.known_ids_peers [OF assms(1), of ?rt E] peers
    by (simp add: healthy_def)
  from linked_hash_map.publish_ok [OF assms(1) this assms(3), of src m t'] total obtain as t'' where
    p: "publish E L src m (nd_gossip nd, t') = (Inr (), (forwarded m as (nd_gossip nd), t''))"
    and fair: "fair_choice E L src (nd_gossip nd) as" by auto
  have "?a \<noteq> gs_address (nd_gossip nd)" using ips assms(4) by auto
  with fair peers total assms(5) have "distinct as" "set as = {?a}" by (auto simp: fair_choice_def Let_def)
  then have "as = [?a]" by (cases as rule: list.exhaust; cases "tl as") auto
  with p gs show ?thesis by simp
qed

section \<open>Concrete instances\<close>

text \<open>A node that has filed another one, and waits for rumours.\<close>

definition demo_friend :: peer_info where
  "demo_friend = nd_info (demo_member (Ipv4 10 0 0 8) 1000 None)"

definition demo_talker :: "(peer_id, peer_info) alist node" where
  "demo_talker = (demo_waiting (10 ^ 9))\<lparr>nd_gossip := (nd_gossip (demo_waiting (10 ^ 9)))
     \<lparr>gs_kad := (gs_kad (nd_gossip (demo_waiting (10 ^ 9))))
       \<lparr>kd_table := snd (update_peer lru 0 0 demo_friend 0 (kd_table (gs_kad (nd_gossip (demo_waiting (10 ^ 9))))))\<rparr>\<rparr>\<rparr>"

lemma demo_talker_table:
  fixes rt :: "(peer_id, peer_info) alist routing_table"
  defines "rt \<equiv> kd_table (gs_kad (nd_gossip demo_talker))"
  shows "healthy lru (Suc 0) rt" "total_peers lru rt \<le> 7" "demo_friend \<in> set (get_all_peers E lru rt)"
    "local_info rt = nd_info demo_talker"
proof -
  let ?rt = "kd_table (gs_kad (nd_gossip (demo_chat None)))"
  have h: "healthy lru (Suc 898) ?rt" using demo_chat_healthy [of None] by (rule healthy_less) simp
  then have ok: "rt_ok lru ?rt" "hm_wf (tree ?rt)" "total_peers lru ?rt < 960"
    by (auto simp: healthy_def rt_ok_def)
  obtain m where m: "slot lru ?rt demo_friend 0 = Some m" using slot_exists [OF ok(2,3)] by blast
  let ?k = "take (Suc m) (get_binary (distance ?rt demo_friend))"
  have rt: "rt = put_peer lru 0 0 demo_friend ?k ?rt"
    by (simp add: rt_def demo_talker_def demo_waiting_def update_peer_eq m)
  have "total_peers lru ?rt = 1" using demo_chat_table [of None] lru.table_new by blast
  then show "total_peers lru rt \<le> 7"
    unfolding rt lru.total_put [OF ok(2)] by (simp split: option.split)
  from lru.update_healthy [OF h, of 0 0 demo_friend] obtain rt' where
    "update_peer lru 0 0 demo_friend 0 ?rt = (Inr True, rt')" "healthy lru 898 rt'" by blast
  then have "healthy lru 898 rt" by (simp add: rt_def demo_talker_def demo_waiting_def)
  then show "healthy lru (Suc 0) rt" by (rule healthy_less) simp
  show "demo_friend \<in> set (get_all_peers E lru rt)"
    using ok(2) lru.in_upsert by (auto simp: rt lru.in_all_peers)
  show "local_info rt = nd_info demo_talker"
    using demo_chat_ok [of None] by (simp add: rt demo_talker_def demo_waiting_def node_ok_def)
qed

lemma demo_talker_simps:
  "nd_addr demo_talker = SocketAddrV4 (Ipv4 0 0 0 0) 9292" "nd_tick demo_talker = 10 ^ 9"
  "gs_config (nd_gossip demo_talker) = demo_config" "gs_heartbeat (nd_gossip demo_talker) = 37"
  "gs_cache (nd_gossip demo_talker) = []" "nd_chat demo_talker = chan_new"
  by (simp_all add: demo_talker_def demo_waiting_def demo_chat_simps)

definition demo_reader :: "(peer_id, peer_info) alist node" where
  "demo_reader = (demo_member (Ipv4 10 0 0 8) 1000 None)\<lparr>nd_main_pc := GossipRecv\<rparr>"

lemma demo_reader_simps:
  "nd_info demo_reader = demo_friend" "pi_address demo_friend = SocketAddrV4 (Ipv4 10 0 0 8) 10292"
  "nd_addr demo_reader = SocketAddrV4 (Ipv4 0 0 0 0) 10292" "gs_cache (nd_gossip demo_reader) = []"
  "nd_chat demo_reader = chan_new" "pending (nd_handler demo_reader) = []" "nd_screen demo_reader = []"
  by (simp_all add: demo_reader_def demo_friend_def demo_member_def node_new_def parse_format_addr peer_info_new_def
      lru.routing_table_new_eq Let_def unwrap_parse_def demo_sock_def ref_env_def handler_new_def
      gossip_service_new_def)

lemma demo_member_healthy:
  assumes "dial_ok dial"
  shows "healthy lru (Suc 901) (kd_table (gs_kad (nd_gossip (demo_member ip t dial))))"
proof -
  let ?nd = "demo_member ip t dial"
  let ?H = "\<lparr>lg_peers = {nd_info ?nd}, lg_typed = {}, lg_sent = (\<lambda>_. None), lg_received = {}\<rparr>"
  have "node_good ref_env lru ?H ?nd"
    by (rule lru.started_good [OF demo_member_started [OF assms]]) simp
  moreover have "few ?H" by (simp add: few_def MAX_BUCKET_LEN_def)
  ultimately show ?thesis using lru.table_healthy by (auto simp: node_good_def)
qed

lemma demo_reader_listening: "listening ref_env lru demo_reader"
proof -
  let ?nd = "demo_member (Ipv4 10 0 0 8) 1000 None"
  have "node_ok ref_env lru ?nd" by (rule lru.node_new_ok [OF demo_member_new])
  moreover have "healthy lru (Suc 0) (kd_table (gs_kad (nd_gossip ?nd)))"
    by (rule healthy_less [OF demo_member_healthy [OF demo_dial_ok(2)]]) simp
  moreover have "gs_to_gossip_rx (nd_gossip ?nd) = chan_new"
    by (simp add: demo_member_def node_new_def parse_format_addr peer_info_new_def
      lru.routing_table_new_eq Let_def unwrap_parse_def demo_sock_def ref_env_def handler_new_def
      gossip_service_new_def)
  ultimately show ?thesis using demo_member_up [OF demo_dial_ok(2), of "Ipv4 10 0 0 8" 1000]
    by (simp add: listening_def demo_reader_def all_up_def node_ok_def)
qed

lemma demo_talker_listening: "listening ref_env lru demo_talker"
proof -
  have ok: "node_ok ref_env lru (demo_waiting (10 ^ 9))" by (rule demo_waiting_ok)
  have "rt_ok lru (kd_table (gs_kad (nd_gossip demo_talker)))" "rt_dense lru (kd_table (gs_kad (nd_gossip demo_talker)))"
    using demo_talker_table(1) by (simp_all add: healthy_def)
  with ok have "node_ok ref_env lru demo_talker"
    using demo_talker_table(4) by (simp add: node_ok_def demo_talker_def)
  with demo_talker_table(1) show ?thesis
    by (simp add: listening_def) (simp add: demo_talker_def demo_waiting_def demo_chat_simps)
qed

lemma demo_talker_transport:
  "om_rx (nd_transport demo_talker) = chan_new" "ia_rx (nd_transport demo_talker) = chan_new"
  "nd_sock demo_talker = demo_sock" "nd_main_up demo_talker" "nd_transport_up demo_talker"
  "pi_address (nd_info demo_talker) = SocketAddrV4 (Ipv4 10 0 0 9) 9292"
  by (simp_all add: demo_talker_def demo_waiting_def demo_chat_def node_new_def parse_format_addr peer_info_new_def
      lru.routing_table_new_eq Let_def unwrap_parse_def demo_sock_def ref_env_def transport_new_def)

lemma demo_talker_sendable: "sendable [] demo_talker"
  by (simp add: sendable_def working_def demo_talker_transport) (simp add: demo_sock_def)

theorem typed_line_shown_witness:
  "\<exists>k A' ds. runs 2 ref_env lru ([Line (Some '' hello ''), MainTurn, MainTurn] @ replicate k TransportTurn) demo_talker A' \<and> ds \<noteq> [] \<and>
     (\<forall>b \<in> set ds. (b, SocketAddrV4 (Ipv4 10 0 0 8) 10292) \<in> set (sk_sent (nd_sock A'))) \<and>
     (\<exists>B'. runs 2 ref_env lru (map (\<lambda>b. Datagram (arrival demo_addr [] b)) ds @ [MainTurn, ShowTurn]) demo_reader B' \<and>
        map gm_data (nd_screen B') = [str_bytes ''hello''])"
proof -
  have now: "e_now ref_env t = t" for t by (simp add: ref_env_def)
  have "\<exists>k A' ds. runs 2 (on_machine ref_env demo_machine) lru
      ([Line (Some '' hello ''), MainTurn, MainTurn] @ replicate k TransportTurn) demo_talker A' \<and> ds \<noteq> [] \<and>
    (\<forall>b \<in> set ds. (b, dest_of (pi_address (nd_info demo_talker)) (pi_address (nd_info demo_reader))) \<in> set (sk_sent (nd_sock A'))) \<and>
    (\<forall>es. mset es = mset ds \<longrightarrow> (\<exists>B'.
       runs 2 (on_machine ref_env demo_machine) lru (map (\<lambda>b. Datagram (arrival demo_addr [] b)) es @ [MainTurn, ShowTurn]) demo_reader B' \<and>
       nd_screen B' = nd_screen demo_reader @ [typed_message (on_machine ref_env demo_machine) demo_talker '' hello '']))"
    by (rule typed_line_shown [OF ref.wire_axioms lru.linked_hash_map_axioms, where q = "[]"])
      (use demo_talker_listening demo_reader_listening demo_talker_sendable demo_talker_table(2,3) in
        \<open>simp_all add: demo_gen_range now demo_talker_simps demo_reader_simps demo_config_ok hm_contains_def hm_get_Nil\<close>,
       simp_all add: demo_config_def gossip_config_new_def demo_addr_def)
  then obtain k A' ds where r: "runs 2 ref_env lru ([Line (Some '' hello ''), MainTurn, MainTurn] @ replicate k TransportTurn) demo_talker A'" "ds \<noteq> []"
    "\<forall>b \<in> set ds. (b, dest_of (pi_address (nd_info demo_talker)) (pi_address (nd_info demo_reader))) \<in> set (sk_sent (nd_sock A'))"
    and shown: "\<exists>B'. runs 2 ref_env lru (map (\<lambda>b. Datagram (arrival demo_addr [] b)) ds @ [MainTurn, ShowTurn]) demo_reader B' \<and>
       nd_screen B' = nd_screen demo_reader @ [typed_message ref_env demo_talker '' hello '']"
    unfolding demo_on_machine by blast
  moreover from shown have "\<exists>B'. runs 2 ref_env lru (map (\<lambda>b. Datagram (arrival demo_addr [] b)) ds @ [MainTurn, ShowTurn]) demo_reader B' \<and>
       map gm_data (nd_screen B') = [str_bytes ''hello'']"
    by (force simp: demo_reader_simps typed_message_def trim_examples(1))
  ultimately show ?thesis
    by (intro exI [of _ k] exI [of _ A'] exI [of _ ds]) (simp add: demo_talker_transport demo_reader_simps dest_of_def)
qed

text \<open>A node that cached a message three seconds ago.\<close>

definition demo_forgetful :: "(peer_id, peer_info) alist node" where
  "demo_forgetful = demo_reader\<lparr>nd_tick := 3 * 10 ^ 9, nd_gossip := (nd_gossip demo_reader)
     \<lparr>gs_cache := hm_or_insert (from_inner (gm_id demo_gossip_message)) (demo_rumour, 0) []\<rparr>\<rparr>"

lemma demo_forgetful_listening: "listening ref_env lru demo_forgetful"
proof -
  have "cache_ok ref_env (hm_or_insert (from_inner (gm_id demo_gossip_message)) (demo_rumour, 0) [])"
    by (rule cache_ok_insert) (simp_all add: cache_ok_def hm_wf_def hm_get_Nil)
  with demo_reader_listening show ?thesis
    by (simp add: listening_def demo_forgetful_def node_ok_def)
qed

lemma demo_forgetful_fields:
  "gs_config (nd_gossip demo_forgetful) = demo_config" "gs_heartbeat (nd_gossip demo_forgetful) = 1037"
  "kd_from_transport (gs_kad (nd_gossip demo_forgetful)) = chan_new" "nd_tick demo_forgetful = 3 * 10 ^ 9"
  "pending (nd_handler demo_forgetful) = []" "ch_queue (nd_chat demo_forgetful) = []"
  "nd_addr demo_forgetful = SocketAddrV4 (Ipv4 0 0 0 0) 10292" "nd_screen demo_forgetful = []"
  by (simp_all add: demo_forgetful_def demo_reader_simps)
    (simp_all add: demo_reader_def demo_member_def node_new_def parse_format_addr peer_info_new_def
      lru.routing_table_new_eq Let_def unwrap_parse_def demo_sock_def ref_env_def handler_new_def
      gossip_service_new_def kademlia_new_def demo_config_def)

theorem rumour_repeated_witness:
  "\<exists>ds nd'. ds \<noteq> [] \<and> runs 2 ref_env lru
       ([MainTurn, MainTurn, MainTurn] @ map (\<lambda>b. Datagram (arrival demo_addr [] b)) ds @ [MainTurn, ShowTurn])
       demo_forgetful nd' \<and>
     hm_contains (gs_cache (nd_gossip demo_forgetful)) (from_inner (gm_id demo_gossip_message)) \<and>
     nd_screen nd' = [demo_gossip_message]"
proof -
  let ?b = "the (as_bytes (e_message ref_env) demo_rumour)"
  let ?ds = "map (\<lambda>p. the (as_bytes (e_packet ref_env) p)) (packets_of ref_env ?b (arr_of [5]) 1)"
  have m: "as_bytes (e_message ref_env) \<lparr>head = Gossip, msg = the (as_bytes (e_gossip ref_env) demo_gossip_message)\<rparr> = Some ?b"
    using ref.message.enc_Some [of demo_rumour] by (simp add: demo_rumour_def)
  have now: "e_now ref_env t = t" for t by (simp add: ref_env_def)
  have cached: "hm_get (gs_cache (nd_gossip demo_forgetful)) (from_inner (gm_id demo_gossip_message)) = Some (demo_rumour, 0)"
    by (simp add: demo_forgetful_def hm_get_or_insert hm_get_Nil)
  have "length ?ds \<noteq> 0" by simp
  then have "?ds \<noteq> []" by (metis list.size(3))
  moreover have "\<exists>nd'. runs 2 ref_env lru ([MainTurn, MainTurn, MainTurn] @
      map (\<lambda>b. Datagram (arrival demo_addr [] b)) ?ds @ [MainTurn, ShowTurn]) demo_forgetful nd' \<and>
    nd_screen nd' = nd_screen demo_forgetful @ [demo_gossip_message]"
    by (rule rumour_repeated [OF ref.wire_axioms lru.linked_hash_map_axioms demo_gen_range demo_forgetful_listening
        _ _ _ cached _ _ _ _ ref.gossip.enc_Some m refl])
      (simp_all add: demo_forgetful_fields demo_config_ok now hm_get_Nil demo_addr_def,
       simp_all add: demo_config_def gossip_config_new_def)
  ultimately show ?thesis using cached
    by (intro exI [of _ ?ds]) (simp add: demo_forgetful_fields hm_contains_def)
qed

end
