(* ===== verification/Join.thy ===== *)
theory Join
  imports Chat
begin

text \<open>
  How a node joins the network (\<open>examples/chat.rs\<close>, \<open>src/discovery\<close>): it dials
  a node whose address it was given and asks it for the peers near itself; the node dialled files
  the newcomer and lists the peers it knows; the newcomer files these. Proved, from the first turn
  of the newcomer's main thread to the last datagram: after that the node dialled knows the
  newcomer and the newcomer knows every peer the other one knew.
\<close>

section \<open>A search and its answer\<close>

text \<open>The peers a node answers with when it knows few: all of them, and the newcomer.\<close>

context kad_node begin

lemma decode_peer_bytes: "decode_peers E (map (peer_bytes E) ps) = ps"
  by (induction ps) (simp_all add: peer_bytes_def)

lemma search_handled:
  assumes "healthy L (Suc (Suc n)) (kd_table kd)" and "total_peers L (kd_table kd) \<le> 7"
    and "ch_open (kd_to_transport kd)"
  shows "\<exists>km rt c r ps. from_bytes (e_kad E) (msg (query E s i (FindNode (peer_bytes E s)))) = Some km \<and>
    kad_handle_message (Suc d) E L km (kd, t) = (Inr (), (kd\<lparr>kd_table := rt, kd_to_transport := c\<rparr>, t + 36)) \<and>
    s \<in> rt_peers L rt \<and> total_peers L rt \<le> Suc (Suc (total_peers L (kd_table kd))) \<and> local_info rt = local_info (kd_table kd) \<and>
    length (ch_queue c) \<le> length (ch_queue (kd_to_transport kd)) + 9 \<and>
    healthy L n rt \<and> known_ids L rt = insert (pi_id s) (known_ids L (kd_table kd)) \<and>
    (pi_address s, answer E r (local_info (kd_table kd)) (Nodes (map (peer_bytes E) ps))) \<in> set (ch_queue c) \<and>
    pi_id ` set ps = insert (pi_id s) (known_ids L (kd_table kd)) \<and> length ps \<le> 8"
proof -
  let ?rt = "snd (update_peer L (e_now E t) (e_now E (t + 1)) s 0 (kd_table kd))"
  let ?r = "\<lparr>req_id = i, req_sender = the (as_bytes (e_peer E) s), req_payload = the (as_bytes (e_rpc E) (FindNode (peer_bytes E s)))\<rparr>"
  obtain rt ps where
    ps: "get_closest_peers E L ?rt s DEFAULT_N_PEERS = Inr ps" and
    h: "handle_request (Suc d) E L (the (as_bytes (e_req E) ?r)) (kd, t) = (Inr (), (kd\<lparr>kd_table := rt, kd_to_transport := fold chan_send
      ((pi_address s, answer E ?r (local_info (kd_table kd)) (Nodes (map (peer_bytes E) ps))) #
       map (\<lambda>p. (pi_address p, query E (local_info (kd_table kd)) (rand_arr (e_rand E) (t + 2 + 2))
         (NewPeer (peer_bytes E s)))) ps) (kd_to_transport kd)\<rparr>, t + 2 + 2 + 32))"
      (is "_ = (Inr (), (kd\<lparr>kd_table := rt, kd_to_transport := ?c\<rparr>, _))") and
    rt: "healthy L n rt" "known_ids L rt = known_ids L (kd_table kd) \<union> {pi_id s, pi_id s}"
      "s \<in> rt_peers L rt" "total_peers L rt \<le> Suc (Suc (total_peers L (kd_table kd)))"
    using find_node_ok [of "the (as_bytes (e_req E) ?r)" ?r s "peer_bytes E s" s n kd t d] assms(1)
    by (auto simp: peer_bytes_def)
  obtain rt1 where u: "update_peer L (e_now E t) (e_now E (t + 1)) s 0 (kd_table kd) = (Inr True, rt1)"
    "healthy L (Suc n) rt1" "known_ids L rt1 = insert (pi_id s) (known_ids L (kd_table kd))"
    using update_healthy [OF assms(1), of "e_now E t" "e_now E (t + 1)" s] by blast
  have "total_peers L rt1 \<le> 8"
  proof -
    have "hm_wf (tree (kd_table kd))" "total_peers L (kd_table kd) < 960"
      using assms(1) by (auto simp: healthy_def rt_ok_def)
    then obtain k where k: "slot L (kd_table kd) s 0 = Some k" using slot_exists by blast
    have "total_peers L (put_peer L (e_now E t) (e_now E (t + 1)) s (take (Suc k) (get_binary (distance (kd_table kd) s)))
        (kd_table kd)) \<le> Suc (total_peers L (kd_table kd))"
      unfolding total_put [OF \<open>hm_wf _\<close>] by (simp split: option.split)
    with u(1) k assms(2) show ?thesis by (simp add: update_peer_eq)
  qed
  with ps u have all: "ps = get_all_peers E L rt1" by (simp add: get_closest_peers_def DEFAULT_N_PEERS_def)
  then have "pi_id ` set ps = insert (pi_id s) (known_ids L (kd_table kd))" "length ps \<le> 8"
    using known_ids_peers [of rt1] u(2,3) \<open>total_peers L rt1 \<le> 8\<close> by (simp_all add: healthy_def)
  moreover have "(pi_address s, answer E ?r (local_info (kd_table kd)) (Nodes (map (peer_bytes E) ps))) \<in> set (ch_queue ?c)"
    using assms(3) by (simp add: fold_chan_send_queue)
  moreover have "length (ch_queue ?c) \<le> length (ch_queue (kd_to_transport kd)) + 9"
    using \<open>length ps \<le> 8\<close> by (simp add: fold_chan_send_queue)
  moreover have "local_info rt = local_info (kd_table kd)"
    using framed_handlers(1) [of "Suc d" E "the (as_bytes (e_req E) ?r)"] h by (auto simp: kad_keeps_def dest: framedD)
  moreover have "t + 2 + 2 + 32 = t + 36" by simp
  ultimately show ?thesis using h rt
    by (intro exI [of _ "KadRequest (the (as_bytes (e_req E) ?r))"] exI [of _ rt] exI [of _ ?c]
        exI [of _ ?r] exI [of _ ps]) (simp add: query_def kad_handle_message_def)
qed

lemma answer_handled:
  assumes "healthy L 16 (kd_table kd)" and "length ps \<le> 8"
  shows "\<exists>km rt c t'. from_bytes (e_kad E) (msg (answer E r rc (Nodes (map (peer_bytes E) ps)))) = Some km \<and>
    kad_handle_message (Suc d) E L km (kd, t) = (Inr (), (kd\<lparr>kd_table := rt, kd_to_transport := c\<rparr>, t')) \<and>
    known_ids L rt = known_ids L (kd_table kd) \<union> pi_id ` set ps"
proof -
  let ?q = "\<lparr>resp_request = the (as_bytes (e_req E) r), resp_receiver = the (as_bytes (e_peer E) rc),
    resp_payload = the (as_bytes (e_rpc E) (Nodes (map (peer_bytes E) ps)))\<rparr>"
  have "healthy L (0 + 2 * length (map (peer_bytes E) ps)) (kd_table kd)"
    using assms by (auto intro: healthy_less)
  from handle_nodes_ok [OF this, of t] obtain rt ms t' where
    r: "act_each (map (peer_bytes E) ps) (handle_node E L) (kd, t) = (Inr (), (kd\<lparr>kd_table := rt,
      kd_to_transport := fold chan_send ms (kd_to_transport kd)\<rparr>, t'))"
    "known_ids L rt = known_ids L (kd_table kd) \<union> pi_id ` set ps"
    by (auto simp: decode_peer_bytes)
  moreover have "handle_response (Suc d) E L (the (as_bytes (e_resp E) ?q)) = act_each (map (peer_bytes E) ps) (handle_node E L)"
    by (simp add: resp_to_components_def)
  ultimately show ?thesis
    by (intro exI [of _ "KadResponse (the (as_bytes (e_resp E) ?q))"] exI [of _ rt] exI [of _ "fold chan_send ms (kd_to_transport kd)"]
        exI [of _ t']) (simp add: answer_def kad_handle_message_def del: handle_response.simps)
qed

end

lemma messages_on_machine [simp]:
  "peer_bytes (on_machine E c) = peer_bytes E" "query (on_machine E c) = query E"
  "answer (on_machine E c) = answer E"
  by (simp_all add: peer_bytes_def query_def answer_def fun_eq_iff)

section \<open>Turns of a node\<close>

text \<open>The first turn of the main thread of a node that was given an address.\<close>

lemma dial_turn:
  assumes "wire E" and "linked_hash_map L" and "nd_main_pc nd = Dial" and "nd_dial nd = Some s" and "parse_addr s = Some a"
    and "healthy L (Suc (Suc n)) (kd_table (gs_kad (nd_gossip nd)))" and "ch_open (om_rx (nd_transport nd))"
    and "local_info (kd_table (gs_kad (nd_gossip nd))) = nd_info nd"
  shows "\<exists>rt c i. main_turn d E L nd = (put_kad ((gs_kad (nd_gossip nd))\<lparr>kd_table := rt, kd_to_transport := c\<rparr>, nd_tick nd + 36) nd)
      \<lparr>nd_main_pc := KadRecv\<rparr> \<and> length (ch_queue c) = Suc (length (ch_queue (om_rx (nd_transport nd)))) \<and>
    healthy L n rt \<and> known_ids L rt = known_ids L (kd_table (gs_kad (nd_gossip nd))) \<and> local_info rt = nd_info nd \<and>
    (a, query E (nd_info nd) i (FindNode (peer_bytes E (nd_info nd)))) \<in> set (ch_queue c) \<and> ch_open c"
proof -
  have kn: "kad_node E L" using assms(1,2) by (simp add: kad_node_def)
  let ?kd = "fst (kad_view nd)" and ?t = "nd_tick nd" and ?li = "nd_info nd"
  have v: "kad_view nd = (?kd, ?t)" "local_info (kd_table ?kd) = ?li" using assms(8) by (simp_all add: kad_view_def)
  let ?m = "query E ?li (rand_arr (e_rand E) ?t) (FindNode (peer_bytes E ?li))"
  let ?c = "chan_send (a, ?m) (om_rx (nd_transport nd))"
  obtain rt where b: "bootstrap E L a (?kd, ?t) = (Inr (), (?kd\<lparr>kd_table := rt, kd_to_transport := ?c\<rparr>, ?t + 34))"
    "healthy L (Suc n) rt" "known_ids L rt = known_ids L (kd_table ?kd)" "local_info rt = ?li"
    using kad_node.bootstrap_ok [OF kn, of "Suc n" ?kd a ?t] assms(6) v(2) by (auto simp: kad_view_def)
  let ?kd1 = "?kd\<lparr>kd_table := rt, kd_to_transport := ?c\<rparr>"
  obtain rt' where u: "kad_update E L ?li (?kd1, ?t + 34) = (Inr (), (?kd1\<lparr>kd_table := rt'\<rparr>, ?t + 34 + 2))"
    "healthy L n rt'" "known_ids L rt' = insert (pi_id ?li) (known_ids L rt)" "local_info rt' = ?li"
    using linked_hash_map.kad_update_ok [OF assms(2), of n ?kd1 E ?li "?t + 34"] b(2,4) by auto
  have "pi_id ?li \<in> known_ids L rt" using b(2,4) by (simp add: healthy_def)
  then have "known_ids L rt' = known_ids L (kd_table (gs_kad (nd_gossip nd)))"
    using u(3) b(3) by (simp add: insert_absorb kad_view_def)
  moreover have "as_bytes (e_peer E) ?li = Some (peer_bytes E ?li)"
    using codec.enc_Some [OF serde_codec, of "e_peer E" ?li] assms(1) by (simp add: wire_def peer_bytes_def)
  moreover have "add_peer E L (peer_bytes E ?li) = kad_update E L ?li"
    using kad_node.add_peer_encoded [OF kn] by (simp add: peer_bytes_def)
  ultimately show ?thesis using b(1) u assms(3-5,7) v(1)
    by (intro exI [of _ rt'] exI [of _ ?c] exI [of _ "rand_arr (e_rand E) ?t"])
      (simp add: main_turn_def node_dial_def act_bind_apply act_then_apply act_apply on_kad_def act_zoom_apply
        unwrap_parse_def chan_send_def, simp add: kad_view_def put_kad_def)
qed

text \<open>The datagrams of a search or an answer, in any order, and the turn that handles it.\<close>

definition after_kad :: "'m node \<Rightarrow> 'm kademlia \<Rightarrow> nat \<Rightarrow> 'm node \<Rightarrow> bool" where
  "after_kad nd kd t nd' \<longleftrightarrow> nd_tick nd' = t + 1 \<and> nd_main_pc nd' = GossipRecv \<and> nd_handler_up nd' = nd_handler_up nd \<and>
     nd_input_up nd' = nd_input_up nd \<and> nd_addr nd' = nd_addr nd \<and> nd_gossip nd' = (nd_gossip nd)\<lparr>gs_kad := kd\<rparr> \<and> nd_main_up nd' \<and>
     nd_transport nd' = (nd_transport nd)\<lparr>om_rx := kd_to_transport kd\<rparr> \<and> nd_sock nd' = nd_sock nd \<and>
     nd_transport_up nd' = nd_transport_up nd \<and> nd_info nd' = nd_info nd"

lemma kad_runs:
  fixes E :: env
  assumes "wire E" and "as_bytes (e_message E) m = Some b" and "head m \<in> {Request, Response}"
    and "from_bytes (e_kad E) (msg m) = Some km"
    and "mset ds = mset (map (\<lambda>p. the (as_bytes (e_packet E) p)) (packets_of E b i r))"
    and "hm_get (pending (nd_handler nd)) i = None" and "nd_main_up nd" and "nd_handler_up nd"
    and "nd_main_pc nd = KadRecv" and "kd_from_transport (gs_kad (nd_gossip nd)) = chan_new"
  shows "\<exists>c. ch_open c = ch_open (om_rx (nd_transport nd)) \<and>
    length (ch_queue c) \<le> length (ch_queue (om_rx (nd_transport nd))) + packet_count (length b) \<and> (\<forall>kd t.
    kad_handle_message d E L km ((gs_kad (nd_gossip nd))\<lparr>kd_to_transport := c\<rparr>, nd_tick nd) = (Inr (), (kd, t)) \<longrightarrow>
    (\<exists>nd'. runs d E L (map (\<lambda>b. Datagram (arrival src [] b)) ds @ [MainTurn]) nd nd' \<and> after_kad nd kd t nd'))"
proof -
  obtain pend ps where ps: "mset ps = mset (packets_of E b i r)" and
    run: "runs d E L (map (\<lambda>b. Datagram (arrival src [] b)) ds) nd
      (put_handler ((handle_message E m src (handler_view nd))\<lparr>pending := pend,
        om_tx := fold chan_send (receipts E (gs_public_ip (nd_gossip nd)) src ps) (om_rx (nd_transport nd))\<rparr>) nd)"
    (is "runs d E L ?es nd ?nd1")
    using message_runs [OF assms(1,2,5-8), of d L src] by blast
  let ?c = "fold chan_send (receipts E (gs_public_ip (nd_gossip nd)) src ps) (om_rx (nd_transport nd))"
  let ?kd = "(gs_kad (nd_gossip nd))\<lparr>kd_to_transport := ?c\<rparr>"
  have v: "gossip_tx (handler_view nd) = gs_to_gossip_rx (nd_gossip nd)" "ia_tx (handler_view nd) = ia_rx (nd_transport nd)"
    "kad_tx (handler_view nd) = kd_from_transport (gs_kad (nd_gossip nd))" by (simp_all add: handler_view_def)
  have hm: "handle_message E m src (handler_view nd) =
      (handler_view nd)\<lparr>kad_tx := chan_send (src, km) (kad_tx (handler_view nd))\<rparr>"
    using assms(3,4) by (auto simp: handle_message_def)
  have nd1: "nd_gossip ?nd1 = (nd_gossip nd)\<lparr>gs_kad := (gs_kad (nd_gossip nd))\<lparr>kd_from_transport := \<lparr>ch_queue = [(src, km)], ch_open = True\<rparr>\<rparr>\<rparr>"
    "nd_transport ?nd1 = (nd_transport nd)\<lparr>om_rx := ?c\<rparr>"
    using assms(10) by (simp_all add: hm v chan_send_def chan_new_def)
  have same: "?kd\<lparr>kd_from_transport := \<lparr>ch_queue = [], ch_open = True\<rparr>\<rparr> = ?kd"
    using assms(10) by (cases "gs_kad (nd_gossip nd)") (simp add: chan_new_def)
  have "\<exists>nd'. runs d E L (?es @ [MainTurn]) nd nd' \<and> after_kad nd kd t nd'"
    if k: "kad_handle_message d E L km (?kd, nd_tick nd) = (Inr (), (kd, t))" for kd t
  proof -
    have "kad_recv d E L (kad_view ?nd1) = (Inr (), (kd, t + 1))"
      using k same nd1
      by (simp add: kad_recv_def kad_view_def act_bind_apply act_then_apply act_apply chan_try_recv_def)
    then have turn: "main_turn d E L ?nd1 = (put_kad (kd, t + 1) ?nd1)\<lparr>nd_main_pc := GossipRecv\<rparr>"
      using assms(9) by (simp add: main_turn_def on_kad_def act_zoom_apply)
    have "runs d E L (?es @ [MainTurn]) nd (main_turn d E L ?nd1)"
      unfolding runs_append using run assms(7) by (intro exI [of _ ?nd1]) simp
    with nd1 assms(7) show ?thesis
      by (intro exI [of _ "main_turn d E L ?nd1"]) (simp add: turn put_kad_def after_kad_def)
  qed
  moreover have "length ps = packet_count (length b)" using arg_cong [OF ps, of size] by simp
  then have "length (receipts E x src ps) \<le> packet_count (length b)" for x
    using length_filter_le [of "\<lambda>p. pkt_ret p = RETURN_RECEIPT" ps] by (simp add: receipts_def)
  ultimately show ?thesis by (intro exI [of _ ?c]) (simp add: fold_chan_send_queue)
qed

text \<open>The three parts of a newcomer's way: the search it sends, the answer, what it learns from it.\<close>

lemma dialled:
  assumes "wire E" and "linked_hash_map L" and "node_ok E L nd" and "nd_main_pc nd = Dial" and "nd_dial nd = Some s"
    and "parse_addr s = Some a" and "sendable q nd" and "healthy L (Suc (Suc n)) (kd_table (gs_kad (nd_gossip nd)))"
  shows "\<exists>rt c nd1 k nd' b i j. runs d E L [MainTurn] nd nd1 \<and>
    nd1 = (put_kad ((gs_kad (nd_gossip nd))\<lparr>kd_table := rt, kd_to_transport := c\<rparr>, nd_tick nd + 36) nd)\<lparr>nd_main_pc := KadRecv\<rparr> \<and>
    healthy L n rt \<and> known_ids L rt = known_ids L (kd_table (gs_kad (nd_gossip nd))) \<and>
    runs d E L (replicate k TransportTurn) nd1 nd' \<and> k \<le> 3 * Suc (length q) \<and> only_transport nd1 nd' \<and>
    as_bytes (e_message E) (query E (nd_info nd) i (FindNode (peer_bytes E (nd_info nd)))) = Some b \<and>
    (\<forall>x \<in> set (packets_of E b j 1). (the (as_bytes (e_packet E) x), dest_of (pi_address (nd_info nd)) a) \<in>
      set (sk_sent (nd_sock nd')))"
proof -
  note sd = assms(7) [unfolded sendable_def] and ok = assms(3) [unfolded node_ok_def]
  obtain rt c i where turn: "main_turn d E L nd =
      (put_kad ((gs_kad (nd_gossip nd))\<lparr>kd_table := rt, kd_to_transport := c\<rparr>, nd_tick nd + 36) nd)\<lparr>nd_main_pc := KadRecv\<rparr>"
      (is "_ = ?nd1")
    and rt: "healthy L n rt" "known_ids L rt = known_ids L (kd_table (gs_kad (nd_gossip nd)))" and
    c: "(a, query E (nd_info nd) i (FindNode (peer_bytes E (nd_info nd)))) \<in> set (ch_queue c)"
      "length (ch_queue c) = Suc (length q)"
    using dial_turn [OF assms(1,2,4,5,6,8), of d] ok sd by auto
  have "sendable (ch_queue c) ?nd1" using sd by (simp add: sendable_def put_kad_def)
  from message_sent [OF assms(1) this c(1), of d L] obtain k nd' b j where nd': "k \<le> 3 * length (ch_queue c)"
    "runs d E L (replicate k TransportTurn) ?nd1 nd'" "only_transport ?nd1 nd'"
    "as_bytes (e_message E) (query E (nd_info nd) i (FindNode (peer_bytes E (nd_info nd)))) = Some b"
    "\<forall>x \<in> set (packets_of E b j 1). (the (as_bytes (e_packet E) x), dest_of (pi_address (nd_info nd)) a) \<in> set (sk_sent (nd_sock nd'))"
    using ok by (auto simp: put_kad_def query_def)
  have "runs d E L [MainTurn] nd ?nd1" using sd by (simp add: turn)
  moreover have "k \<le> 3 * Suc (length q)" using nd'(1) by (simp add: c(2))
  ultimately show ?thesis using nd'(2-) rt by blast
qed

lemma searched:
  fixes E :: env
  assumes "wire E" and "linked_hash_map L" and "node_ok E L nd" and "nd_main_pc nd = KadRecv" and "nd_handler_up nd"
    and "sendable q nd" and "pending (nd_handler nd) = []" and "kd_from_transport (gs_kad (nd_gossip nd)) = chan_new"
    and "healthy L (Suc (Suc n)) (kd_table (gs_kad (nd_gossip nd)))" and "total_peers L (kd_table (gs_kad (nd_gossip nd))) \<le> 7"
    and "as_bytes (e_message E) (query E li i (FindNode (peer_bytes E li))) = Some b"
    and "mset ds = mset (map (\<lambda>p. the (as_bytes (e_packet E) p)) (packets_of E b j 1))"
  shows "\<exists>nd1 rt c r ps. runs (Suc d) E L (map (\<lambda>b. Datagram (arrival src [] b)) ds @ [MainTurn]) nd nd1 \<and>
    after_kad nd ((gs_kad (nd_gossip nd))\<lparr>kd_table := rt, kd_to_transport := c\<rparr>) (nd_tick nd + 36) nd1 \<and>
    li \<in> rt_peers L rt \<and> total_peers L rt \<le> Suc (Suc (total_peers L (kd_table (gs_kad (nd_gossip nd))))) \<and> healthy L n rt \<and>
    known_ids L rt = insert (pi_id li) (known_ids L (kd_table (gs_kad (nd_gossip nd)))) \<and>
    length (ch_queue c) \<le> length q + packet_count (length b) + 9 \<and>
    (pi_address li, answer E r (nd_info nd) (Nodes (map (peer_bytes E) ps))) \<in> set (ch_queue c) \<and>
    pi_id ` set ps = insert (pi_id li) (known_ids L (kd_table (gs_kad (nd_gossip nd)))) \<and> length ps \<le> 8"
proof -
  let ?kd = "gs_kad (nd_gossip nd)" and ?m = "query E li i (FindNode (peer_bytes E li))"
  have kn: "kad_node E L" using assms(1,2) by (simp add: kad_node_def)
  note sd = assms(6) [unfolded sendable_def] and ok = assms(3) [unfolded node_ok_def]
  have "head ?m \<in> {Request, Response}" by (simp add: query_def)
  note kr = kad_runs [OF assms(1,11) this _ assms(12), of _ nd "Suc d" L src]
  obtain km where km: "from_bytes (e_kad E) (msg ?m) = Some km"
    using kad_node.search_handled [OF kn, of n "?kd\<lparr>kd_to_transport := chan_new\<rparr>" li i d 0] assms(9,10)
    by (auto simp: chan_new_def)
  obtain c where c: "ch_open c" "length (ch_queue c) \<le> length q + packet_count (length b)" and run: "\<And>kd t.
    kad_handle_message (Suc d) E L km (?kd\<lparr>kd_to_transport := c\<rparr>, nd_tick nd) = (Inr (), (kd, t)) \<Longrightarrow>
    (\<exists>nd'. runs (Suc d) E L (map (\<lambda>b. Datagram (arrival src [] b)) ds @ [MainTurn]) nd nd' \<and> after_kad nd kd t nd')"
    using kr [OF km] assms(4,5,7,8) sd ok unfolding assms(7) hm_get_Nil by auto
  obtain rt c' r ps where h: "kad_handle_message (Suc d) E L km (?kd\<lparr>kd_to_transport := c\<rparr>, nd_tick nd) =
      (Inr (), (?kd\<lparr>kd_table := rt, kd_to_transport := c'\<rparr>, nd_tick nd + 36))"
    and h': "li \<in> rt_peers L rt" "total_peers L rt \<le> Suc (Suc (total_peers L (kd_table ?kd)))" "healthy L n rt"
    "known_ids L rt = insert (pi_id li) (known_ids L (kd_table ?kd))" "length (ch_queue c') \<le> length (ch_queue c) + 9"
    "(pi_address li, answer E r (nd_info nd) (Nodes (map (peer_bytes E) ps))) \<in> set (ch_queue c')"
    "pi_id ` set ps = insert (pi_id li) (known_ids L (kd_table ?kd))" "length ps \<le> 8"
    using kad_node.search_handled [OF kn, of n "?kd\<lparr>kd_to_transport := c\<rparr>" li i d "nd_tick nd"] assms(9,10) c km ok
    by auto
  have "length (ch_queue c') \<le> length q + packet_count (length b) + 9" using h'(5) c(2) by simp
  with run [OF h] h' show ?thesis by blast
qed

lemma asked:
  fixes E :: env
  assumes "wire E" and "linked_hash_map L" and "node_ok E L nd" and "nd_main_pc nd = KadRecv" and "nd_handler_up nd"
    and "sendable q nd" and "pending (nd_handler nd) = []" and "kd_from_transport (gs_kad (nd_gossip nd)) = chan_new"
    and "healthy L (Suc (Suc n)) (kd_table (gs_kad (nd_gossip nd)))" and "total_peers L (kd_table (gs_kad (nd_gossip nd))) \<le> 7"
    and "as_bytes (e_message E) (query E li i (FindNode (peer_bytes E li))) = Some b"
    and "mset ds = mset (map (\<lambda>p. the (as_bytes (e_packet E) p)) (packets_of E b j 1))"
  shows "\<exists>nd1 n nd2 r ps b' k. runs (Suc d) E L (map (\<lambda>b. Datagram (arrival src [] b)) ds @ [MainTurn]) nd nd1 \<and>
    pi_id li \<in> known_ids L (kd_table (gs_kad (nd_gossip nd1))) \<and> runs (Suc d) E L (replicate n TransportTurn) nd1 nd2 \<and>
    as_bytes (e_message E) (answer E r (nd_info nd) (Nodes (map (peer_bytes E) ps))) = Some b' \<and>
    (\<forall>x \<in> set (packets_of E b' k 1). (the (as_bytes (e_packet E) x), dest_of (pi_address (nd_info nd)) (pi_address li)) \<in>
      set (sk_sent (nd_sock nd2))) \<and>
    pi_id ` set ps = insert (pi_id li) (known_ids L (kd_table (gs_kad (nd_gossip nd)))) \<and> length ps \<le> 8"
proof -
  note sd = assms(6) [unfolded sendable_def] and ok = assms(3) [unfolded node_ok_def]
  obtain nd1 rt c r ps where nd1: "runs (Suc d) E L (map (\<lambda>b. Datagram (arrival src [] b)) ds @ [MainTurn]) nd nd1"
    "after_kad nd ((gs_kad (nd_gossip nd))\<lparr>kd_table := rt, kd_to_transport := c\<rparr>) (nd_tick nd + 36) nd1"
    "known_ids L rt = insert (pi_id li) (known_ids L (kd_table (gs_kad (nd_gossip nd))))"
    and c: "(pi_address li, answer E r (nd_info nd) (Nodes (map (peer_bytes E) ps))) \<in> set (ch_queue c)"
    and ps: "pi_id ` set ps = insert (pi_id li) (known_ids L (kd_table (gs_kad (nd_gossip nd))))" "length ps \<le> 8"
    using searched [OF assms, of d src] by blast
  have "sendable (ch_queue c) nd1" using nd1(2) sd by (simp add: sendable_def after_kad_def)
  from message_sent [OF assms(1) this c, of "Suc d" L] obtain n nd2 b' k where "runs (Suc d) E L (replicate n TransportTurn) nd1 nd2"
    "as_bytes (e_message E) (answer E r (nd_info nd) (Nodes (map (peer_bytes E) ps))) = Some b'"
    "\<forall>x \<in> set (packets_of E b' k 1). (the (as_bytes (e_packet E) x), dest_of (pi_address (nd_info nd)) (pi_address li)) \<in>
      set (sk_sent (nd_sock nd2))"
    using ok nd1(2) by (auto simp: answer_def after_kad_def)
  moreover have "pi_id li \<in> known_ids L (kd_table (gs_kad (nd_gossip nd1)))" using nd1(2,3) by (simp add: after_kad_def)
  ultimately show ?thesis using nd1(1) ps by blast
qed

lemma answered:
  fixes E :: env
  assumes "wire E" and "linked_hash_map L" and "nd_main_pc nd = KadRecv" and "nd_main_up nd" and "nd_handler_up nd"
    and "pending (nd_handler nd) = []" and "kd_from_transport (gs_kad (nd_gossip nd)) = chan_new"
    and "healthy L 16 (kd_table (gs_kad (nd_gossip nd)))" and "length ps \<le> 8"
    and "as_bytes (e_message E) (answer E r rc (Nodes (map (peer_bytes E) ps))) = Some b"
    and "mset ds = mset (map (\<lambda>p. the (as_bytes (e_packet E) p)) (packets_of E b j 1))"
  shows "\<exists>nd'. runs (Suc d) E L (map (\<lambda>b. Datagram (arrival src [] b)) ds @ [MainTurn]) nd nd' \<and>
    known_ids L (kd_table (gs_kad (nd_gossip nd'))) = known_ids L (kd_table (gs_kad (nd_gossip nd))) \<union> pi_id ` set ps"
proof -
  let ?kd = "gs_kad (nd_gossip nd)" and ?m = "answer E r rc (Nodes (map (peer_bytes E) ps))"
  have kn: "kad_node E L" using assms(1,2) by (simp add: kad_node_def)
  have "head ?m \<in> {Request, Response}" by (simp add: answer_def)
  note kr = kad_runs [OF assms(1,10) this _ assms(11), of _ nd "Suc d" L src]
  obtain km where km: "from_bytes (e_kad E) (msg ?m) = Some km"
    using kad_node.answer_handled [OF kn assms(8,9), of r rc d 0] by auto
  obtain c where run: "\<And>kd t.
    kad_handle_message (Suc d) E L km (?kd\<lparr>kd_to_transport := c\<rparr>, nd_tick nd) = (Inr (), (kd, t)) \<Longrightarrow>
    (\<exists>nd'. runs (Suc d) E L (map (\<lambda>b. Datagram (arrival src [] b)) ds @ [MainTurn]) nd nd' \<and> after_kad nd kd t nd')"
    using kr [OF km] assms(3-7) unfolding assms(6) hm_get_Nil by auto
  obtain rt c' t' where "kad_handle_message (Suc d) E L km (?kd\<lparr>kd_to_transport := c\<rparr>, nd_tick nd) =
      (Inr (), (?kd\<lparr>kd_table := rt, kd_to_transport := c'\<rparr>, t'))"
    "known_ids L rt = known_ids L (kd_table ?kd) \<union> pi_id ` set ps"
    using kad_node.answer_handled [OF kn, of "?kd\<lparr>kd_to_transport := c\<rparr>" ps r rc d "nd_tick nd"] assms(8,9) km
    by auto
  from run [OF this(1)] this(2) show ?thesis by (auto simp: after_kad_def)
qed

section \<open>Properties\<close>

text \<open>
  C4: a newcomer that dials a node which knows at most seven peers gets into the
  network: its first turn and its transport thread put datagrams on the wire to that node; in any
  order of arrival these make the node know the newcomer, and its transport thread puts datagrams
  on the wire to the newcomer; in any order of arrival these make the newcomer know every
  peer that node knew.
\<close>

theorem newcomer_joins:
  fixes E :: env and A B :: "'m node" and ca cb :: machine
  defines "EA \<equiv> on_machine E ca" and "EB \<equiv> on_machine E cb"
  assumes "wire E" and "linked_hash_map L" and "node_ok EA L A" and "node_ok EB L B"
    and "nd_main_pc A = Dial" and "nd_dial A = Some s" and "parse_addr s = Some (pi_address (nd_info B))"
    and "nd_main_pc B = KadRecv" and "nd_handler_up A" and "nd_handler_up B"
    and "sendable p A" and "sendable q B" and "pending (nd_handler A) = []" and "pending (nd_handler B) = []"
    and "kd_from_transport (gs_kad (nd_gossip A)) = chan_new" and "kd_from_transport (gs_kad (nd_gossip B)) = chan_new"
    and "healthy L 18 (kd_table (gs_kad (nd_gossip A)))" and "healthy L 2 (kd_table (gs_kad (nd_gossip B)))"
    and "total_peers L (kd_table (gs_kad (nd_gossip B))) \<le> 7"
  shows "\<exists>k A1 ds. runs (Suc d) EA L (MainTurn # replicate k TransportTurn) A A1 \<and> ds \<noteq> [] \<and>
    (\<forall>b \<in> set ds. (b, dest_of (pi_address (nd_info A)) (pi_address (nd_info B))) \<in> set (sk_sent (nd_sock A1))) \<and>
    (\<forall>es src. mset es = mset ds \<longrightarrow> (\<exists>B1 n B2 rs.
       runs (Suc d) EB L (map (\<lambda>b. Datagram (arrival src [] b)) es @ [MainTurn]) B B1 \<and>
       pi_id (nd_info A) \<in> known_ids L (kd_table (gs_kad (nd_gossip B1))) \<and>
       runs (Suc d) EB L (replicate n TransportTurn) B1 B2 \<and> rs \<noteq> [] \<and>
       (\<forall>b \<in> set rs. (b, dest_of (pi_address (nd_info B)) (pi_address (nd_info A))) \<in> set (sk_sent (nd_sock B2))) \<and>
       (\<forall>fs src'. mset fs = mset rs \<longrightarrow> (\<exists>A2.
          runs (Suc d) EA L (map (\<lambda>b. Datagram (arrival src' [] b)) fs @ [MainTurn]) A1 A2 \<and>
          known_ids L (kd_table (gs_kad (nd_gossip A2))) =
            known_ids L (kd_table (gs_kad (nd_gossip A))) \<union> known_ids L (kd_table (gs_kad (nd_gossip B)))))))"
proof -
  have wA: "wire EA" and wB: "wire EB" using assms(3) by (simp_all add: EA_def EB_def)
  have hA: "healthy L (Suc (Suc 16)) (kd_table (gs_kad (nd_gossip A)))" and hB: "healthy L (Suc (Suc 0)) (kd_table (gs_kad (nd_gossip B)))"
    using assms(19,20) by (simp_all add: numeral_2_eq_2)
  obtain rt c A0 k A1 b i j where A0: "runs (Suc d) EA L [MainTurn] A A0" "A0 = (put_kad ((gs_kad (nd_gossip A))
      \<lparr>kd_table := rt, kd_to_transport := c\<rparr>, nd_tick A + 36) A)\<lparr>nd_main_pc := KadRecv\<rparr>"
    and run: "runs (Suc d) EA L (replicate k TransportTurn) A0 A1" "only_transport A0 A1"
    and rt: "healthy L 16 rt" "known_ids L rt = known_ids L (kd_table (gs_kad (nd_gossip A)))"
    and m: "as_bytes (e_message EA) (query EA (nd_info A) i (FindNode (peer_bytes EA (nd_info A)))) = Some b"
    and sent: "\<forall>x \<in> set (packets_of EA b j 1). (the (as_bytes (e_packet EA) x),
      dest_of (pi_address (nd_info A)) (pi_address (nd_info B))) \<in> set (sk_sent (nd_sock A1))"
    using dialled [OF wA assms(4,5,7,8,9,13) hA, of "Suc d"] by blast
  have "runs (Suc d) EA L ([MainTurn] @ replicate k TransportTurn) A A1" unfolding runs_append using A0(1) run(1) by blast
  then have A1: "runs (Suc d) EA L (MainTurn # replicate k TransportTurn) A A1" by (simp only: append.simps)
  have "nd_main_up A" using assms(13) by (simp add: sendable_def)
  with only_transportD [OF run(2)] have A1': "nd_main_pc A1 = KadRecv" "nd_handler A1 = nd_handler A"
    "nd_handler_up A1 = nd_handler_up A" "nd_main_up A1"
    "gs_kad (nd_gossip A1) = (gs_kad (nd_gossip A))\<lparr>kd_table := rt, kd_to_transport := c\<rparr>"
    unfolding A0(2) by (simp_all add: put_kad_def)
  have mB: "as_bytes (e_message EB) (query EB (nd_info A) i (FindNode (peer_bytes EB (nd_info A)))) = Some b"
    using m by (simp add: EA_def EB_def)
  have idA: "pi_id (nd_info A) \<in> known_ids L (kd_table (gs_kad (nd_gossip A)))"
    using hA assms(5) by (simp add: healthy_def node_ok_def)
  have some: "map f (packets_of E b j 1) \<noteq> []" for f :: "packet \<Rightarrow> bytes" and b j
    using packet_count_pos [of "length b"] by (auto simp flip: length_0_conv)
  let ?ds = "map (\<lambda>x. the (as_bytes (e_packet E) x)) (packets_of E b j 1)"
  have answers: "\<exists>B1 n B2 rs.
       runs (Suc d) EB L (map (\<lambda>b. Datagram (arrival src [] b)) es @ [MainTurn]) B B1 \<and>
       pi_id (nd_info A) \<in> known_ids L (kd_table (gs_kad (nd_gossip B1))) \<and>
       runs (Suc d) EB L (replicate n TransportTurn) B1 B2 \<and> rs \<noteq> [] \<and>
       (\<forall>b \<in> set rs. (b, dest_of (pi_address (nd_info B)) (pi_address (nd_info A))) \<in> set (sk_sent (nd_sock B2))) \<and>
       (\<forall>fs src'. mset fs = mset rs \<longrightarrow> (\<exists>A2.
          runs (Suc d) EA L (map (\<lambda>b. Datagram (arrival src' [] b)) fs @ [MainTurn]) A1 A2 \<and>
          known_ids L (kd_table (gs_kad (nd_gossip A2))) =
            known_ids L (kd_table (gs_kad (nd_gossip A))) \<union> known_ids L (kd_table (gs_kad (nd_gossip B)))))"
    if es: "mset es = mset ?ds" for es src
  proof -
    have "mset es = mset (map (\<lambda>p. the (as_bytes (e_packet EB) p)) (packets_of EB b j 1))" using es by (simp add: EB_def)
    from asked [OF wB assms(4,6,10,12,14,16,18) hB assms(21) mB this, of d src]
    obtain B1 n B2 r ps b' l where B: "runs (Suc d) EB L (map (\<lambda>b. Datagram (arrival src [] b)) es @ [MainTurn]) B B1"
      "pi_id (nd_info A) \<in> known_ids L (kd_table (gs_kad (nd_gossip B1)))" "runs (Suc d) EB L (replicate n TransportTurn) B1 B2"
      "as_bytes (e_message EB) (answer EB r (nd_info B) (Nodes (map (peer_bytes EB) ps))) = Some b'"
      "\<forall>x \<in> set (packets_of EB b' l 1). (the (as_bytes (e_packet EB) x),
        dest_of (pi_address (nd_info B)) (pi_address (nd_info A))) \<in> set (sk_sent (nd_sock B2))"
      and ps: "pi_id ` set ps = insert (pi_id (nd_info A)) (known_ids L (kd_table (gs_kad (nd_gossip B))))" "length ps \<le> 8"
      by blast
    have mA: "as_bytes (e_message EA) (answer EA r (nd_info B) (Nodes (map (peer_bytes EA) ps))) = Some b'"
      using B(4) by (simp add: EA_def EB_def)
    have "\<exists>A2. runs (Suc d) EA L (map (\<lambda>b. Datagram (arrival src' [] b)) fs @ [MainTurn]) A1 A2 \<and>
        known_ids L (kd_table (gs_kad (nd_gossip A2))) =
          known_ids L (kd_table (gs_kad (nd_gossip A))) \<union> known_ids L (kd_table (gs_kad (nd_gossip B)))"
      if fs: "mset fs = mset (map (\<lambda>x. the (as_bytes (e_packet E) x)) (packets_of E b' l 1))" for fs src'
    proof -
      have "mset fs = mset (map (\<lambda>p. the (as_bytes (e_packet EA) p)) (packets_of EA b' l 1))" using fs by (simp add: EA_def)
      from answered [OF wA assms(4) A1'(1,4) _ _ _ _ ps(2) mA this, of d src'] A1'(2,3,5) rt assms(11,15,17)
      show ?thesis using ps(1) idA by auto
    qed
    with B(1-3,5) some [of _ b' l] show ?thesis
      by (intro exI [of _ B1] exI [of _ n] exI [of _ B2] exI [of _ "map (\<lambda>x. the (as_bytes (e_packet E) x)) (packets_of E b' l 1)"])
        (simp add: EB_def)
  qed
  show ?thesis
    using A1 some [of _ b j] sent answers by (intro exI [of _ k] exI [of _ A1] exI [of _ ?ds]) (simp add: EA_def del: runs.simps)
qed

section \<open>Concrete instances\<close>

text \<open>A node that dials another one, which has started and waits for messages.\<close>

definition demo_host :: "(peer_id, peer_info) alist node" where
  "demo_host = (demo_member (Ipv4 10 0 0 9) 0 None)\<lparr>nd_main_pc := KadRecv\<rparr>"

definition demo_newcomer :: "(peer_id, peer_info) alist node" where
  "demo_newcomer = demo_member (Ipv4 10 0 0 8) 1000 demo_dial"

lemma demo_host_fields:
  "pi_address (nd_info demo_host) = SocketAddrV4 (Ipv4 10 0 0 9) 9292" "pending (nd_handler demo_host) = []"
  "kd_from_transport (gs_kad (nd_gossip demo_host)) = chan_new" "sendable [] demo_host" "nd_handler_up demo_host"
  "nd_main_pc demo_host = KadRecv"
  by (simp_all add: demo_host_def sendable_def working_def demo_member_def node_new_def parse_format_addr
      peer_info_new_def lru.routing_table_new_eq Let_def unwrap_parse_def demo_sock_def ref_env_def handler_new_def
      gossip_service_new_def kademlia_new_def transport_new_def)

lemma demo_newcomer_fields:
  "pi_address (nd_info demo_newcomer) = SocketAddrV4 (Ipv4 10 0 0 8) 10292" "pending (nd_handler demo_newcomer) = []"
  "kd_from_transport (gs_kad (nd_gossip demo_newcomer)) = chan_new" "sendable [] demo_newcomer"
  "nd_handler_up demo_newcomer" "nd_main_pc demo_newcomer = Dial" "nd_dial demo_newcomer = demo_dial"
  by (simp_all add: demo_newcomer_def sendable_def working_def demo_member_def node_new_def parse_format_addr
      peer_info_new_def lru.routing_table_new_eq Let_def unwrap_parse_def demo_sock_def ref_env_def handler_new_def
      gossip_service_new_def kademlia_new_def transport_new_def)

lemma demo_host_total: "total_peers lru (kd_table (gs_kad (nd_gossip demo_host))) = 1"
proof -
  have "\<exists>now now' li. routing_table_new lru now now' li = Inr (kd_table (gs_kad (nd_gossip (demo_member ip t dial))))"
    for ip t dial
    using demo_member_new [of t ip dial] unfolding node_new_def Let_def res_bind_eq_Inr
    by (auto simp: gossip_service_new_def kademlia_new_def split: if_splits dest!: sym [of _ "demo_member ip t dial"]) blast
  then show ?thesis using lru.table_new(3) by (fastforce simp: demo_host_def)
qed

lemma demo_pair_ok: "node_ok ref_env lru demo_newcomer" "node_ok ref_env lru demo_host"
  using lru.node_new_ok [OF demo_member_new [where t = 0 and ip = "Ipv4 10 0 0 9" and dial = None]]
    lru.node_new_ok [OF demo_member_new [where t = 1000 and ip = "Ipv4 10 0 0 8" and dial = demo_dial]]
  by (simp_all add: demo_newcomer_def demo_host_def node_ok_def)

lemma demo_pair_healthy:
  "healthy lru 18 (kd_table (gs_kad (nd_gossip demo_newcomer)))" "healthy lru 2 (kd_table (gs_kad (nd_gossip demo_host)))"
  using demo_member_healthy [OF demo_dial_ok(1), of "Ipv4 10 0 0 8" 1000, THEN healthy_less, of 18]
    demo_member_healthy [OF demo_dial_ok(2), of "Ipv4 10 0 0 9" 0, THEN healthy_less, of 2]
  by (simp_all add: demo_newcomer_def demo_host_def)

theorem newcomer_joins_witness:
  "\<exists>k A1 ds B1 n B2 rs A2. runs 1 ref_env lru (MainTurn # replicate k TransportTurn) demo_newcomer A1 \<and> ds \<noteq> [] \<and>
     (\<forall>b \<in> set ds. (b, SocketAddrV4 (Ipv4 10 0 0 9) 9292) \<in> set (sk_sent (nd_sock A1))) \<and>
     runs 1 ref_env lru (map (\<lambda>b. Datagram (arrival demo_addr [] b)) ds @ [MainTurn]) demo_host B1 \<and>
     runs 1 ref_env lru (replicate n TransportTurn) B1 B2 \<and> rs \<noteq> [] \<and>
     (\<forall>b \<in> set rs. (b, SocketAddrV4 (Ipv4 10 0 0 8) 10292) \<in> set (sk_sent (nd_sock B2))) \<and>
     runs 1 ref_env lru (map (\<lambda>b. Datagram (arrival demo_addr [] b)) rs @ [MainTurn]) A1 A2 \<and>
     {pi_id (nd_info demo_newcomer), pi_id (nd_info demo_host)} \<subseteq> known_ids lru (kd_table (gs_kad (nd_gossip A2)))"
proof -
  have dial: "nd_dial demo_newcomer = Some (addr_to_string (SocketAddrV4 (Ipv4 10 0 0 9) 9292))"
    by (simp add: demo_newcomer_fields demo_dial_def)
  have ids: "pi_id (nd_info demo_newcomer) \<in> known_ids lru (kd_table (gs_kad (nd_gossip demo_newcomer)))"
    "pi_id (nd_info demo_host) \<in> known_ids lru (kd_table (gs_kad (nd_gossip demo_host)))"
    using demo_pair_healthy demo_pair_ok by (simp_all add: healthy_def node_ok_def)
  note j = newcomer_joins [OF ref.wire_axioms lru.linked_hash_map_axioms, of demo_machine demo_newcomer demo_machine demo_host
      "addr_to_string (SocketAddrV4 (Ipv4 10 0 0 9) 9292)" "[]" "[]" 0, unfolded demo_on_machine,
      OF demo_pair_ok demo_newcomer_fields(6) dial _ demo_host_fields(6) demo_newcomer_fields(5) demo_host_fields(5)
        demo_newcomer_fields(4) demo_host_fields(4) demo_newcomer_fields(2) demo_host_fields(2)
        demo_newcomer_fields(3) demo_host_fields(3) demo_pair_healthy, unfolded demo_host_total demo_host_fields(1)
        demo_newcomer_fields(1)]
  have le: "(1 :: nat) \<le> 7" by simp
  have d: "dest_of (SocketAddrV4 (Ipv4 10 0 0 8) 10292) (SocketAddrV4 (Ipv4 10 0 0 9) 9292) = SocketAddrV4 (Ipv4 10 0 0 9) 9292"
    "dest_of (SocketAddrV4 (Ipv4 10 0 0 9) 9292) (SocketAddrV4 (Ipv4 10 0 0 8) 10292) = SocketAddrV4 (Ipv4 10 0 0 8) 10292"
    by (simp_all add: dest_of_def)
  obtain k A1 ds where A1: "runs 1 ref_env lru (MainTurn # replicate k TransportTurn) demo_newcomer A1" "ds \<noteq> []"
    "\<forall>b \<in> set ds. (b, SocketAddrV4 (Ipv4 10 0 0 9) 9292) \<in> set (sk_sent (nd_sock A1))"
    and next1: "\<forall>es src. mset es = mset ds \<longrightarrow> (\<exists>B1 n B2 rs.
       runs 1 ref_env lru (map (\<lambda>b. Datagram (arrival src [] b)) es @ [MainTurn]) demo_host B1 \<and>
       pi_id (nd_info demo_newcomer) \<in> known_ids lru (kd_table (gs_kad (nd_gossip B1))) \<and>
       runs 1 ref_env lru (replicate n TransportTurn) B1 B2 \<and> rs \<noteq> [] \<and>
       (\<forall>b \<in> set rs. (b, SocketAddrV4 (Ipv4 10 0 0 8) 10292) \<in> set (sk_sent (nd_sock B2))) \<and>
       (\<forall>fs src'. mset fs = mset rs \<longrightarrow> (\<exists>A2.
          runs 1 ref_env lru (map (\<lambda>b. Datagram (arrival src' [] b)) fs @ [MainTurn]) A1 A2 \<and>
          known_ids lru (kd_table (gs_kad (nd_gossip A2))) =
            known_ids lru (kd_table (gs_kad (nd_gossip demo_newcomer))) \<union> known_ids lru (kd_table (gs_kad (nd_gossip demo_host))))))"
    using j [OF parse_addr_to_string le] unfolding d One_nat_def by blast
  from next1 [rule_format, OF refl, of demo_addr] obtain B1 n B2 rs where
    B: "runs 1 ref_env lru (map (\<lambda>b. Datagram (arrival demo_addr [] b)) ds @ [MainTurn]) demo_host B1"
      "runs 1 ref_env lru (replicate n TransportTurn) B1 B2" "rs \<noteq> []"
      "\<forall>b \<in> set rs. (b, SocketAddrV4 (Ipv4 10 0 0 8) 10292) \<in> set (sk_sent (nd_sock B2))"
    and next2: "\<forall>fs src'. mset fs = mset rs \<longrightarrow> (\<exists>A2.
          runs 1 ref_env lru (map (\<lambda>b. Datagram (arrival src' [] b)) fs @ [MainTurn]) A1 A2 \<and>
          known_ids lru (kd_table (gs_kad (nd_gossip A2))) =
            known_ids lru (kd_table (gs_kad (nd_gossip demo_newcomer))) \<union> known_ids lru (kd_table (gs_kad (nd_gossip demo_host))))"
    by blast
  from next2 [rule_format, OF refl, of demo_addr] ids obtain A2 where
    "runs 1 ref_env lru (map (\<lambda>b. Datagram (arrival demo_addr [] b)) rs @ [MainTurn]) A1 A2"
    "{pi_id (nd_info demo_newcomer), pi_id (nd_info demo_host)} \<subseteq> known_ids lru (kd_table (gs_kad (nd_gossip A2)))"
    by auto
  with A1 B show ?thesis by blast
qed

end
