(* ===== verification/Conversation.thy ===== *)
theory Conversation
  imports Join
begin

text \<open>
  A network of freshly started nodes (\<open>examples/chat.rs\<close>) from the first turn to the first line
  that is shown. What the other theories prove of single nodes is put together here: the runs of a
  node become runs of the network, whose datagrams reach a node only because another one sent them
  to it. Proved: a node and a newcomer that dials it can come to converse.
\<close>

section \<open>Runs of a node as runs of the network\<close>

text \<open>
  A network in which every datagram that arrives at a node was sent to it by another one, and comes
  from that node's address: nothing is misdelivered or disguised.
\<close>

definition addressed :: "nat \<Rightarrow> 'm node list \<Rightarrow> node_event \<Rightarrow> bool" where
  "addressed i ns e \<longleftrightarrow> (case e of
       Datagram res \<Rightarrow> \<exists>b j. j < length ns \<and> j \<noteq> i \<and> res = arrival (pi_address (nd_info (ns ! j))) [] b \<and>
         (b, dest_of (pi_address (nd_info (ns ! j))) (pi_address (nd_info (ns ! i)))) \<in> set (sk_sent (nd_sock (ns ! j)))
     | _ \<Rightarrow> True)"

inductive net_faithful ::
    "nat \<Rightarrow> env \<Rightarrow> (nat \<Rightarrow> machine) \<Rightarrow> 'm lhm \<Rightarrow> 'm network \<Rightarrow> 'm network \<Rightarrow> bool" for d E mc L nw where
  start: "net_faithful d E mc L nw nw"
| step: "net_faithful d E mc L nw nw' \<Longrightarrow> possible E mc i e nw' \<Longrightarrow> addressed i (nw_nodes nw') e \<Longrightarrow>
    net_faithful d E mc L nw (net_turn d E mc L i e nw')"

lemma faithful_reachable: "net_faithful d E mc L nw nw' \<Longrightarrow> net_reachable d E mc L nw nw'"
  by (induction rule: net_faithful.induct) (auto intro: net_reachable.intros)

lemma net_faithful_trans:
  "net_faithful d E mc L nw' nw'' \<Longrightarrow> net_faithful d E mc L nw nw' \<Longrightarrow> net_faithful d E mc L nw nw''"
  by (induction rule: net_faithful.induct) (blast intro: net_faithful.step)+

lemma addressed_update:
  "nd_info nd = nd_info (ns ! i) \<Longrightarrow> addressed i (ns[i := nd]) e = addressed i ns e"
  by (cases "i < length ns"; cases e) (simp_all add: addressed_def not_less list_update_beyond cong: conj_cong)

lemma addressed_carried: "addressed i ns e \<Longrightarrow> carried E ns e"
  by (cases e) (fastforce simp: addressed_def arrival_def in_the_air_def list_ex_iff)+

lemma net_turn_sel:
  "nw_nodes (net_turn d E mc L i e nw) = (nw_nodes nw)[i := node_turn d (on_machine E (mc i)) L e (nw_nodes nw ! i)]"
  "nw_ledger (net_turn d E mc L i e nw) = log_event (on_machine E (mc i)) e (nw_nodes nw ! i) (nw_ledger nw)"
  by (simp_all add: net_turn_def Let_def)

lemma quiet_log: "e \<noteq> TransportTurn \<Longrightarrow> lg_sent (log_event E e nd H) = lg_sent H"
  by (cases "(E, e, nd, H)" rule: log_event.cases) (auto split: option.split)

lemma quiet_fresh: "e \<noteq> TransportTurn \<Longrightarrow> fresh E e nd H"
  by (cases e) simp_all

text \<open>A run without turns of the transport thread.\<close>

lemma quiet_run:
  assumes "runs d (on_machine E (mc i)) L es (nw_nodes nw ! i) nd'" and "i < length (nw_nodes nw)"
    and "TransportTurn \<notin> set es" and "list_all (addressed i (nw_nodes nw)) es"
    and "linked_hash_map L" and "node_ok (on_machine E (mc i)) L (nw_nodes nw ! i)"
  shows "\<exists>nw'. net_faithful d E mc L nw nw' \<and> nw_nodes nw' = (nw_nodes nw)[i := nd'] \<and>
    lg_sent (nw_ledger nw') = lg_sent (nw_ledger nw)"
  using assms(1-4,6)
proof (induction es arbitrary: nw)
  case Nil
  then show ?case by (intro exI [of _ nw]) (simp add: net_faithful.start)
next
  case (Cons e es)
  let ?nw = "net_turn d E mc L i e nw"
  have "possible E mc i e nw"
    using Cons.prems by (auto simp: possible_def quiet_fresh intro: addressed_carried)
  then have one: "net_faithful d E mc L nw ?nw" using Cons.prems(4) by (auto intro: net_faithful.intros)
  have ok: "node_ok (on_machine E (mc i)) L (node_turn d (on_machine E (mc i)) L e (nw_nodes nw ! i))"
    "nd_info (node_turn d (on_machine E (mc i)) L e (nw_nodes nw ! i)) = nd_info (nw_nodes nw ! i)"
    using linked_hash_map.node_turn_ok [OF assms(5) Cons.prems(5)] by blast+
  have e: "e \<noteq> TransportTurn" using Cons.prems(3) by auto
  have "\<exists>nw'. net_faithful d E mc L ?nw nw' \<and> nw_nodes nw' = (nw_nodes ?nw)[i := nd'] \<and>
      lg_sent (nw_ledger nw') = lg_sent (nw_ledger ?nw)"
    by (rule Cons.IH) (use Cons.prems ok in \<open>simp_all add: net_turn_sel list_all_iff addressed_update\<close>)
  then obtain nw' where "net_faithful d E mc L ?nw nw'" "nw_nodes nw' = (nw_nodes ?nw)[i := nd']"
    "lg_sent (nw_ledger nw') = lg_sent (nw_ledger ?nw)" by blast
  with net_faithful_trans [OF _ one] quiet_log [OF e] show ?case
    by (intro exI [of _ nw']) (simp add: net_turn_sel)
qed

text \<open>Turns of the transport thread, which draws its ids at fixed steps of its random source.\<close>

definition packet_id :: "(nat \<Rightarrow> machine) \<Rightarrow> nat \<Rightarrow> nat \<Rightarrow> inner_key" where
  "packet_id mc i t = rand_arr (mc_rand (mc i)) t"

lemma transport_log: "dom (lg_sent (log_event (on_machine E (mc i)) TransportTurn nd H)) \<subseteq> insert (packet_id mc i (nd_tick nd)) (dom (lg_sent H))"
  by (auto simp: next_sent_def packet_id_def on_machine_def split: option.splits transport_call.splits list.splits if_splits)

lemma transport_fresh: "packet_id mc i (nd_tick nd) \<notin> dom (lg_sent H) \<Longrightarrow> fresh (on_machine E (mc i)) TransportTurn nd H"
  by (cases "lg_sent H (packet_id mc i (nd_tick nd))")
    (auto simp: next_sent_def packet_id_def on_machine_def split: option.splits transport_call.splits list.splits)

lemma disjoint_insert: "A' \<subseteq> A \<Longrightarrow> A \<inter> D = {} \<Longrightarrow> x \<notin> A' \<Longrightarrow> D' \<subseteq> insert x D \<Longrightarrow> A' \<inter> D' = {}"
  by blast

lemma transport_run:
  assumes "runs d (on_machine E (mc i)) L (replicate k TransportTurn) (nw_nodes nw ! i) nd'" and "i < length (nw_nodes nw)"
    and "nd_tick (nw_nodes nw ! i) = t" and "inj_on (packet_id mc i) {t..<t + 32 * k}"
    and "packet_id mc i ` {t..<t + 32 * k} \<inter> dom (lg_sent (nw_ledger nw)) = {}"
  shows "\<exists>nw'. net_faithful d E mc L nw nw' \<and> nw_nodes nw' = (nw_nodes nw)[i := nd'] \<and>
    dom (lg_sent (nw_ledger nw')) \<subseteq> dom (lg_sent (nw_ledger nw)) \<union> packet_id mc i ` {t..<t + 32 * k}"
  using assms
proof (induction k arbitrary: nw t)
  case 0
  then show ?case by (intro exI [of _ nw]) (simp add: net_faithful.start)
next
  case (Suc k)
  let ?e = TransportTurn let ?nw = "net_turn d E mc L i ?e nw"
  have t: "t \<in> {t..<t + 32 * Suc k}" by simp
  then have new: "packet_id mc i t \<notin> dom (lg_sent (nw_ledger nw))" using Suc.prems(5) by blast
  then have "fresh (on_machine E (mc i)) ?e (nw_nodes nw ! i) (nw_ledger nw)" using Suc.prems(3) transport_fresh by blast
  then have "possible E mc i ?e nw" using Suc.prems(1,2) by (simp add: possible_def)
  then have one: "net_faithful d E mc L nw ?nw" by (auto intro: net_faithful.intros simp: addressed_def)
  have le: "dom (lg_sent (nw_ledger ?nw)) \<subseteq> insert (packet_id mc i t) (dom (lg_sent (nw_ledger nw)))"
    using transport_log [of E mc i "nw_nodes nw ! i" "nw_ledger nw"] Suc.prems(3) by (simp add: net_turn_sel)
  have sub: "{t + 32..<t + 32 + 32 * k} \<subseteq> {t..<t + 32 * Suc k}" by auto
  then have own: "packet_id mc i t \<notin> packet_id mc i ` {t + 32..<t + 32 + 32 * k}"
    using inj_on_image_mem_iff [OF Suc.prems(4) t sub] by simp
  have apart: "packet_id mc i ` {t + 32..<t + 32 + 32 * k} \<inter> dom (lg_sent (nw_ledger ?nw)) = {}"
    by (rule disjoint_insert [OF image_mono [OF sub] Suc.prems(5) own le])
  have tick: "nd_tick (nw_nodes ?nw ! i) = t + 32"
    using Suc.prems(2,3) by (simp add: net_turn_sel)
  have "runs d (on_machine E (mc i)) L (replicate k TransportTurn) (nw_nodes ?nw ! i) nd'"
    using Suc.prems(1,2) by (simp add: net_turn_sel)
  moreover have "i < length (nw_nodes ?nw)" using Suc.prems(2) by (simp add: net_turn_sel)
  ultimately have "\<exists>nw'. net_faithful d E mc L ?nw nw' \<and> nw_nodes nw' = (nw_nodes ?nw)[i := nd'] \<and>
      dom (lg_sent (nw_ledger nw')) \<subseteq> dom (lg_sent (nw_ledger ?nw)) \<union> packet_id mc i ` {t + 32..<t + 32 + 32 * k}"
    using Suc.IH tick inj_on_subset [OF Suc.prems(4) sub] apart by blast
  then obtain nw' where nw': "net_faithful d E mc L ?nw nw'" "nw_nodes nw' = (nw_nodes ?nw)[i := nd']"
    "dom (lg_sent (nw_ledger nw')) \<subseteq> dom (lg_sent (nw_ledger ?nw)) \<union> packet_id mc i ` {t + 32..<t + 32 + 32 * k}" by blast
  have "dom (lg_sent (nw_ledger nw')) \<subseteq> dom (lg_sent (nw_ledger nw)) \<union> packet_id mc i ` {t..<t + 32 * Suc k}"
    using nw'(3) le image_mono [OF sub, of "packet_id mc i"] imageI [OF t, of "packet_id mc i"] by blast
  with nw'(1,2) net_faithful_trans [OF _ one] show ?case
    by (intro exI [of _ nw']) (simp add: net_turn_sel)
qed

text \<open>What a node sends after some turns.\<close>

lemma sending_run:
  assumes "runs d (on_machine E (mc i)) L es (nw_nodes nw ! i) nd1" and "i < length (nw_nodes nw)"
    and "TransportTurn \<notin> set es" and "list_all (addressed i (nw_nodes nw)) es"
    and "runs d (on_machine E (mc i)) L (replicate k TransportTurn) nd1 nd2"
    and "{nd_tick nd1..<nd_tick nd1 + 32 * k} \<subseteq> T" and "inj_on (packet_id mc i) T"
    and "packet_id mc i ` T \<inter> dom (lg_sent (nw_ledger nw)) = {}"
    and "linked_hash_map L" and "node_ok (on_machine E (mc i)) L (nw_nodes nw ! i)"
  shows "\<exists>nw'. net_faithful d E mc L nw nw' \<and> nw_nodes nw' = (nw_nodes nw)[i := nd2] \<and>
    dom (lg_sent (nw_ledger nw')) \<subseteq> dom (lg_sent (nw_ledger nw)) \<union> packet_id mc i ` T"
proof -
  obtain nw1 where nw1: "net_faithful d E mc L nw nw1" "nw_nodes nw1 = (nw_nodes nw)[i := nd1]"
    "lg_sent (nw_ledger nw1) = lg_sent (nw_ledger nw)" using quiet_run [of d E mc i L es nw nd1] assms(1-4,9,10) by blast
  note sub = image_mono [OF assms(6), of "packet_id mc i"]
  have "packet_id mc i ` {nd_tick nd1..<nd_tick nd1 + 32 * k} \<inter> dom (lg_sent (nw_ledger nw1)) = {}"
    using assms(8) sub unfolding nw1(3) by blast
  then obtain nw2 where nw2: "net_faithful d E mc L nw1 nw2" "nw_nodes nw2 = (nw_nodes nw)[i := nd2]"
    "dom (lg_sent (nw_ledger nw2)) \<subseteq> dom (lg_sent (nw_ledger nw)) \<union> packet_id mc i ` {nd_tick nd1..<nd_tick nd1 + 32 * k}"
    using transport_run [of d E mc i L k nw1 nd2 "nd_tick nd1"] assms(2,5) inj_on_subset [OF assms(7,6)] nw1(2,3) by auto
  have "net_faithful d E mc L nw nw2" by (rule net_faithful_trans [OF nw2(1) nw1(1)])
  with nw2(2,3) sub show ?thesis by blast
qed

section \<open>A started node\<close>

text \<open>What the first turns of a node rely on.\<close>

definition newborn :: "env \<Rightarrow> 'm lhm \<Rightarrow> 'm node \<Rightarrow> bool" where
  "newborn E L nd \<longleftrightarrow> node_ok E L nd \<and> all_up nd \<and> nd_main_pc nd = Dial \<and>
     healthy L 900 (kd_table (gs_kad (nd_gossip nd))) \<and> total_peers L (kd_table (gs_kad (nd_gossip nd))) = 1 \<and>
     ch_queue (om_rx (nd_transport nd)) = [] \<and> ch_queue (ia_rx (nd_transport nd)) = [] \<and>
     pending (nd_handler nd) = [] \<and> kd_from_transport (gs_kad (nd_gossip nd)) = chan_new \<and>
     ch_queue (gs_to_gossip_rx (nd_gossip nd)) = [] \<and> gs_cache (nd_gossip nd) = [] \<and>
     gc_interval (gs_config (nd_gossip nd)) = 250000000 \<and> gc_history_gossip (gs_config (nd_gossip nd)) = 3 \<and>
     config_ok (gs_config (nd_gossip nd)) \<and> gs_heartbeat (nd_gossip nd) = e_now E (nd_tick nd - 2) \<and>
     ch_queue (nd_chat nd) = [] \<and> nd_screen nd = []"

lemma started_newborn:
  assumes "linked_hash_map L" and "started E L nd"
  shows "newborn E L nd"
proof -
  obtain digest_bytes factor t pub_ip sk dial where
    new: "node_new E L digest_bytes factor t pub_ip (Some sk) dial = Inr nd"
    using assms(2) unfolding started_def by blast
  have ok: "node_ok E L nd" by (rule linked_hash_map.node_new_ok [OF assms(1) new])
  show ?thesis
    by (insert node_new_fields [OF new], elim exE conjE, frule linked_hash_map.table_new_healthy [OF assms(1)],
        frule linked_hash_map.table_new(3) [OF assms(1)])
      (use ok new_gossip_config_ok in \<open>simp add: newborn_def all_up_def transport_new_def handler_new_def
        gossip_service_new_def kademlia_new_def gossip_config_new_def add.commute [of 37 t]\<close>)
qed

text \<open>A node that has dialled and waits for what comes.\<close>

definition waiting :: "env \<Rightarrow> 'm lhm \<Rightarrow> 'm node \<Rightarrow> bool" where
  "waiting E L nd \<longleftrightarrow> node_ok E L nd \<and> all_up nd \<and> nd_main_pc nd = KadRecv \<and>
     healthy L 1 (kd_table (gs_kad (nd_gossip nd))) \<and> pending (nd_handler nd) = [] \<and>
     kd_from_transport (gs_kad (nd_gossip nd)) = chan_new \<and> ch_queue (gs_to_gossip_rx (nd_gossip nd)) = [] \<and>
     gs_cache (nd_gossip nd) = [] \<and> ch_queue (nd_chat nd) = [] \<and> nd_screen nd = []"

text \<open>The datagrams of an encoded message, for a peer, among those a node has sent.\<close>

definition on_wire :: "env \<Rightarrow> bytes \<Rightarrow> inner_key \<Rightarrow> peer_info \<Rightarrow> 'm node \<Rightarrow> bool" where
  "on_wire E b i p nd \<longleftrightarrow> (\<forall>x \<in> set (packets_of E b i 1). (the (as_bytes (e_packet E) x),
     dest_of (pi_address (nd_info nd)) (pi_address p)) \<in> set (sk_sent (nd_sock nd)))"

lemma on_wire_machine [simp]: "on_wire (on_machine E c) = on_wire E"
  by (simp add: on_wire_def fun_eq_iff)

lemma now_on_machine: "e_now (on_machine E c) = mc_now c"
  by (simp add: on_machine_def)

lemmas machine_sel = now_on_machine on_machine_sel messages_on_machine packets_on_machine on_wire_machine

text \<open>The first turn of a node that was given no address.\<close>

lemma host_turn:
  assumes "wire E" and "linked_hash_map L" and "nd_main_pc nd = Dial" and "nd_dial nd = None"
    and "healthy L (Suc n) (kd_table (gs_kad (nd_gossip nd)))"
    and "local_info (kd_table (gs_kad (nd_gossip nd))) = nd_info nd"
  shows "\<exists>rt. main_turn d E L nd = (put_kad ((gs_kad (nd_gossip nd))\<lparr>kd_table := rt, kd_to_transport := om_rx (nd_transport nd)\<rparr>,
      nd_tick nd + 2) nd)\<lparr>nd_main_pc := KadRecv\<rparr> \<and> healthy L n rt \<and>
    total_peers L rt \<le> Suc (total_peers L (kd_table (gs_kad (nd_gossip nd)))) \<and> local_info rt = nd_info nd"
proof -
  have kn: "kad_node E L" using assms(1,2) by (simp add: kad_node_def)
  let ?kd = "fst (kad_view nd)" and ?li = "nd_info nd"
  obtain rt where "kad_update E L ?li (?kd, nd_tick nd) = (Inr (), (?kd\<lparr>kd_table := rt\<rparr>, nd_tick nd + 2))"
    "healthy L n rt" "total_peers L rt \<le> Suc (total_peers L (kd_table ?kd))" "local_info rt = ?li"
    using linked_hash_map.kad_update_ok [OF assms(2), of n ?kd E ?li "nd_tick nd"] assms(5,6) by (auto simp: kad_view_def)
  moreover have "as_bytes (e_peer E) ?li = Some (peer_bytes E ?li)"
    using codec.enc_Some [OF serde_codec, of "e_peer E" ?li] assms(1) by (simp add: wire_def peer_bytes_def)
  moreover have "add_peer E L (peer_bytes E ?li) = kad_update E L ?li"
    using kad_node.add_peer_encoded [OF kn] by (simp add: peer_bytes_def)
  ultimately show ?thesis using assms(3,4)
    by (intro exI [of _ rt]) (simp add: main_turn_def node_dial_def act_bind_apply act_then_apply act_apply on_kad_def
      act_zoom_apply, simp add: kad_view_def put_kad_def)
qed

lemma runs_ok:
  assumes "linked_hash_map L" and "runs d E L es nd nd'" and "node_ok E L nd"
  shows "node_ok E L nd' \<and> nd_info nd' = nd_info nd \<and> nd_addr nd' = nd_addr nd"
  using assms(2,3)
proof (induction es arbitrary: nd)
  case (Cons e es)
  then show ?case using linked_hash_map.node_turn_ok [OF assms(1), of E nd d e] by auto
qed simp

section \<open>The two sides of a first conversation\<close>

text \<open>The newcomer: its search on the wire.\<close>

lemma newcomer_searches:
  assumes "wire E" and "linked_hash_map L" and "newborn E L nd" and "nd_dial nd = Some s" and "parse_addr s = Some (pi_address p)"
    and "working (nd_sock nd)"
  shows "\<exists>nd1 k nd' i b j. runs d E L [MainTurn] nd nd1 \<and> nd_tick nd1 = nd_tick nd + 36 \<and>
    runs d E L (replicate k TransportTurn) nd1 nd' \<and> k \<le> 3 \<and>
    as_bytes (e_message E) (query E (nd_info nd) i (FindNode (peer_bytes E (nd_info nd)))) = Some b \<and>
    on_wire E b j p nd' \<and> waiting E L nd' \<and> nd_addr nd' = nd_addr nd \<and> nd_info nd' = nd_info nd"
proof -
  note nb = assms(3) [unfolded newborn_def all_up_def]
  have "sendable [] nd" using nb assms(6) by (simp add: sendable_def)
  moreover have "healthy L (Suc (Suc 1)) (kd_table (gs_kad (nd_gossip nd)))"
    by (rule healthy_less [of _ 900]) (use nb in simp_all)
  ultimately obtain rt c nd1 k nd' b i j where nd1: "runs d E L [MainTurn] nd nd1"
    "nd1 = (put_kad ((gs_kad (nd_gossip nd))\<lparr>kd_table := rt, kd_to_transport := c\<rparr>, nd_tick nd + 36) nd)\<lparr>nd_main_pc := KadRecv\<rparr>"
    "healthy L 1 rt" and nd': "runs d E L (replicate k TransportTurn) nd1 nd'" "k \<le> 3 * Suc (length ([] :: (socket_addr \<times> message) list))"
    "only_transport nd1 nd'"
    and b: "as_bytes (e_message E) (query E (nd_info nd) i (FindNode (peer_bytes E (nd_info nd)))) = Some b"
    "\<forall>x \<in> set (packets_of E b j 1). (the (as_bytes (e_packet E) x), dest_of (pi_address (nd_info nd)) (pi_address p)) \<in>
      set (sk_sent (nd_sock nd'))"
    using dialled [OF assms(1,2) _ _ assms(4,5), of "[]" 1 d] nb by blast
  have ok: "node_ok E L nd' \<and> nd_info nd' = nd_info nd \<and> nd_addr nd' = nd_addr nd"
    using runs_ok [OF assms(2) nd1(1)] runs_ok [OF assms(2) nd'(1)] nb by simp
  then have "waiting E L nd'"
    using nd'(3) nb nd1(3) by (simp add: waiting_def) (auto simp: only_transport_def nd1(2) put_kad_def all_up_def)
  moreover have "nd_tick nd1 = nd_tick nd + 36" by (simp add: nd1(2) put_kad_def)
  moreover have "on_wire E b j p nd'" using b(2) ok by (simp add: on_wire_def)
  moreover have "k \<le> 3" using nd'(2) by simp
  ultimately show ?thesis using nd1(1) nd'(1) b(1) ok by blast
qed

text \<open>The node it dialled: once the search has arrived, what is typed there goes to the newcomer too.\<close>

lemma host_talks:
  fixes E :: env and nd :: "'m node" and line :: string
  assumes "wire E" and "linked_hash_map L" and "gen_range_ok E" and "newborn E L nd" and "nd_dial nd = None"
    and "working (nd_sock nd)" and "pi_address li \<noteq> nd_addr nd"
    and "as_bytes (e_message E) (query E li i (FindNode (peer_bytes E li))) = Some b"
    and "ds = map (\<lambda>p. the (as_bytes (e_packet E) p)) (packets_of E b j 1)"
    and "e_now E (nd_tick nd + 72) - e_now E (nd_tick nd + 71) < 750000000"
    and "250000000 < e_now E (nd_tick nd + 73) - e_now E (nd_tick nd - 2)"
  shows "\<exists>nd1 k nd' g gb m l. runs (Suc d) E L ([MainTurn] @ (map (\<lambda>b. Datagram (arrival src [] b)) ds @ [MainTurn]) @
      [Line (Some line), MainTurn, MainTurn]) nd nd1 \<and> nd_tick nd1 = nd_tick nd + 74 \<and>
    runs (Suc d) E L (replicate k TransportTurn) nd1 nd' \<and> k \<le> 3 * (packet_count (length b) + 16) \<and>
    gm_data g = str_bytes (trim line) \<and> gm_sender g = nd_addr nd \<and>
    as_bytes (e_gossip E) g = Some gb \<and> as_bytes (e_message E) \<lparr>head = Gossip, msg = gb\<rparr> = Some m \<and>
    on_wire E m l li nd' \<and> nd_info nd' = nd_info nd"
proof -
  note nb = assms(4) [unfolded newborn_def all_up_def]
  have info: "local_info (kd_table (gs_kad (nd_gossip nd))) = nd_info nd" using nb by (simp add: node_ok_def)
  have "healthy L (Suc 800) (kd_table (gs_kad (nd_gossip nd)))" by (rule healthy_less [of _ 900]) (use nb in simp_all)
  from host_turn [OF assms(1,2) _ assms(5) this info, of "Suc d"] nb obtain rt0 where
    turn: "main_turn (Suc d) E L nd = (put_kad ((gs_kad (nd_gossip nd))\<lparr>kd_table := rt0, kd_to_transport := om_rx (nd_transport nd)\<rparr>,
      nd_tick nd + 2) nd)\<lparr>nd_main_pc := KadRecv\<rparr>" (is "_ = ?nd0")
    and rt0: "healthy L 800 rt0" "total_peers L rt0 \<le> Suc 1" by auto
  have run0: "runs (Suc d) E L [MainTurn] nd ?nd0" using nb by (simp add: turn)
  have ok0: "node_ok E L ?nd0" using runs_ok [OF assms(2) run0] nb by blast
  have h0: "healthy L (Suc (Suc 700)) rt0" by (rule healthy_less [OF rt0(1)]) simp
  have "sendable [] ?nd0" using nb assms(6) by (simp add: sendable_def put_kad_def)
  from searched [OF assms(1,2) ok0 _ _ this _ _ _ _ assms(8), of 700 ds j d src] obtain nd1 rt c where
    run1: "runs (Suc d) E L (map (\<lambda>b. Datagram (arrival src [] b)) ds @ [MainTurn]) ?nd0 nd1"
    and nd1: "after_kad ?nd0 ((gs_kad (nd_gossip ?nd0))\<lparr>kd_table := rt, kd_to_transport := c\<rparr>) (nd_tick ?nd0 + 36) nd1"
    and rt: "li \<in> rt_peers L rt" "total_peers L rt \<le> Suc (Suc (total_peers L rt0))" "healthy L 700 rt"
    and c: "length (ch_queue c) \<le> packet_count (length b) + 9"
    using nb h0 rt0(2) assms(9) by (auto simp: put_kad_def)
  note after = nd1 [unfolded after_kad_def]
  have "listening E L nd1"
    using runs_ok [OF assms(2) run1 ok0] after nb healthy_less [OF rt(3), of 1]
    by (simp add: listening_def) (simp add: put_kad_def)
  moreover have "sendable (ch_queue c) nd1" using after nb assms(6) by (simp add: sendable_def) (simp add: put_kad_def)
  moreover have "li \<in> set (get_all_peers E L rt)"
    using linked_hash_map.in_all_rt_peers [OF assms(2), of rt] rt(1,3) by (auto simp: healthy_def)
  moreover have fields: "nd_tick nd1 = nd_tick nd + 39" "nd_addr nd1 = nd_addr nd" "nd_info nd1 = nd_info nd"
    "gs_cache (nd_gossip nd1) = []" "gs_config (nd_gossip nd1) = gs_config (nd_gossip nd)"
    "gs_heartbeat (nd_gossip nd1) = e_now E (nd_tick nd - 2)" "kd_table (gs_kad (nd_gossip nd1)) = rt"
    using after nb by (simp_all add: put_kad_def)
  moreover have "total_peers L rt \<le> 7" using rt(2) rt0(2) by simp
  ultimately obtain nd2 k nd' gb m l where nd2: "runs (Suc d) E L [Line (Some line), MainTurn, MainTurn] nd1 nd2" "nd_tick nd2 = nd_tick nd1 + 35"
    "runs (Suc d) E L (replicate k TransportTurn) nd2 nd'"
    "k \<le> 3 * (length (ch_queue c) + 7 * Suc (length (gs_cache (nd_gossip nd1))))"
    and g: "as_bytes (e_gossip E) (typed_message E nd1 line) = Some gb" "as_bytes (e_message E) \<lparr>head = Gossip, msg = gb\<rparr> = Some m"
    "\<forall>x \<in> set (packets_of E m l 1). (the (as_bytes (e_packet E) x),
      dest_of (pi_address (nd_info nd1)) (pi_address li)) \<in> set (sk_sent (nd_sock nd'))"
    using line_on_wire [OF assms(1-3), of nd1 "ch_queue c" li line "Suc d"] nb assms(7,10,11)
    by (auto simp: hm_contains_def hm_get_Nil add.commute)
  have "k \<le> 3 * (packet_count (length b) + 16)" using nd2(4) c fields(4) by simp
  moreover have "nd_tick nd2 = nd_tick nd + 74" using nd2(2) fields(1) by simp
  moreover have "runs (Suc d) E L ([MainTurn] @ (map (\<lambda>b. Datagram (arrival src [] b)) ds @ [MainTurn]) @
      [Line (Some line), MainTurn, MainTurn]) nd nd2"
    using run0 run1 nd2(1) unfolding runs_append by blast
  moreover have info': "nd_info nd' = nd_info nd1"
    using runs_ok [OF assms(2) nd2(1)] runs_ok [OF assms(2) nd2(3)] runs_ok [OF assms(2) run1 ok0] by simp
  ultimately show ?thesis using nd2(3) g fields(2,3)
    by (intro exI [of _ nd2] exI [of _ k] exI [of _ nd'] exI [of _ "typed_message E nd1 line"] exI [of _ gb] exI [of _ m] exI [of _ l])
      (simp add: typed_message_def on_wire_def)
qed

text \<open>The newcomer again: it shows the line.\<close>

lemma newcomer_hears:
  fixes E :: env
  assumes "wire E" and "linked_hash_map L" and "gen_range_ok E" and "waiting E L nd" and "src \<noteq> nd_addr nd"
    and "as_bytes (e_gossip E) g = Some gb" and "as_bytes (e_message E) \<lparr>head = Gossip, msg = gb\<rparr> = Some m"
    and "ds = map (\<lambda>p. the (as_bytes (e_packet E) p)) (packets_of E m l 1)"
  shows "\<exists>nd'. runs d E L ([MainTurn] @ map (\<lambda>b. Datagram (arrival src [] b)) ds @ [MainTurn, ShowTurn]) nd nd' \<and> nd_screen nd' = [g]"
proof -
  note w = assms(4) [unfolded waiting_def all_up_def]
  have turn: "main_turn d E L nd = (put_kad (kad_view (nd\<lparr>nd_tick := nd_tick nd + 1\<rparr>)) nd)\<lparr>nd_main_pc := GossipRecv\<rparr>"
    (is "_ = ?nd1") by (rule idle_kad_turn) (use w in \<open>simp_all add: chan_new_def\<close>)
  have run: "runs d E L [MainTurn] nd ?nd1" using w by (simp add: turn)
  have "listening E L ?nd1"
    using runs_ok [OF assms(2) run] w by (simp add: listening_def) (simp add: put_kad_def kad_view_def)
  from rumour_printed [OF assms(1-3) this _ _ _ _ assms(6,7), of l src ds d] w assms(5,8) obtain nd' where
    "runs d E L (map (\<lambda>b. Datagram (arrival src [] b)) ds @ [MainTurn, ShowTurn]) ?nd1 nd'" "nd_screen nd' = [g]"
    by (auto simp: hm_contains_def hm_get_Nil put_kad_def kad_view_def)
  with run show ?thesis unfolding runs_append by blast
qed

section \<open>The conversation in the network\<close>

lemma no_transport [simp]: "TransportTurn \<notin> (\<lambda>x. Datagram (f x)) ` S"
  by auto

text \<open>The datagrams of a message arrive at another node than the one that sent it.\<close>

lemma addressed_datagrams:
  assumes "on_wire E b l (nd_info (ns ! i)) (ns ! j)" and "j < length ns" and "j \<noteq> i" and "src = pi_address (nd_info (ns ! j))"
  shows "list_all (addressed i ns) (map (\<lambda>b. Datagram (arrival src [] b)) (map (\<lambda>p. the (as_bytes (e_packet E) p)) (packets_of E b l 1)))"
  using assms by (fastforce simp: addressed_def list_all_iff on_wire_def)

lemma ids_apart:
  assumes "inj_on (\<lambda>(n, t). packet_id mc n t) ({i} \<times> T \<union> {j} \<times> T')" and "i \<noteq> j"
  shows "inj_on (packet_id mc i) T" and "inj_on (packet_id mc j) T'" and "packet_id mc i ` T \<inter> packet_id mc j ` T' = {}"
proof -
  have eq: "m = n \<and> t = t'" if "packet_id mc m t = packet_id mc n t'" "(m, t) \<in> {i} \<times> T \<union> {j} \<times> T'"
      "(n, t') \<in> {i} \<times> T \<union> {j} \<times> T'" for m n t t'
    using inj_onD [OF assms(1), of "(m, t)" "(n, t')"] that by simp
  show "inj_on (packet_id mc i) T" by (rule inj_onI) (drule eq, simp_all)
  show "inj_on (packet_id mc j) T'" by (rule inj_onI) (drule eq, simp_all)
  have False if x: "x \<in> packet_id mc i ` T" "x \<in> packet_id mc j ` T'" for x
  proof -
    obtain t t' where "x = packet_id mc i t" "x = packet_id mc j t'" "t \<in> T" "t' \<in> T'" using x by blast
    with eq [of i t j t'] assms(2) show False by simp
  qed
  then show "packet_id mc i ` T \<inter> packet_id mc j ` T' = {}" by blast
qed

text \<open>From a network nothing has been sent in yet.\<close>

lemma conversation_run:
  fixes E :: env and ns :: "'m node list" and line :: string
  assumes "wire E" and "linked_hash_map L" and "\<And>n. gen_range_ok (on_machine E (mc n))"
    and "nw_nodes nw = ns" and "dom (lg_sent (nw_ledger nw)) = {}"
    and "newborn (on_machine E (mc i)) L (ns ! i)" and "newborn (on_machine E (mc j)) L (ns ! j)"
    and "i < length ns" and "j < length ns" and "i \<noteq> j" and "working (nd_sock (ns ! i))" and "working (nd_sock (ns ! j))"
    and "nd_dial (ns ! i) = None" and "nd_dial (ns ! j) = Some s" and "parse_addr s = Some (pi_address (nd_info (ns ! i)))"
    and "pi_address (nd_info (ns ! j)) \<noteq> nd_addr (ns ! i)" and "pi_address (nd_info (ns ! i)) \<noteq> nd_addr (ns ! j)"
    and "mc_now (mc i) (nd_tick (ns ! i) + 72) - mc_now (mc i) (nd_tick (ns ! i) + 71) < 750000000"
    and "250000000 < mc_now (mc i) (nd_tick (ns ! i) + 73) - mc_now (mc i) (nd_tick (ns ! i) - 2)"
    and "\<And>id b. as_bytes (e_message E) (query E (nd_info (ns ! j)) id (FindNode (peer_bytes E (nd_info (ns ! j))))) = Some b \<Longrightarrow>
      96 * packet_count (length b) + 1700 \<le> N"
    and "inj_on (\<lambda>(n, t). packet_id mc n t)
      ({i} \<times> {nd_tick (ns ! i)..<nd_tick (ns ! i) + N} \<union> {j} \<times> {nd_tick (ns ! j)..<nd_tick (ns ! j) + N})"
  shows "\<exists>nw' g. net_faithful (Suc d) E mc L nw nw' \<and> nd_screen (nw_nodes nw' ! j) = [g] \<and>
    gm_data g = str_bytes (trim line) \<and> gm_sender g = nd_addr (ns ! i)"
proof -
  let ?A = "ns ! j" and ?B = "ns ! i" and ?EA = "on_machine E (mc j)" and ?EB = "on_machine E (mc i)"
  let ?to = "\<lambda>nd b l. map (\<lambda>b. Datagram (arrival (pi_address (nd_info nd)) [] b)) (map (\<lambda>p. the (as_bytes (e_packet E) p)) (packets_of E b l 1))"
  have w: "wire ?EA" "wire ?EB" using assms(1) by simp_all
  have nb: "newborn ?EA L ?A" "newborn ?EB L ?B" using assms(6,7) by simp_all
  then have ok: "node_ok ?EA L ?A" "node_ok ?EB L ?B" by (simp_all add: newborn_def)
  note apart = ids_apart [OF assms(21,10)]
  text \<open>The newcomer dials.\<close>
  obtain A1 k A2 id b l where A1: "runs (Suc d) ?EA L [MainTurn] ?A A1" "nd_tick A1 = nd_tick ?A + 36"
    and A2: "runs (Suc d) ?EA L (replicate k TransportTurn) A1 A2" "k \<le> 3" "on_wire E b l (nd_info ?B) A2" "waiting ?EA L A2"
      "nd_addr A2 = nd_addr ?A" "nd_info A2 = nd_info ?A"
    and b: "as_bytes (e_message E) (query E (nd_info ?A) id (FindNode (peer_bytes E (nd_info ?A)))) = Some b"
    using newcomer_searches [OF w(1) assms(2) nb(1) assms(14,15,12), of "Suc d"] by auto
  have N: "96 * packet_count (length b) + 1700 \<le> N" by (rule assms(20) [OF b])
  have "{nd_tick A1..<nd_tick A1 + 32 * k} \<subseteq> {nd_tick ?A..<nd_tick ?A + N}" using A2(2) N by (auto simp: A1(2))
  from sending_run [where es = "[MainTurn]" and nw = nw, OF _ _ _ _ A2(1) this apart(2)] A1(1) assms(2,9) ok(1)
  obtain nw1 where nw1: "net_faithful (Suc d) E mc L nw nw1" "nw_nodes nw1 = ns[j := A2]"
    "dom (lg_sent (nw_ledger nw1)) \<subseteq> packet_id mc j ` {nd_tick ?A..<nd_tick ?A + N}"
    using assms(4,5) by (auto simp: addressed_def)
  text \<open>The node it dialled files it, and a line is typed there.\<close>
  obtain B1 n B2 g gb m r where B1: "runs (Suc d) ?EB L ([MainTurn] @ (?to ?A b l @ [MainTurn]) @ [Line (Some line), MainTurn, MainTurn]) ?B B1"
      "nd_tick B1 = nd_tick ?B + 74"
    and B2: "runs (Suc d) ?EB L (replicate n TransportTurn) B1 B2" "n \<le> 3 * (packet_count (length b) + 16)" "on_wire E m r (nd_info ?A) B2" "nd_info B2 = nd_info ?B"
    and g: "gm_data g = str_bytes (trim line)" "gm_sender g = nd_addr ?B"
      "as_bytes (e_gossip E) g = Some gb" "as_bytes (e_message E) \<lparr>head = Gossip, msg = gb\<rparr> = Some m"
    using host_talks [where d = d and src = "pi_address (nd_info ?A)" and line = line, OF w(2) assms(2,3) nb(2) assms(13,11,16) _ refl,
        of id b l, unfolded machine_sel, OF b assms(18,19)] by blast
  have "list_all (addressed i (nw_nodes nw1)) (?to ?A b l)"
    by (rule addressed_datagrams [where j = j]) (use A2(3,6) assms(9,10) nw1(2) in simp_all)
  moreover have "{nd_tick B1..<nd_tick B1 + 32 * n} \<subseteq> {nd_tick ?B..<nd_tick ?B + N}" using B2(2) N by (auto simp: B1(2))
  moreover have "packet_id mc i ` {nd_tick ?B..<nd_tick ?B + N} \<inter> dom (lg_sent (nw_ledger nw1)) = {}"
    using apart(3) nw1(3) by blast
  ultimately obtain nw2 where nw2: "net_faithful (Suc d) E mc L nw1 nw2" "nw_nodes nw2 = ns[j := A2, i := B2]"
    using sending_run [where nw = nw1 and es = "[MainTurn] @ (?to ?A b l @ [MainTurn]) @ [Line (Some line), MainTurn, MainTurn]",
        OF _ _ _ _ B2(1) _ apart(1)] B1(1) assms(2,8,10) nw1(2) ok(2)
    by (auto simp: addressed_def)
  text \<open>The newcomer shows it.\<close>
  obtain A3 where A3: "runs (Suc d) ?EA L ([MainTurn] @ ?to ?B m r @ [MainTurn, ShowTurn]) A2 A3" "nd_screen A3 = [g]"
    using newcomer_hears [where d = "Suc d" and src = "pi_address (nd_info ?B)", OF w(1) assms(2,3) A2(4) _ _ _ refl, of g gb m r]
      g(3,4) A2(5) assms(17) by auto
  have "list_all (addressed j (nw_nodes nw2)) (?to ?B m r)"
    by (rule addressed_datagrams [where j = i]) (use B2(3,4) A2(6) assms(8-10) nw2(2) in simp_all)
  with quiet_run [of "Suc d" E mc j L "[MainTurn] @ ?to ?B m r @ [MainTurn, ShowTurn]" nw2 A3] A3(1) assms(2,9,10) nw2(2) A2(4)
  obtain nw3 where "net_faithful (Suc d) E mc L nw2 nw3" "nw_nodes nw3 ! j = A3"
    by (auto simp: addressed_def waiting_def)
  with net_faithful_trans [OF _ net_faithful_trans [OF nw2(1) nw1(1)]] A3(2) g(1,2) show ?thesis by blast
qed

section \<open>Properties\<close>

text \<open>
  C2: conversation is possible without luck: in a freshly started network in which one
  node was given no address and another one the public address of the first, some interleaving of
  the threads, in which every datagram reaches only the node it was sent to, leads to a state in
  which the newcomer shows exactly what was typed at the first node, trimmed and with its address.
  The sockets must work, the clock of the first node must show that a heartbeat is due, and the ids
  that the two nodes draw for packets in this time must differ.
\<close>

theorem first_conversation:
  fixes E :: env and ns :: "'m node list" and line :: string
  assumes "wire E" and "linked_hash_map L" and "\<And>n. gen_range_ok (on_machine E (mc n))"
    and "list_all2 (\<lambda>n. started (on_machine E (mc n)) L) [0..<length ns] ns"
    and "i < length ns" and "j < length ns" and "i \<noteq> j" and "working (nd_sock (ns ! i))" and "working (nd_sock (ns ! j))"
    and "nd_dial (ns ! i) = None" and "nd_dial (ns ! j) = Some s" and "parse_addr s = Some (pi_address (nd_info (ns ! i)))"
    and "pi_address (nd_info (ns ! j)) \<noteq> nd_addr (ns ! i)" and "pi_address (nd_info (ns ! i)) \<noteq> nd_addr (ns ! j)"
    and "mc_now (mc i) (nd_tick (ns ! i) + 72) - mc_now (mc i) (nd_tick (ns ! i) + 71) < 750000000"
    and "250000000 < mc_now (mc i) (nd_tick (ns ! i) + 73) - mc_now (mc i) (nd_tick (ns ! i) - 2)"
    and "\<And>id b. as_bytes (e_message E) (query E (nd_info (ns ! j)) id (FindNode (peer_bytes E (nd_info (ns ! j))))) = Some b \<Longrightarrow>
      96 * packet_count (length b) + 1700 \<le> N"
    and "inj_on (\<lambda>(n, t). packet_id mc n t)
      ({i} \<times> {nd_tick (ns ! i)..<nd_tick (ns ! i) + N} \<union> {j} \<times> {nd_tick (ns ! j)..<nd_tick (ns ! j) + N})"
  shows "\<exists>nw g. net_faithful (Suc d) E mc L (net_start ns) nw \<and> nd_screen (nw_nodes nw ! j) = [g] \<and>
    gm_data g = str_bytes (trim line) \<and> gm_sender g = nd_addr (ns ! i)"
proof -
  have st: "started (on_machine E (mc i)) L (ns ! i)" "started (on_machine E (mc j)) L (ns ! j)"
    using list_all2_nthD [OF assms(4)] assms(5,6) by auto
  show ?thesis
    by (rule conversation_run [OF assms(1-3) _ _ started_newborn [OF assms(2) st(1)] started_newborn [OF assms(2) st(2)] assms(5-)])
      (simp_all add: net_start_def)
qed

section \<open>Concrete instances\<close>

text \<open>
  Two machines, whose random bytes change every 31 draws, and with it the ids they draw; their
  clocks run a second between the start of a node and its first turn.
\<close>

definition chat_machine :: "nat \<Rightarrow> machine" where
  "chat_machine n = demo_machine\<lparr>mc_rand := \<lambda>t. word_of_nat ((t + 3968 * n) div 31),
     mc_now := \<lambda>t. if t < 39 then t else 10 ^ 9 + t\<rparr>"

definition chat_member :: "nat \<Rightarrow> ipv4 \<Rightarrow> string option \<Rightarrow> (peer_id, peer_info) alist node" where
  "chat_member n ip dial =
     (case node_new (on_machine ref_env (chat_machine n)) lru (\<lambda>b. map char_of_byte b) (\<lambda>k. 4 * k div 10) 0 (Some ip)
        (Some demo_sock) dial of Inr nd \<Rightarrow> nd)"

definition chat_nodes :: "(peer_id, peer_info) alist node list" where
  "chat_nodes = [chat_member 0 (Ipv4 10 0 0 9) None, chat_member 1 (Ipv4 10 0 0 8) demo_dial]"

lemma chat_member_new:
  "node_new (on_machine ref_env (chat_machine n)) lru (\<lambda>b. map char_of_byte b) (\<lambda>k. 4 * k div 10) 0 (Some ip)
     (Some demo_sock) dial = Inr (chat_member n ip dial)"
  by (simp add: chat_member_def node_new_def parse_format_addr peer_info_new_def lru.routing_table_new_eq Let_def
      unwrap_parse_def demo_sock_def ref_env_def on_machine_def chat_machine_def demo_machine_def unat_of_nat take_bit_nat_eq_self)

lemma chat_member_fields:
  "nd_tick (chat_member n ip dial) = 39" "nd_dial (chat_member n ip dial) = dial" "nd_sock (chat_member n ip dial) = demo_sock"
  "nd_addr (chat_member n ip dial) = SocketAddrV4 (Ipv4 0 0 0 0) 9292"
  "pi_address (nd_info (chat_member n ip dial)) = SocketAddrV4 ip 9292" "pi_ip (nd_info (chat_member n ip dial)) = ip"
  "pi_port (nd_info (chat_member n ip dial)) = 9292"
  "length (peer_id_str (pi_id (nd_info (chat_member n ip dial)))) = 32"
  by (simp_all add: chat_member_def node_new_def parse_format_addr peer_info_new_def lru.routing_table_new_eq Let_def
      unwrap_parse_def demo_sock_def ref_env_def on_machine_def chat_machine_def demo_machine_def unat_of_nat take_bit_nat_eq_self
      peer_id_from_key_def get_key_def)

lemma chat_started:
  "list_all2 (\<lambda>n. started (on_machine ref_env (chat_machine n)) lru) [0..<length chat_nodes] chat_nodes"
proof -
  have "started (on_machine ref_env (chat_machine n)) lru (chat_member n ip dial)" if "dial_ok dial" for n ip dial
    unfolding started_def
    by (rule exI, rule exI, rule exI, rule exI, rule exI, rule exI, rule conjI, rule chat_member_new)
      (simp add: demo_sock_def that)
  then show ?thesis using demo_dial_ok by (simp add: chat_nodes_def upt_conv_Cons)
qed

text \<open>The ids the two machines draw differ.\<close>

lemma rand_arr_nth: "k < 32 \<Longrightarrow> arr_list (rand_arr rnd t) ! k = rnd (t + k)"
  by (simp add: rand_arr_def arr_list_arr_of)

lemma counting_ids:
  fixes u v :: nat
  assumes eq: "\<And>k. k < 32 \<Longrightarrow> (word_of_nat ((u + k) div 31) :: u8) = word_of_nat ((v + k) div 31)"
    and "u < 7936" and "v < 7936"
  shows "u = v"
proof -
  have dig: "(u + k) div 31 mod 256 = (v + k) div 31 mod 256" if "k < 32" for k
    using arg_cong [OF eq [OF that], of unat] by (simp add: unat_of_nat take_bit_eq_mod)
  have q: "u div 31 = v div 31" using dig [of 0] assms(2,3) by simp
  have le: "x mod 31 \<le> y mod 31" if "x div 31 = y div 31"
    and dig': "\<And>k. k < 32 \<Longrightarrow> (x + k) div 31 mod 256 = (y + k) div 31 mod 256" for x y :: nat
  proof (rule ccontr)
    assume "\<not> x mod 31 \<le> y mod 31"
    then obtain k where k: "x mod 31 + k = 31" "y mod 31 + k < 31" "k < 32"
      by (intro that [of "31 - x mod 31"]) simp_all
    have carry: "(z + k) div 31 = z div 31 + (z mod 31 + k) div 31" for z :: nat
    proof -
      have "z + k = (z mod 31 + k) + 31 * (z div 31)" by simp
      then show ?thesis by (simp only: div_mult_self2)
    qed
    have "(x + k) div 31 = Suc (x div 31)" unfolding carry [of x] k(1) by simp
    moreover have "(y + k) div 31 = x div 31" unfolding carry [of y] div_less [OF k(2)] \<open>x div 31 = y div 31\<close> by simp
    ultimately have "Suc (x div 31) mod 256 = x div 31 mod 256" using dig' [OF k(3)] by simp
    then show False by (simp add: mod_Suc split: if_splits)
  qed
  have r: "u mod 31 = v mod 31" by (rule le_antisym [OF le [OF q dig] le [OF q [symmetric] dig [symmetric]]])
  have "u = u div 31 * 31 + u mod 31" by simp
  also have "\<dots> = v" unfolding q r by simp
  finally show ?thesis .
qed

lemma chat_ids: "inj_on (\<lambda>(n, t). packet_id chat_machine n t) ({0} \<times> {39..<39 + 2000} \<union> {1} \<times> {39..<39 + 2000})"
proof (rule inj_onI, clarsimp)
  fix m n t t'
  assume "packet_id chat_machine m t = packet_id chat_machine n t'"
    and r: "m = 0 \<and> 39 \<le> t \<and> t < 2039 \<or> m = Suc 0 \<and> 39 \<le> t \<and> t < 2039" "n = 0 \<and> 39 \<le> t' \<and> t' < 2039 \<or> n = Suc 0 \<and> 39 \<le> t' \<and> t' < 2039"
  then have ids: "arr_list (rand_arr (mc_rand (chat_machine m)) t) ! k = arr_list (rand_arr (mc_rand (chat_machine n)) t') ! k" for k
    by (simp add: packet_id_def)
  have "(word_of_nat ((t + 3968 * m + k) div 31) :: u8) = word_of_nat ((t' + 3968 * n + k) div 31)" if "k < 32" for k
    using ids [of k] that by (simp add: rand_arr_nth chat_machine_def add.assoc add.commute [of k])
  from counting_ids [OF this] r have "t + 3968 * m = t' + 3968 * n" by auto
  with r show "m = n \<and> t = t'" by auto
qed

text \<open>The search fits into one packet.\<close>

lemma length_nat_enc: "length (nat_enc n) = Suc (n div 255)"
  by (induction n rule: nat_enc.induct) (simp add: nat_enc.simps [of n for n] div_if)

lemma concat_bytes: "concat (map (pe pc_byte) b) = b"
  by (induction b) (simp_all add: pc_byte_def)

lemma length_pc_bytes: "length (pe pc_bytes b) = Suc (length b div 255) + length b"
  by (simp add: pc_list_def length_nat_enc concat_bytes)

lemma as_bytes_serde: "as_bytes (pc_serde c) x = Some (pe c x)"
  by (simp add: as_bytes_def pc_serde_def)

lemma ref_codes:
  "e_message ref_env = pc_serde pc_message" "e_peer ref_env = pc_serde pc_peer" "e_req ref_env = pc_serde pc_req"
  "e_kad ref_env = pc_serde (pc_map kad_code code_kad (pc_pair pc_nat pc_bytes))" "e_ack ref_env = pc_serde pc_ack"
  "e_rpc ref_env = pc_serde (pc_map rpc_code code_rpc (pc_pair pc_nat (pc_pair pc_arr (pc_list pc_bytes))))"
  by (simp_all add: ref_env_def)

lemma code_lengths:
  "length (pe pc_arr a) = 33" "length (pe pc_string s) = Suc (length s div 255) + length s"
  "length (pe pc_nat k) = Suc (k div 255)" "length (pe pc_byte z) = 1"
  "length (pe (pc_list pc_bytes) [x]) = Suc (length (pe pc_bytes x))"
  by (simp_all add: pc_arr_def pc_string_def pc_nat_def pc_map_def length_pc_bytes length_nat_enc str_bytes_def)
    (simp_all add: pc_byte_def pc_list_def length_nat_enc)

lemma chat_search_length:
  assumes "as_bytes (e_message ref_env) (query ref_env (nd_info (chat_member n ip dial)) i
    (FindNode (peer_bytes ref_env (nd_info (chat_member n ip dial))))) = Some b"
  shows "length b < 1024"
proof -
  let ?p = "nd_info (chat_member n ip dial)"
  have ip: "length (pe pc_ip a) = 4" for a
    by (cases a) (simp add: pc_ip_def pc_map_def pc_pair_def pc_byte_def)
  have peer: "length (peer_bytes ref_env ?p) = 148"
    by (simp add: peer_bytes_def ref_codes as_bytes_serde pc_peer_def pc_map_def pc_pair_def code_lengths ip pc_addr_def chat_member_fields)
  have rpc: "length (the (as_bytes (e_rpc ref_env) (FindNode (peer_bytes ref_env ?p)))) = 184"
    using peer by (simp add: ref_codes as_bytes_serde pc_map_def pc_pair_def code_lengths length_pc_bytes)
  have "b = pe pc_message (query ref_env ?p i (FindNode (peer_bytes ref_env ?p)))"
    using assms by (simp add: ref_codes as_bytes_serde)
  with peer rpc show ?thesis
    by (simp add: query_def peer_bytes_def ref_codes as_bytes_serde pc_message_def pc_req_def pc_tag_def pc_map_def pc_pair_def
        code_lengths length_pc_bytes)
qed


lemma chat_search:
  "as_bytes (e_message ref_env) (query ref_env (nd_info (chat_nodes ! 1)) i (FindNode (peer_bytes ref_env (nd_info (chat_nodes ! 1))))) = Some b \<Longrightarrow>
   96 * packet_count (length b) + 1700 \<le> 2000"
  using chat_search_length [of 1 "Ipv4 10 0 0 8" demo_dial i b] by (simp add: chat_nodes_def packet_count_def)

lemma chat_gen_range: "gen_range_ok (on_machine ref_env (chat_machine n))"
  by (simp add: gen_range_ok_def on_machine_def chat_machine_def demo_machine_def)

lemmas chat_facts = ref.wire_axioms lru.linked_hash_map_axioms chat_gen_range

lemmas chat_node_facts = chat_nodes_def chat_member_fields demo_dial_def working_def demo_sock_def

theorem first_conversation_witness:
  "\<exists>nw g. net_faithful 1 ref_env chat_machine lru (net_start chat_nodes) nw \<and> nd_screen (nw_nodes nw ! 1) = [g] \<and>
     gm_data g = str_bytes ''hello'' \<and> gm_sender g = SocketAddrV4 (Ipv4 0 0 0 0) 9292"
proof -
  have "\<exists>nw g. net_faithful (Suc 0) ref_env chat_machine lru (net_start chat_nodes) nw \<and> nd_screen (nw_nodes nw ! 1) = [g] \<and>
     gm_data g = str_bytes (trim '' hello '') \<and> gm_sender g = nd_addr (chat_nodes ! 0)"
    by (rule first_conversation [OF chat_facts chat_started _ _ _ _ _ _ _ _ _ _ _ _ chat_search])
      (use chat_ids in \<open>simp_all add: chat_node_facts\<close>, simp_all add: chat_machine_def)
  then show ?thesis by (simp add: trim_examples(1) chat_nodes_def chat_member_fields)
qed

text \<open>What is shown in such a network was typed in it, and there is something shown.\<close>

lemma chat_run:
  "\<exists>nw g. net_faithful (Suc 0) ref_env chat_machine lru (net_start chat_nodes) nw \<and> nd_screen (nw_nodes nw ! 1) = [g]"
proof -
  have st: "started (on_machine ref_env (chat_machine 0)) lru (chat_nodes ! 0)" "started (on_machine ref_env (chat_machine 1)) lru (chat_nodes ! 1)"
    using list_all2_nthD [OF chat_started, of 0] list_all2_nthD [OF chat_started, of 1] by (simp_all add: chat_nodes_def)
  have "\<exists>nw' g. net_faithful (Suc 0) ref_env chat_machine lru (net_start chat_nodes) nw' \<and> nd_screen (nw_nodes nw' ! 1) = [g] \<and>
     gm_data g = str_bytes (trim '' hello '') \<and> gm_sender g = nd_addr (chat_nodes ! 0)"
    by (rule conversation_run [OF chat_facts _ _ started_newborn [OF chat_facts(2) st(1)] started_newborn [OF chat_facts(2) st(2)]
        _ _ _ _ _ _ _ _ _ _ _ _ chat_search])
      (use chat_ids in \<open>simp_all add: chat_node_facts net_start_def\<close>, simp_all add: chat_machine_def)
  then show ?thesis by blast
qed

lemma net_reachable_length: "net_reachable d E mc L nw nw' \<Longrightarrow> length (nw_nodes nw') = length (nw_nodes nw)"
  by (induction rule: net_reachable.induct) (simp_all add: net_turn_sel)

theorem shown_was_typed_witness:
  "\<exists>nw g. net_reachable 1 ref_env chat_machine lru (net_start chat_nodes) nw \<and> nd_screen (nw_nodes nw ! 1) = [g] \<and>
     g \<in> lg_typed (nw_ledger nw)"
proof -
  obtain nw g where nw: "net_reachable (Suc 0) ref_env chat_machine lru (net_start chat_nodes) nw" "nd_screen (nw_nodes nw ! 1) = [g]"
    using chat_run faithful_reachable by blast
  have "nw_nodes nw ! 1 \<in> set (nw_nodes nw)"
    by (rule nth_mem) (use net_reachable_length [OF nw(1)] in \<open>simp add: net_start_def chat_nodes_def\<close>)
  from shown_was_typed [OF chat_facts chat_started _ nw(1) this] nw show ?thesis by (auto simp: chat_nodes_def)
qed

end
