(* ===== verification/Acknowledged.thy ===== *)
theory Acknowledged
  imports Conversation
begin

text \<open>
  A receipt on its way through the network (\<open>src/transport\<close>, \<open>src/gd_udp\<close>,
  \<open>examples/chat.rs\<close>): a freshly started node dials another one, which acknowledges the
  packet of the search, and the outbox of the first one notes the receipt. It is the run in which
  \<open>receipts_are_true\<close> says something, put together as in \<open>Conversation\<close>.
\<close>

section \<open>The turns of the three\<close>

lemma idle_receipts:
  assumes "nd_transport_pc nd = IncomingAck" and "ch_queue (ia_rx (nd_transport nd)) = []"
  shows "transport_turn E nd = nd\<lparr>nd_tick := nd_tick nd + 32, nd_transport_pc := OutgoingMsg\<rparr>"
  using assms by (simp add: transport_turn_def on_transport_def act_zoom_apply incoming_ack_def act_bind_apply
      act_then_apply act_apply chan_try_recv_def)

text \<open>A maintenance keeps the entry of a packet that was sent once and not yet acknowledged.\<close>

lemma check_turn:
  assumes "sendable q nd" and "nd_transport_pc nd = CheckTime" and "ob_ok (gd_outbox (tr_gd_udp (nd_transport nd)))"
    and "ob_get (gd_outbox (tr_gd_udp (nd_transport nd))) i n = Some ([a], [], p, 1)"
  shows "ob_get (gd_outbox (tr_gd_udp (nd_transport (transport_turn E nd)))) i n \<noteq> None \<and>
    prefix (sk_sent (nd_sock nd)) (sk_sent (nd_sock (transport_turn E nd)))"
proof -
  let ?tr = "nd_transport nd" and ?sk = "nd_sock nd" and ?now = "e_now E (nd_tick nd)" and ?now' = "e_now E (nd_tick nd + 1)"
  have flags: "sk_ttl_ok ?sk" "sk_clone_ok ?sk" using assms(1) by (simp_all add: sendable_def working_def)
  obtain r g sk where m: "maintain E (tr_gd_udp ?tr, ?sk) = (r, g, sk)" by (metis surj_pair)
  have r: "r = Inr ()" and "ob_get (gd_outbox g) i n \<noteq> None"
    using maintain_outbox(1) [OF assms(3) flags(1) m] maintain_outbox(4) [OF assms(3) flags(1) m, of i n] assms(4) by simp_all
  moreover have "tr_keeps (?tr, ?sk) (snd (check_time_elapsed E ?now ?now' (?tr, ?sk)))"
    using framed_check_time [of E ?now ?now'] by (simp add: framed_def)
  ultimately show ?thesis using assms(2,4) flags m
    by (auto simp: transport_turn_def on_transport_def act_zoom_apply check_time_elapsed_def on_gd_apply tr_keeps_def
        gd_check_time_elapsed_def act_bind_apply act_then_apply act_apply split: if_splits)
qed

text \<open>A round of the transport thread that sends a message of one packet.\<close>

lemma round_sends:
  fixes E :: env and b :: bytes
  assumes "wire E" and "node_ok E L nd" and "sendable [(a, m)] nd" and "nd_transport_pc nd = IncomingAck"
    and "gd_outbox (tr_gd_udp (nd_transport nd)) = []" and "head m \<noteq> Ack"
    and "as_bytes (e_message E) m = Some b" and "length b < 1024"
  defines "i \<equiv> rand_arr (e_rand E) (nd_tick nd + 32)"
  shows "\<exists>nd'. runs d E L (replicate 3 TransportTurn) nd nd' \<and> nd_transport_pc nd' = IncomingAck \<and>
    sendable [] nd' \<and> only_transport nd nd' \<and> nd_tick nd' = nd_tick nd + 96 \<and> ob_get (gd_outbox (tr_gd_udp (nd_transport nd'))) i 1 \<noteq> None \<and>
    (the (as_bytes (e_packet E) (packet_of E i 1 1 1 b)), dest_of (gd_addr (tr_gd_udp (nd_transport nd))) a) \<in>
      set (sk_sent (nd_sock nd'))"
proof -
  let ?d = "dest_of (gd_addr (tr_gd_udp (nd_transport nd))) a" and ?p = "packet_of E i 1 1 1 b"
  let ?nd1 = "transport_turn E nd" let ?nd2 = "transport_turn E ?nd1" let ?nd3 = "transport_turn E ?nd2"
  note sd = assms(3) [unfolded sendable_def]
  have nd1: "?nd1 = nd\<lparr>nd_tick := nd_tick nd + 32, nd_transport_pc := OutgoingMsg\<rparr>"
    by (rule idle_receipts) (use sd assms(4) in simp_all)
  note s1 = transport_turn_sendable [OF assms(1,3)]
  have q1: "sendable [(a, m)] ?nd1" "nd_transport_pc ?nd1 = OutgoingMsg" using s1 assms(4) by simp_all
  note s2 = transport_turn_sendable [OF assms(1) q1(1)]
  have q2: "sendable [] ?nd2" "nd_transport_pc ?nd2 = CheckTime" using s2 q1(2) by simp_all
  note s3 = transport_turn_sendable [OF assms(1) q2(1)]
  have q3: "sendable [] ?nd3" "nd_transport_pc ?nd3 = IncomingAck" using s3 q2(2) by simp_all
  have only: "only_transport nd ?nd3" by (rule otf.frame_trans [OF s1(3) otf.frame_trans [OF s2(3) s3(3)]])
  have ps: "packets_of E b i 1 = [?p]" using assms(8) by (simp add: packets_of_small)
  have id: "pkt_id ?p = i" "pkt_n ?p = 1" by (simp_all add: packet_of_def)
  have ttl: "sk_ttl_ok (nd_sock nd)" using sd by (simp add: working_def)
  have tr2: "gd_outbox (tr_gd_udp (nd_transport ?nd2)) = record_send ?d ?p []"
    and sent2: "nd_sock ?nd2 = fold (datagram E) (to_dest ?d [?p]) (nd_sock nd)"
    using outgoing_reliable [OF _ assms(6) ttl assms(7), of "nd_transport nd" a "[]" "nd_tick nd + 32"] sd ps assms(5)
    unfolding nd1 by (simp_all add: transport_turn_def on_transport_def act_zoom_apply i_def)
  have get2: "ob_get (gd_outbox (tr_gd_udp (nd_transport ?nd2))) i 1 = Some ([?d], [], ?p, 1)"
    using ob_get_sent [of "[]" i ?d E b 1 i 1] unfolding ps tr2 by (simp add: hm_get_Nil id)
  have "ob_ok (gd_outbox (tr_gd_udp (nd_transport ?nd2)))"
    unfolding tr2 by (rule ob_ok_record_send) (use assms(2,5) in \<open>simp add: node_ok_def\<close>)
  from check_turn [OF q2 this get2, of E]
  have get3: "ob_get (gd_outbox (tr_gd_udp (nd_transport ?nd3))) i 1 \<noteq> None"
    and "prefix (sk_sent (nd_sock ?nd2)) (sk_sent (nd_sock ?nd3))" by blast+
  moreover have enc: "as_bytes (e_packet E) q \<noteq> None" for q by (rule packet_encodes [OF assms(1)])
  have "sk_sent (nd_sock ?nd2) = sk_sent (nd_sock nd) @ encoded E ?d [?p]"
    unfolding sent2 by (rule fold_datagram_sent [OF enc]) (use sd in \<open>simp add: working_def\<close>)
  ultimately have "(the (as_bytes (e_packet E) ?p), ?d) \<in> set (sk_sent (nd_sock ?nd3))"
    by (auto simp: encoded_def prefix_def)
  moreover have "runs d E L (replicate 3 TransportTurn) nd ?nd3"
    using enabled_transport [OF assms(3)] enabled_transport [OF q1(1)] enabled_transport [OF q2(1)]
    by (simp add: numeral_3_eq_3)
  moreover have "nd_tick ?nd3 = nd_tick nd + 96" by simp
  ultimately show ?thesis using q3 only get3 by blast
qed

text \<open>The packet of such a message arrives, and the next turns send the receipt.\<close>

lemma arrival_acknowledged:
  fixes E :: env and b :: bytes
  assumes "wire E" and "sendable [] nd" and "nd_transport_pc nd = IncomingAck" and "nd_handler_up nd"
    and "pending (nd_handler nd) = []" and "ch_open (om_rx (nd_transport nd))" and "head m \<noteq> Ack"
    and "as_bytes (e_message E) m = Some b" and "length b < 1024"
    and "as_bytes (e_message E) (receipt_message E (gs_public_ip (nd_gossip nd)) (packet_of E i 1 1 1 b)) = Some b'"
    and "length b' < 1024"
  shows "\<exists>nd1 nd2. runs d E L (map (\<lambda>b. Datagram (arrival src [] b)) [the (as_bytes (e_packet E) (packet_of E i 1 1 1 b))]) nd nd1 \<and>
    nd_tick nd1 = nd_tick nd \<and> runs d E L (replicate 2 TransportTurn) nd1 nd2 \<and> nd_info nd2 = nd_info nd \<and>
    (the (as_bytes (e_packet E) (packet_of E (rand_arr (e_rand E) (nd_tick nd + 32)) 0 1 1 b')), src) \<in> set (sk_sent (nd_sock nd2))"
proof -
  let ?p = "packet_of E i 1 1 1 b" and ?h = "handle_message E m src (handler_view nd)"
  let ?r = "receipt_message E (gs_public_ip (nd_gossip nd)) (packet_of E i 1 1 1 b)"
  note sd = assms(2) [unfolded sendable_def]
  have ps: "packets_of E b i 1 = [?p]" using assms(9) by (simp add: packets_of_small)
  obtain pend qs where qs: "mset qs = mset [?p]"
    and run: "runs d E L (map (\<lambda>b. Datagram (arrival src [] b)) [the (as_bytes (e_packet E) ?p)]) nd (put_handler (?h\<lparr>pending := pend,
      om_tx := fold chan_send (receipts E (gs_public_ip (nd_gossip nd)) src qs) (om_rx (nd_transport nd))\<rparr>) nd)"
      (is "runs d E L _ nd ?nd1")
    using message_runs [OF assms(1,8), of "[the (as_bytes (e_packet E) ?p)]" i 1 nd d L src] ps assms(4,5) sd
    by (auto simp: hm_get_Nil simp del: runs.simps)
  have "qs = [?p]" using qs by simp
  then have om: "ch_queue (om_rx (nd_transport ?nd1)) = [(src, ?r)]"
    using sd assms(6) by (simp add: receipts_def packet_of_def RETURN_RECEIPT_def)
  have ia: "ch_queue (ia_rx (nd_transport ?nd1)) = []"
    using sd assms(7) by (auto simp: handle_message_def handler_view_def split: header.split option.split)
  let ?nd2 = "transport_turn E ?nd1" let ?nd3 = "transport_turn E ?nd2"
  have nd2: "?nd2 = ?nd1\<lparr>nd_tick := nd_tick ?nd1 + 32, nd_transport_pc := OutgoingMsg\<rparr>"
    by (rule idle_receipts [OF _ ia]) (use assms(3) in simp)
  have enc: "as_bytes (e_packet E) q \<noteq> None" for q by (rule packet_encodes [OF assms(1)])
  have "head ?r = Ack" by (simp add: receipt_message_def)
  from outgoing_ack [OF om this assms(10) enc, of "nd_tick nd + 32" "nd_sock nd"]
  have out: "outgoing_msg E (nd_tick nd + 32) (nd_transport ?nd1, nd_sock nd) =
      (Inr (), (nd_transport ?nd1)\<lparr>om_rx := (om_rx (nd_transport ?nd1))\<lparr>ch_queue := []\<rparr>\<rparr>,
       fold (datagram E) (to_dest src [packet_of E (rand_arr (e_rand E) (nd_tick nd + 32)) 0 1 1 b']) (nd_sock nd))"
    by (simp only: packets_of_small [OF assms(11)])
  have nd3: "nd_sock ?nd3 = fold (datagram E) (to_dest src [packet_of E (rand_arr (e_rand E) (nd_tick nd + 32)) 0 1 1 b']) (nd_sock nd)"
    "nd_info ?nd3 = nd_info nd"
    unfolding nd2 using out by (simp_all add: transport_turn_def on_transport_def act_zoom_apply)
  have "sk_sent (nd_sock ?nd3) = sk_sent (nd_sock nd) @ encoded E src [packet_of E (rand_arr (e_rand E) (nd_tick nd + 32)) 0 1 1 b']"
    unfolding nd3 by (rule fold_datagram_sent [OF enc]) (use sd in \<open>simp add: working_def\<close>)
  moreover have "nd_transport_up ?nd2" using sd unfolding nd2 by simp
  then have "runs d E L (replicate 2 TransportTurn) ?nd1 ?nd3"
    using sd nd2 by (simp add: numeral_2_eq_2)
  moreover have "nd_tick ?nd1 = nd_tick nd" by simp
  moreover have "(the (as_bytes (e_packet E) (packet_of E (rand_arr (e_rand E) (nd_tick nd + 32)) 0 1 1 b')), src) \<in>
      set (encoded E src [packet_of E (rand_arr (e_rand E) (nd_tick nd + 32)) 0 1 1 b'])" by (simp add: encoded_def)
  ultimately have "(the (as_bytes (e_packet E) (packet_of E (rand_arr (e_rand E) (nd_tick nd + 32)) 0 1 1 b')), src) \<in>
      set (sk_sent (nd_sock ?nd3))" by (simp only: set_append) blast
  with run nd3(2) \<open>nd_tick ?nd1 = nd_tick nd\<close> \<open>runs d E L (replicate 2 TransportTurn) ?nd1 ?nd3\<close> show ?thesis by blast
qed

text \<open>The receipt arrives, and the next turn notes it.\<close>

lemma receipt_noted:
  fixes E :: env and b :: bytes
  assumes "wire E" and "sendable [] nd" and "nd_transport_pc nd = IncomingAck" and "nd_handler_up nd"
    and "pending (nd_handler nd) = []" and "ch_open (ia_rx (nd_transport nd))"
    and "as_bytes (e_message E) (receipt_message E a p) = Some b" and "length b < 1024"
    and "ob_get (gd_outbox (tr_gd_udp (nd_transport nd))) (pkt_id p) (pkt_n p) \<noteq> None"
  shows "\<exists>nd1 nd2. runs d E L (map (\<lambda>b. Datagram (arrival src [] b)) [the (as_bytes (e_packet E) (packet_of E j 0 1 1 b))]) nd nd1 \<and>
    nd_tick nd1 = nd_tick nd \<and> runs d E L (replicate 1 TransportTurn) nd1 nd2 \<and>
    (pkt_id p, pkt_n p, a) \<in> noted_receipts (gd_outbox (tr_gd_udp (nd_transport nd2)))"
proof -
  let ?q = "packet_of E j 0 1 1 b" and ?h = "handle_message E (receipt_message E a p) src (handler_view nd)"
  note sd = assms(2) [unfolded sendable_def]
  have ps: "packets_of E b j 0 = [?q]" using assms(8) by (simp add: packets_of_small)
  obtain pend qs where
    run: "runs d E L (map (\<lambda>b. Datagram (arrival src [] b)) [the (as_bytes (e_packet E) ?q)]) nd (put_handler (?h\<lparr>pending := pend,
      om_tx := fold chan_send (receipts E (gs_public_ip (nd_gossip nd)) src qs) (om_rx (nd_transport nd))\<rparr>) nd)"
      (is "runs d E L _ nd ?nd1")
    using message_runs [OF assms(1,7), of "[the (as_bytes (e_packet E) ?q)]" j 0 nd d L src] ps assms(4,5) sd
    by (auto simp: hm_get_Nil simp del: runs.simps)
  have "from_bytes (e_ack E) (the (as_bytes (e_ack E) (receipt E a p))) = Some (receipt E a p)"
    using codec.dec_the_enc [OF serde_codec, of "e_ack E"] assms(1) by (simp add: wire_def)
  then have ia: "ch_queue (ia_rx (nd_transport ?nd1)) = receipt E a p # []"
    using sd assms(6) by (simp add: handle_message_def handler_view_def receipt_message_def)
  let ?nd2 = "transport_turn E ?nd1"
  have gd: "tr_gd_udp (nd_transport ?nd1) = tr_gd_udp (nd_transport nd)" by simp
  have "gd_outbox (tr_gd_udp (nd_transport ?nd2)) = record_ack (pkt_id p) (pkt_n p) a (gd_outbox (tr_gd_udp (nd_transport nd)))"
    using incoming_receipt [OF ia] assms(3) gd
    by (simp add: transport_turn_def on_transport_def act_zoom_apply)
  moreover obtain s k x t where "ob_get (gd_outbox (tr_gd_udp (nd_transport nd))) (pkt_id p) (pkt_n p) = Some (s, k, x, t)"
    using assms(9) by (cases "ob_get (gd_outbox (tr_gd_udp (nd_transport nd))) (pkt_id p) (pkt_n p)") auto
  moreover have "a \<in> set (hs_insert a k)" by (simp add: hs_insert_def)
  ultimately have "(pkt_id p, pkt_n p, a) \<in> noted_receipts (gd_outbox (tr_gd_udp (nd_transport ?nd2)))"
    by (auto simp: noted_receipts_def ob_get_record_ack)
  moreover have "runs d E L (replicate 1 TransportTurn) ?nd1 ?nd2" using sd by simp
  moreover have "nd_tick ?nd1 = nd_tick nd" by simp
  ultimately show ?thesis using run by blast
qed

section \<open>A receipt in the network\<close>

lemma chat_apart:
  assumes "m \<in> {0, 1}" and "n \<in> {0, 1}" and "S \<subseteq> {39..<2039}" and "T \<subseteq> {39..<2039}" and "m \<noteq> n \<or> S \<inter> T = {}"
  shows "packet_id chat_machine m ` S \<inter> packet_id chat_machine n ` T = {}" and "inj_on (packet_id chat_machine n) T"
proof -
  have eq: "m = n \<and> t = t'" if "packet_id chat_machine m t = packet_id chat_machine n t'" "m \<in> {0, 1}" "n \<in> {0, 1}"
      "t \<in> {39..<2039}" "t' \<in> {39..<2039}" for m n t t'
    using inj_onD [OF chat_ids, of "(m, t)" "(n, t')"] that by auto
  show "inj_on (packet_id chat_machine n) T"
    by (rule inj_onI) (drule eq, use assms(2,4) in auto)
  have False if x: "x \<in> packet_id chat_machine m ` S" "x \<in> packet_id chat_machine n ` T" for x
  proof -
    obtain t t' where t: "packet_id chat_machine m t = packet_id chat_machine n t'" "t \<in> S" "t' \<in> T" using x by auto
    have "t \<in> {39..<2039}" "t' \<in> {39..<2039}" using t(2,3) assms(3,4) by blast+
    from eq [OF t(1) assms(1,2) this] t(2,3) assms(5) show False by blast
  qed
  then show "packet_id chat_machine m ` S \<inter> packet_id chat_machine n ` T = {}" by blast
qed

lemma chat_member_idle:
  "nd_transport_pc (chat_member n ip dial) = IncomingAck" "gd_outbox (tr_gd_udp (nd_transport (chat_member n ip dial))) = []"
  by ((insert node_new_fields [OF chat_member_new [of n ip dial]], elim exE conjE, simp add: transport_new_def gd_udp_new_def)+)

text \<open>A receipt fits into one packet.\<close>

lemma length_addr_to_string: "length (addr_to_string a) \<le> 21"
proof -
  have octet: "length (show_nat (unat x)) \<le> 3" for x :: u8
    by (rule length_show_nat, rule order_less_trans [OF unat_u8_less]) simp_all
  have "length (show_nat (unat x)) \<le> 5" for x :: u16
    by (rule length_show_nat, rule order_less_trans [OF unat_u16_less]) simp_all
  moreover have "length (show_ip ip) \<le> 15" for ip
  proof (cases ip)
    case (Ipv4 w x y z)
    with octet [of w] octet [of x] octet [of y] octet [of z] show ?thesis by simp
  qed
  ultimately show ?thesis
    using add_mono [of "length (show_ip (addr_ip a))" 15 "length (show_nat (unat (addr_port a)))" 5]
    by (simp add: addr_to_string_def format_addr_def)
qed

lemma receipt_short:
  assumes "as_bytes (e_message ref_env) (receipt_message ref_env a p) = Some b" and "pkt_n p = 1"
  shows "length b < 1024"
proof -
  have "length (the (as_bytes (e_ack ref_env) (receipt ref_env a p))) \<le> 56"
    using assms(2) length_addr_to_string [of a]
    by (simp add: ref_codes as_bytes_serde receipt_def pc_ack_def pc_map_def pc_pair_def code_lengths
        length_pc_bytes str_bytes_def)
  moreover have "b = pe pc_message (receipt_message ref_env a p)"
    using assms(1) by (simp add: ref_codes as_bytes_serde)
  ultimately show ?thesis
    by (simp add: receipt_message_def pc_message_def pc_map_def pc_pair_def code_lengths length_pc_bytes)
qed

text \<open>The newcomer dials, and the packet of its search is on the wire and outstanding.\<close>

lemma newcomer_asks:
  fixes E :: env
  assumes "wire E" and "linked_hash_map L" and "newborn E L nd" and "nd_dial nd = Some s" and "parse_addr s = Some a"
    and "working (nd_sock nd)" and "nd_transport_pc nd = IncomingAck" and "gd_outbox (tr_gd_udp (nd_transport nd)) = []"
    and "\<forall>i b. as_bytes (e_message E) (query E (nd_info nd) i (FindNode (peer_bytes E (nd_info nd)))) = Some b \<longrightarrow> length b < 1024"
  defines "j \<equiv> rand_arr (e_rand E) (nd_tick nd + 68)"
  shows "\<exists>nd1 nd2 i b. runs d E L [MainTurn] nd nd1 \<and> nd_tick nd1 = nd_tick nd + 36 \<and>
    runs d E L (replicate 3 TransportTurn) nd1 nd2 \<and> nd_tick nd2 = nd_tick nd + 132 \<and>
    as_bytes (e_message E) (query E (nd_info nd) i (FindNode (peer_bytes E (nd_info nd)))) = Some b \<and>
    sendable [] nd2 \<and> nd_transport_pc nd2 = IncomingAck \<and> nd_handler_up nd2 \<and> pending (nd_handler nd2) = [] \<and>
    node_ok E L nd2 \<and> nd_info nd2 = nd_info nd \<and> ob_get (gd_outbox (tr_gd_udp (nd_transport nd2))) j 1 \<noteq> None \<and>
    (the (as_bytes (e_packet E) (packet_of E j 1 1 1 b)), dest_of (pi_address (nd_info nd)) a) \<in> set (sk_sent (nd_sock nd2))"
proof -
  note nb = assms(3) [unfolded newborn_def all_up_def]
  note ok = nb [THEN conjunct1, unfolded node_ok_def]
  have "healthy L (Suc (Suc 898)) (kd_table (gs_kad (nd_gossip nd)))" using nb by simp
  from dial_turn [OF assms(1,2) _ assms(4,5) this, of d] nb ok obtain rt c i where
    turn: "main_turn d E L nd = (put_kad ((gs_kad (nd_gossip nd))\<lparr>kd_table := rt, kd_to_transport := c\<rparr>, nd_tick nd + 36) nd)
      \<lparr>nd_main_pc := KadRecv\<rparr>" (is "_ = ?nd1")
    and c: "length (ch_queue c) = 1" "(a, query E (nd_info nd) i (FindNode (peer_bytes E (nd_info nd)))) \<in> set (ch_queue c)"
    by auto
  obtain b where b: "as_bytes (e_message E) (query E (nd_info nd) i (FindNode (peer_bytes E (nd_info nd)))) = Some b"
    using codec.round_trip [OF serde_codec, of "e_message E" "query E (nd_info nd) i (FindNode (peer_bytes E (nd_info nd)))"] assms(1)
    by (auto simp: wire_def)
  have q: "ch_queue c = [(a, query E (nd_info nd) i (FindNode (peer_bytes E (nd_info nd))))]"
    using c by (cases "ch_queue c") auto
  have run1: "runs d E L [MainTurn] nd ?nd1" using nb by (simp add: turn)
  have ok1: "node_ok E L ?nd1" using runs_ok [OF assms(2) run1] nb by blast
  have send: "sendable [(a, query E (nd_info nd) i (FindNode (peer_bytes E (nd_info nd))))] ?nd1"
    using nb assms(6) q by (simp add: sendable_def put_kad_def)
  have idle: "nd_transport_pc ?nd1 = IncomingAck" "gd_outbox (tr_gd_udp (nd_transport ?nd1)) = []"
    "nd_tick ?nd1 = nd_tick nd + 36" "gd_addr (tr_gd_udp (nd_transport ?nd1)) = pi_address (nd_info nd)"
    "nd_handler_up ?nd1" "pending (nd_handler ?nd1) = []" "nd_info ?nd1 = nd_info nd"
    using nb assms(7,8) ok by (simp_all add: put_kad_def)
  have "nd_tick ?nd1 + 32 = nd_tick nd + 68" by (simp add: idle(3))
  note sent = round_sends [OF assms(1) ok1 send idle(1,2) _ b assms(9) [rule_format, OF b], unfolded this idle(4), folded j_def, of d]
  then obtain nd2 where nd2: "runs d E L (replicate 3 TransportTurn) ?nd1 nd2" "nd_transport_pc nd2 = IncomingAck"
    "sendable [] nd2" "only_transport ?nd1 nd2" "nd_tick nd2 = nd_tick ?nd1 + 96"
    "ob_get (gd_outbox (tr_gd_udp (nd_transport nd2))) j 1 \<noteq> None"
    "(the (as_bytes (e_packet E) (packet_of E j 1 1 1 b)), dest_of (pi_address (nd_info nd)) a) \<in> set (sk_sent (nd_sock nd2))"
    by (auto simp: query_def)
  have "node_ok E L nd2" using runs_ok [OF assms(2) nd2(1) ok1] by blast
  moreover have "nd_tick nd2 = nd_tick nd + 132" using nd2(5) idle(3) by simp
  ultimately show ?thesis using run1 nd2 idle(3,5-7) only_transportD [OF nd2(4)] b by metis
qed

lemma machine_packet: "packet_of (on_machine E c) = packet_of E" "receipt_message (on_machine E c) = receipt_message E"
  by (simp_all add: packet_of_def receipt_message_def receipt_def fun_eq_iff)

lemma disjoint_union: "A \<inter> B = {} \<Longrightarrow> A \<inter> C = {} \<Longrightarrow> D \<subseteq> B \<union> C \<Longrightarrow> A \<inter> D = {}"
  by blast

lemma addressed_from:
  assumes "(b, dest_of (pi_address (nd_info (ns ! j))) (pi_address (nd_info (ns ! i)))) \<in> set (sk_sent (nd_sock (ns ! j)))"
    and "j < length ns" and "j \<noteq> i" and "a = pi_address (nd_info (ns ! j))"
  shows "list_all (addressed i ns) (map (\<lambda>b. Datagram (arrival a [] b)) [b])"
  using assms by (auto simp: addressed_def)

lemma chat_pair:
  "newborn (on_machine ref_env (chat_machine 1)) lru (chat_nodes ! 1)" "newborn (on_machine ref_env (chat_machine 0)) lru (chat_nodes ! 0)"
  "nd_dial (chat_nodes ! 1) = Some (addr_to_string (SocketAddrV4 (Ipv4 10 0 0 9) 9292))"
  "pi_address (nd_info (chat_nodes ! 1)) = SocketAddrV4 (Ipv4 10 0 0 8) 9292" "pi_address (nd_info (chat_nodes ! 0)) = SocketAddrV4 (Ipv4 10 0 0 9) 9292"
  "working (nd_sock (chat_nodes ! 1))" "working (nd_sock (chat_nodes ! 0))" "nd_tick (chat_nodes ! 1) = 39" "nd_tick (chat_nodes ! 0) = 39"
  "nd_transport_pc (chat_nodes ! 1) = IncomingAck" "nd_transport_pc (chat_nodes ! 0) = IncomingAck"
  "gd_outbox (tr_gd_udp (nd_transport (chat_nodes ! 1))) = []" "length chat_nodes = 2"
  "dest_of (SocketAddrV4 (Ipv4 10 0 0 8) 9292) (SocketAddrV4 (Ipv4 10 0 0 9) 9292) = SocketAddrV4 (Ipv4 10 0 0 9) 9292"
  "dest_of (SocketAddrV4 (Ipv4 10 0 0 9) 9292) (SocketAddrV4 (Ipv4 10 0 0 8) 9292) = SocketAddrV4 (Ipv4 10 0 0 8) 9292"
  using started_newborn [OF lru.linked_hash_map_axioms] list_all2_nthD [OF chat_started, of 0] list_all2_nthD [OF chat_started, of 1]
  by (simp_all add: chat_node_facts chat_member_idle dest_of_def)

text \<open>The newcomer asks, the node it dialled acknowledges, the newcomer notes the receipt.\<close>

lemma acknowledged_nodes:
  defines "EA \<equiv> on_machine ref_env (chat_machine 1)" and "EB \<equiv> on_machine ref_env (chat_machine 0)"
    and "to \<equiv> \<lambda>a p. map (\<lambda>b. Datagram (arrival a [] b)) [the (as_bytes (e_packet ref_env) p)]"
    and "i \<equiv> packet_id chat_machine 1 107"
  shows "\<exists>A1 A2 A3 A4 B1 B2 p q. runs (Suc 0) EA lru [MainTurn] (chat_nodes ! 1) A1 \<and> nd_tick A1 = 75 \<and>
    runs (Suc 0) EA lru (replicate 3 TransportTurn) A1 A2 \<and> node_ok EA lru A2 \<and> nd_info A2 = nd_info (chat_nodes ! 1) \<and>
    (the (as_bytes (e_packet ref_env) p), SocketAddrV4 (Ipv4 10 0 0 9) 9292) \<in> set (sk_sent (nd_sock A2)) \<and>
    runs (Suc 0) EB lru (to (SocketAddrV4 (Ipv4 10 0 0 8) 9292) p) (chat_nodes ! 0) B1 \<and> nd_tick B1 = 39 \<and>
    runs (Suc 0) EB lru (replicate 2 TransportTurn) B1 B2 \<and> nd_info B2 = nd_info (chat_nodes ! 0) \<and>
    (the (as_bytes (e_packet ref_env) q), SocketAddrV4 (Ipv4 10 0 0 8) 9292) \<in> set (sk_sent (nd_sock B2)) \<and>
    runs (Suc 0) EA lru (to (SocketAddrV4 (Ipv4 10 0 0 9) 9292) q) A2 A3 \<and> nd_tick A3 = 171 \<and>
    runs (Suc 0) EA lru (replicate 1 TransportTurn) A3 A4 \<and>
    (i, 1, SocketAddrV4 (Ipv4 10 0 0 9) 9292) \<in> noted_receipts (gd_outbox (tr_gd_udp (nd_transport A4)))"
proof -
  let ?A = "chat_nodes ! 1" and ?B = "chat_nodes ! 0"
  note lhm = lru.linked_hash_map_axioms and nb = chat_pair(1,2) [folded EA_def EB_def]
  have wire: "wire EA" "wire EB" using ref.wire_axioms by (simp_all add: EA_def EB_def)
  have ticks: "(39 :: nat) + 36 = 75" "(39 :: nat) + 132 = 171" "(39 :: nat) + 68 = 107" "(39 :: nat) + 32 = 71" by simp_all
  have short: "\<forall>i b. as_bytes (e_message EA) (query EA (nd_info ?A) i (FindNode (peer_bytes EA (nd_info ?A)))) = Some b \<longrightarrow> length b < 1024"
    using chat_search_length [of 1 "Ipv4 10 0 0 8" demo_dial] by (simp add: chat_nodes_def EA_def)
  have id: "rand_arr (e_rand EA) t = packet_id chat_machine 1 t" "rand_arr (e_rand EB) t = packet_id chat_machine 0 t" for t
    by (simp_all add: packet_id_def on_machine_def EA_def EB_def)
  have machines: "e_message EA = e_message ref_env" "e_packet EA = e_packet ref_env" "query EA = query ref_env" "peer_bytes EA = peer_bytes ref_env"
    "packet_of EA = packet_of ref_env" "receipt_message EA = receipt_message ref_env" "e_message EB = e_message ref_env"
    "e_packet EB = e_packet ref_env" "packet_of EB = packet_of ref_env" "receipt_message EB = receipt_message ref_env"
    by (simp_all add: EA_def EB_def machine_packet)
  obtain A1 A2 k b where A1: "runs (Suc 0) EA lru [MainTurn] ?A A1" "nd_tick A1 = 75"
    and A2: "runs (Suc 0) EA lru (replicate 3 TransportTurn) A1 A2" "nd_tick A2 = 171" "sendable [] A2" "nd_transport_pc A2 = IncomingAck"
      "nd_handler_up A2" "pending (nd_handler A2) = []" "node_ok EA lru A2" "nd_info A2 = nd_info ?A"
      "ob_get (gd_outbox (tr_gd_udp (nd_transport A2))) i 1 \<noteq> None"
      "(the (as_bytes (e_packet ref_env) (packet_of ref_env i 1 1 1 b)), SocketAddrV4 (Ipv4 10 0 0 9) 9292) \<in> set (sk_sent (nd_sock A2))"
    and b: "as_bytes (e_message ref_env) (query ref_env (nd_info ?A) k (FindNode (peer_bytes ref_env (nd_info ?A)))) = Some b"
    using newcomer_asks [OF wire(1) lhm nb(1) chat_pair(3) parse_addr_to_string chat_pair(6,10,12) short, where d = "Suc 0",
        unfolded chat_pair(4,8,14) ticks machines id, folded i_def] by (elim exE conjE) (rule that)
  let ?p = "packet_of ref_env i 1 1 1 b"
  have ask: "head (query ref_env (nd_info ?A) k (FindNode (peer_bytes ref_env (nd_info ?A)))) \<noteq> Ack" "length b < 1024"
    using short b by (simp_all add: query_def machines)
  obtain b' where b': "as_bytes (e_message ref_env) (receipt_message ref_env (SocketAddrV4 (Ipv4 10 0 0 9) 9292) ?p) = Some b'"
    using ref.message.enc_Some by blast
  have p: "pkt_id ?p = i" "pkt_n ?p = 1" by (simp_all add: packet_of_def)
  have bs': "length b' < 1024" by (rule receipt_short [OF b' p(2)])
  have upB: "sendable [] ?B" "nd_handler_up ?B" "pending (nd_handler ?B) = []" "ch_open (om_rx (nd_transport ?B))"
    "gs_public_ip (nd_gossip ?B) = SocketAddrV4 (Ipv4 10 0 0 9) 9292"
    using nb(2) chat_pair(5,7) by (simp_all add: newborn_def all_up_def sendable_def node_ok_def)
  let ?q = "packet_of ref_env (packet_id chat_machine 0 71) 0 1 1 b'"
  obtain B1 B2 where B: "runs (Suc 0) EB lru (to (SocketAddrV4 (Ipv4 10 0 0 8) 9292) ?p) ?B B1" "nd_tick B1 = 39"
    "runs (Suc 0) EB lru (replicate 2 TransportTurn) B1 B2" "nd_info B2 = nd_info ?B"
    "(the (as_bytes (e_packet ref_env) ?q), SocketAddrV4 (Ipv4 10 0 0 8) 9292) \<in> set (sk_sent (nd_sock B2))"
    using arrival_acknowledged [OF wire(2) upB(1) chat_pair(11) upB(2-4), where d = "Suc 0" and L = lru and src = "SocketAddrV4 (Ipv4 10 0 0 8) 9292",
        unfolded chat_pair(9) upB(5) ticks machines id, OF ask(1) b ask(2) b' bs'] by (elim exE conjE) (rule that, unfold to_def)
  have upA: "ch_open (ia_rx (nd_transport A2))" using A2(3,7) by (simp add: node_ok_def sendable_def)
  obtain A3 A4 where A3: "runs (Suc 0) EA lru (to (SocketAddrV4 (Ipv4 10 0 0 9) 9292) ?q) A2 A3" "nd_tick A3 = 171"
    "runs (Suc 0) EA lru (replicate 1 TransportTurn) A3 A4"
    "(i, 1, SocketAddrV4 (Ipv4 10 0 0 9) 9292) \<in> noted_receipts (gd_outbox (tr_gd_udp (nd_transport A4)))"
    using receipt_noted [OF wire(1) A2(3-6) upA, where d = "Suc 0" and L = lru and src = "SocketAddrV4 (Ipv4 10 0 0 9) 9292" and p = ?p
          and j = "packet_id chat_machine 0 71", unfolded A2(2) machines p, OF b' bs' A2(9)] by (elim exE conjE) (rule that, unfold to_def)
  show ?thesis by (intro exI conjI) (rule A1 A2(1,7,8,10) B A3)+
qed

text \<open>The three as runs of the network.\<close>

lemma acknowledged_run:
  "\<exists>nw i. net_reachable (Suc 0) ref_env chat_machine lru (net_start chat_nodes) nw \<and>
     (i, 1, SocketAddrV4 (Ipv4 10 0 0 9) 9292) \<in> noted_receipts (gd_outbox (tr_gd_udp (nd_transport (nw_nodes nw ! 1))))"
proof -
  let ?A = "chat_nodes ! 1" and ?B = "chat_nodes ! 0" and ?EA = "on_machine ref_env (chat_machine 1)"
    and ?EB = "on_machine ref_env (chat_machine 0)" and ?nw = "net_start chat_nodes"
  let ?to = "\<lambda>a p. map (\<lambda>b. Datagram (arrival a [] b)) [the (as_bytes (e_packet ref_env) p)]"
  note lhm = lru.linked_hash_map_axioms and len = chat_pair(13)
  have ok: "node_ok ?EA lru ?A" "node_ok ?EB lru ?B" using chat_pair(1,2) by (simp_all add: newborn_def)
  obtain A1 A2 A3 A4 B1 B2 p q where A1: "runs (Suc 0) ?EA lru [MainTurn] ?A A1" "nd_tick A1 = 75"
    and A2: "runs (Suc 0) ?EA lru (replicate 3 TransportTurn) A1 A2" "node_ok ?EA lru A2" "nd_info A2 = nd_info ?A"
      "(the (as_bytes (e_packet ref_env) p), SocketAddrV4 (Ipv4 10 0 0 9) 9292) \<in> set (sk_sent (nd_sock A2))"
    and B1: "runs (Suc 0) ?EB lru (?to (SocketAddrV4 (Ipv4 10 0 0 8) 9292) p) ?B B1" "nd_tick B1 = 39"
    and B2: "runs (Suc 0) ?EB lru (replicate 2 TransportTurn) B1 B2" "nd_info B2 = nd_info ?B"
      "(the (as_bytes (e_packet ref_env) q), SocketAddrV4 (Ipv4 10 0 0 8) 9292) \<in> set (sk_sent (nd_sock B2))"
    and A3: "runs (Suc 0) ?EA lru (?to (SocketAddrV4 (Ipv4 10 0 0 9) 9292) q) A2 A3" "nd_tick A3 = 171"
    and A4: "runs (Suc 0) ?EA lru (replicate 1 TransportTurn) A3 A4"
      "(packet_id chat_machine 1 107, 1, SocketAddrV4 (Ipv4 10 0 0 9) 9292) \<in> noted_receipts (gd_outbox (tr_gd_udp (nd_transport A4)))"
    using acknowledged_nodes by (elim exE conjE) (rule that)
  have start: "nw_nodes ?nw = chat_nodes" "dom (lg_sent (nw_ledger ?nw)) = {}" by (simp_all add: net_start_def)
  have nodes: "nw_nodes ?nw ! 1 = ?A" "1 < length (nw_nodes ?nw)" by (simp_all add: start len)
  have turns: "TransportTurn \<notin> set [MainTurn]" "list_all (addressed 1 (nw_nodes ?nw)) [MainTurn]" by (simp_all add: addressed_def)
  have range: "{nd_tick A1..<nd_tick A1 + 32 * 3} \<subseteq> {75..<171}" "{nd_tick B1..<nd_tick B1 + 32 * 2} \<subseteq> {39..<103}"
    "{nd_tick A3..<nd_tick A3 + 32 * 1} \<subseteq> {171..<203}" by (simp_all add: A1(2) B1(2) A3(2))
  have disj: "packet_id chat_machine 1 ` {75..<171} \<inter> dom (lg_sent (nw_ledger ?nw)) = {}" unfolding start by simp
  have inj: "inj_on (packet_id chat_machine 1) {75..<171}" "inj_on (packet_id chat_machine 0) {39..<103}"
    "inj_on (packet_id chat_machine 1) {171..<203}" by (rule chat_apart(2) [of 0 _ "{}"], simp_all)+
  note run = sending_run [where mc = chat_machine and E = ref_env, OF _ _ _ _ _ _ _ _ lhm]
  obtain nw1 where nw1: "net_faithful (Suc 0) ref_env chat_machine lru ?nw nw1" "nw_nodes nw1 = chat_nodes[1 := A2]"
    "dom (lg_sent (nw_ledger nw1)) \<subseteq> packet_id chat_machine 1 ` {75..<171}"
    using run [where i = 1 and nw = ?nw, unfolded nodes(1), OF A1(1) nodes(2) turns A2(1) range(1) inj(1) disj ok(1)] unfolding start by auto
  have nodes1: "nw_nodes nw1 ! 0 = ?B" "0 < length (nw_nodes nw1)" by (simp_all add: nw1(2) len)
  have to1: "list_all (addressed 0 (nw_nodes nw1)) (?to (SocketAddrV4 (Ipv4 10 0 0 8) 9292) p)"
    by (rule addressed_from [where j = 1]) (use A2(3,4) chat_pair(4,5,14) len nw1(2) in simp_all)
  have "packet_id chat_machine 0 ` {39..<103} \<inter> packet_id chat_machine 1 ` {75..<171} = {}" by (rule chat_apart) simp_all
  then have disj1: "packet_id chat_machine 0 ` {39..<103} \<inter> dom (lg_sent (nw_ledger nw1)) = {}" using nw1(3) by blast
  have data: "TransportTurn \<notin> set (?to a x)" for a x by simp
  obtain nw2 where nw2: "net_faithful (Suc 0) ref_env chat_machine lru nw1 nw2" "nw_nodes nw2 = chat_nodes[1 := A2, 0 := B2]"
    "dom (lg_sent (nw_ledger nw2)) \<subseteq> dom (lg_sent (nw_ledger nw1)) \<union> packet_id chat_machine 0 ` {39..<103}"
    using run [where i = 0 and nw = nw1, unfolded nodes1(1), OF B1(1) nodes1(2) data to1 B2(1) range(2) inj(2) disj1 ok(2)] nw1(2) by auto
  have nodes2: "nw_nodes nw2 ! 1 = A2" "1 < length (nw_nodes nw2)" by (simp_all add: nw2(2) len)
  have to2: "list_all (addressed 1 (nw_nodes nw2)) (?to (SocketAddrV4 (Ipv4 10 0 0 9) 9292) q)"
    by (rule addressed_from [where j = 0]) (use B2(2,3) A2(3) chat_pair(4,5,15) len nw2(2) in simp_all)
  have "packet_id chat_machine 1 ` {171..<203} \<inter> packet_id chat_machine 1 ` {75..<171} = {}"
    "packet_id chat_machine 1 ` {171..<203} \<inter> packet_id chat_machine 0 ` {39..<103} = {}" by (rule chat_apart, simp_all)+
  then have disj2: "packet_id chat_machine 1 ` {171..<203} \<inter> dom (lg_sent (nw_ledger nw2)) = {}"
    by (rule disjoint_union [OF _ _ order_trans [OF nw2(3) Un_mono [OF nw1(3) order_refl]]])
  obtain nw3 where nw3: "net_faithful (Suc 0) ref_env chat_machine lru nw2 nw3" "nw_nodes nw3 = chat_nodes[1 := A2, 0 := B2, 1 := A4]"
    using run [where i = 1 and nw = nw2, unfolded nodes2(1), OF A3(1) nodes2(2) data to2 A4(1) range(3) inj(3) disj2 A2(2)] nw2(2) by auto
  have "nw_nodes nw3 ! 1 = A4" by (simp add: nw3(2) len)
  with A4(2) faithful_reachable [OF net_faithful_trans [OF nw3(1) net_faithful_trans [OF nw2(1) nw1(1)]]]
  show ?thesis by (intro exI [of _ nw3] exI [of _ "packet_id chat_machine 1 107"]) simp
qed

section \<open>Concrete instance\<close>

theorem receipts_are_true_witness:
  "\<exists>nw i n a. net_reachable 1 ref_env chat_machine lru (net_start chat_nodes) nw \<and>
     (i, n, a) \<in> noted_receipts (gd_outbox (tr_gd_udp (nd_transport (nw_nodes nw ! 1)))) \<and>
     (i, n, a) \<in> lg_received (nw_ledger nw)"
proof -
  obtain nw i where nw: "net_reachable (Suc 0) ref_env chat_machine lru (net_start chat_nodes) nw"
    "(i, 1, SocketAddrV4 (Ipv4 10 0 0 9) 9292) \<in> noted_receipts (gd_outbox (tr_gd_udp (nd_transport (nw_nodes nw ! 1))))"
    using acknowledged_run by blast
  have "nw_nodes nw ! 1 \<in> set (nw_nodes nw)"
    by (rule nth_mem) (use net_reachable_length [OF nw(1)] in \<open>simp add: net_start_def chat_nodes_def\<close>)
  moreover have "length chat_nodes < 30" by (simp add: chat_nodes_def)
  ultimately show ?thesis using receipts_are_true [OF chat_facts chat_started _ nw(1)] nw unfolding One_nat_def by blast
qed

end
