(* ===== verification/Spec2Isabelle.thy ===== *)
theory Spec2Isabelle
  imports Acknowledged
begin

text \<open>
  A verification development for \<open>udp2p\<close>, a library for peer discovery, reliable delivery over UDP
  and gossip, and for the chat program that assembles it.

  \<^bold>\<open>The program.\<close> A node has three threads that matter. The \<^emph>\<open>transport\<close> thread
  (\<open>src/transport/transport.rs\<close>) takes messages from a channel, cuts them into packets
  (\<open>packetize\<close> in \<open>src/protocol/protocol.rs\<close>) and sends these through \<open>GDUdp\<close>
  (\<open>src/gd_udp/gd_udp.rs\<close>), which keeps an outbox of packets until their receipts come in. The
  \<^emph>\<open>handler\<close> thread (\<open>src/transport/handler.rs\<close>) decodes datagrams, queues receipts, collects the
  packets of a message and routes the message by its header to discovery, to the transport thread
  or to gossip. The \<^emph>\<open>main\<close> thread runs the loop of \<open>GossipService::start\<close>
  (\<open>src/gossip/gossip.rs\<close>): one message for discovery (\<open>src/discovery/kad.rs\<close> with the table of
  \<open>src/discovery/routing.rs\<close>), one for gossip, then the heartbeat. \<open>examples/chat.rs\<close> creates the
  channels and starts the threads.

  \<^bold>\<open>The theories\<close>, each importing those it needs:
  \<^item> \<open>Prelude\<close>: panics as values, computations over a state that may panic (\<open>('s, 'a) act\<close>), frames
    (what a computation keeps), commutation, hash maps and sets, channels, event systems.
  \<^item> \<open>Std_Net\<close>: the text of numbers, IPv4 addresses and socket addresses and its parsing.
  \<^item> \<open>Wire\<close>: \<open>ByteRep\<close> of \<open>src/utils/utils.rs\<close> over a parameter for \<open>serde_json\<close>.
  \<^item> \<open>Keys\<close>, \<open>Peers\<close>: \<open>src/node/\<close> and \<open>MessageKey\<close>; 256-bit keys, the XOR metric, peers.
  \<^item> \<open>Protocol\<close>: packets and messages, \<open>packetize\<close>, and the environment \<open>env\<close> with its contract
    \<open>wire\<close>; \<open>Reference\<close> builds an environment that meets the contract.
  \<^item> \<open>Gd_Udp\<close>, \<open>Handler\<close>, \<open>Transport\<close>: the three files of the same names. \<open>gd_udp\<close>, \<open>handler\<close> and
    \<open>transport\<close> are the structs, field by field; the socket is the record \<open>sock\<close> of the
    datagrams sent and of the outcomes of its system calls.
  \<^item> \<open>Delivery\<close>: the transport layer of one node and the handler of another together.
  \<^item> \<open>Routing\<close>: buckets and the routing table over a parameter for \<open>LinkedHashMap\<close>, whose contract
    is the locale \<open>linked_hash_map\<close>, interpreted on an association list (\<open>lru\<close>).
  \<^item> \<open>Kad\<close>, \<open>Gossip\<close>: \<open>Kademlia\<close> and \<open>GossipService\<close>, every method with a body.
  \<^item> \<open>Node\<close>: the chat program: start-up (\<open>node_new\<close>), the shared channels, the threads and their
    panics, as the step relation \<open>node_step\<close> and the states it can reach.
  \<^item> \<open>Traffic\<close>: what is good about the values a node receives, keeps and sends, given a \<open>ledger\<close> of the
    members, the lines typed, the messages sent and the packets received in a whole network; every
    operation, on good values, returns without a panic and leaves good values (\<open>safe\<close> of \<open>Prelude\<close>).
  \<^item> \<open>Network\<close>: several nodes and the datagrams between them, as the step relation
    \<open>net_reachable\<close>. Each node runs on a \<open>machine\<close> of its own (random source, clock, iteration order).
  \<^item> \<open>Chat\<close>, \<open>Join\<close>: the two things the program is for, through all layers of both nodes: a line
    typed at one is printed by another, and a newcomer gets to know the network. \<open>Conversation\<close>
    lifts both to a network of nodes that have just been started, and \<open>Acknowledged\<close> follows a receipt
    through such a network.
  A definition has the name of the function it translates, with a suffix or prefix where the name
  is taken; helpers name the expression or the loop they stand for.

  \<^bold>\<open>What is proved.\<close>
  \<^item> \<^emph>\<open>Delivery.\<close> The packets of a message are blocks that concatenate to it
    (\<open>packetize_blocks\<close>, \<open>packetize_size\<close>); arriving in any order they deliver exactly that message
    (\<open>reassembly_any_order\<close>, \<open>redelivery_count\<close>, \<open>end_to_end_delivery\<close>). The outbox refines the set
    of the receipts still out (\<open>outbox_refines_in_flight\<close>); sending adds to it exactly the packets
    of the message (\<open>reliable_message_sent\<close>), receipts settle them (\<open>incoming_ack_settles\<close>,
    \<open>receipts_settle\<close>) unless the peer is on the local host (\<open>loopback_receipt_ignored\<close>), a
    maintenance resends the others (\<open>maintain_spec\<close>) and gives up after ten attempts (\<open>unacknowledged_dropped\<close>, \<open>transmitted_ten_times\<close>).
  \<^item> \<^emph>\<open>Routing.\<close> The table's invariant under every run (\<open>routing_run_invariant\<close>), filing
    (\<open>update_peer_files\<close>, \<open>filing_first_free\<close>) and search (\<open>closest_peers_spec\<close>); and where the
    table falls short (\<open>closest_not_nearest\<close>, \<open>duplicate_filing\<close>, \<open>removal_misses\<close>).
  \<^item> \<^emph>\<open>Discovery.\<close> What pings, searches and responses do and send (\<open>ping_answered\<close>,
    \<open>find_node_answered\<close>, \<open>nodes_learned\<close>, \<open>kad_messages_decode\<close>), what no message changes
    (\<open>node_frame\<close>), that the recursion ends (\<open>two_frames_suffice\<close>).
  \<^item> \<^emph>\<open>Gossip.\<close> Reception, idempotence, forwarding, heartbeat (\<open>gossip_reception\<close>,
    \<open>gossip_idempotent\<close>, \<open>publish_destinations\<close>, \<open>gossip_heartbeat\<close>).
  \<^item> \<^emph>\<open>The node.\<close> The invariant of every reachable state (\<open>node_invariant\<close>), a rumour that is shown
    (\<open>rumour_shown\<close>), a line that is passed on (\<open>line_passed_on\<close>), and the panics a stranger can
    cause (\<open>poisoned_receipt\<close>, \<open>transport_death_silent\<close>; which packets and which requests make their
    handlers panic, exactly: \<open>reassembly_panics\<close>, \<open>malformed_request_panics\<close>).
  \<^item> \<^emph>\<open>Networks of honest nodes.\<close> Those panics need a stranger: in a network of fewer than 30 nodes
    of this program no thread ever panics (\<open>network_safe\<close>), what is shown was typed
    (\<open>shown_was_typed\<close>), noted receipts are true (\<open>receipts_are_true\<close>) and the tables hold members only
    (\<open>members_only\<close>). The network may lose, repeat, reorder, delay and misdeliver datagrams, forge their source
    addresses, and deliver datagrams that are no packets. Assumed: the ids drawn for the packets of
    messages do not repeat (\<open>fresh\<close>), sockets accept the options set on them, and the addresses to dial
    can be parsed. Fewer than 30 members cannot fill a bucket, which keeps the search for close peers within its bounds.
  \<^item> \<^emph>\<open>From end to end.\<close> A line typed reaches the screen of a peer (\<open>typed_line_shown\<close>), a newcomer and
    the node it dials get to know each other, and the newcomer every peer the other one knew, if these are
    at most seven (\<open>newcomer_joins\<close>); from the start of
    both nodes on they can come to converse although nothing is misdelivered (\<open>first_conversation\<close>); a message whose cache entry
    has expired is shown again (\<open>rumour_repeated\<close>), and a node without peers gossips to itself
    (\<open>gossip_to_self\<close>).

  \<^bold>\<open>Proof structure.\<close> The contracts of what components rely on are locales (\<open>codec\<close> and \<open>wire\<close> for
  the byte representations, \<open>hash_map\<close>, \<open>linked_hash_map\<close>, \<open>kad_node\<close>), the methods
  shared by the components too (\<open>frame\<close>, \<open>step_system\<close>); all are interpreted on the model's
  definitions. Every panic is a value, and the state at the panic is kept, because what was sent
  before it stays sent; the frame properties hold for these states as well.

  \<^bold>\<open>Bounds.\<close> \<open>handle_request\<close> and \<open>handle_response\<close> call each other; their first argument is the
  number of stack frames left, and \<open>two_frames_suffice\<close> shows that two are enough when a byte
  sequence that decodes both as a request and as a response carries the same call in both. A table of fewer than
  960 peers has room for one more: every distance has at least 32 prefixes, with a bucket of 30
  peers each; the theorems on discovery and gossip ask for that room (\<open>healthy\<close>). No other
  definition needs fuel.

  \<^bold>\<open>Modelling decisions.\<close> Iteration over hash tables follows a rank of the keys that is arbitrary.
  The random source and the clock are sequences, read in order; the clock is taken to show a time after
  1970, before which \<open>timestamp_now\<close> panics: the definitions that call it take the value it returns.
  Text is kept as its UTF-8 bytes, and a line is trimmed of all of Unicode's white space.
  \<open>usize\<close> values that count packets, attempts or peers are unbounded. \<open>Instant\<close> subtraction stops at zero, as the standard
  library's does. A failed send on a channel or the socket is only logged by the program, and logging is left
  out. In \<open>Node\<close> a step is one method call: the threads share nothing but channels, whose
  operations are atomic, so finer interleavings only move sends of other threads between those of a call.

  \<^bold>\<open>Not modelled.\<close> IPv6 addresses (the text of one is parsed by the program and refused by \<open>parse_addr\<close>,
  so \<open>process_ack\<close> panics where the program takes it for a peer that is no destination);
  the macro \<open>packetize!\<close>, which is not used and does not expand to valid code; \<open>GDUdp::recv_from\<close>, which passes on a system call; the empty functions of
  \<open>Kademlia\<close>; \<open>src/record/\<close> and the traits, which have no code; logging and terminal output; the
  arithmetic of \<open>f64\<close> (the fraction of the peers that gossip goes to is a function of their number).
  Every function of \<open>src/\<close> with a body of its own, these excepted, has a definition; the lines that
  none translates are imports, comments, derive attributes, trait declarations, log calls and the
  code that spawns threads.
\<close>

end
